(* ===== verification/PL_Prelude.thy ===== *)
theory PL_Prelude
  imports Main "HOL-Library.Word" "HOL-Library.AList" "HOL-Library.List_Lexorder"
    "HOL-Library.Char_ord" "HOL-Library.Monad_Syntax" "HOL-Library.Sublist"
    "HOL-Library.Multiset"
begin

unbundle bit_operations_syntax

text \<open>
  The prelude of the development: what the components share of Go and its standard library.

  \<^item> \<open>'a go\<close> is the outcome of a piece of Go code: \<open>Some\<close> of its result, or \<open>None\<close> when it
    does not return (a run-time panic such as a nil dereference or an index out of range; for
    a loop defined with \<^theory_text>\<open>partial_function\<close>, also a loop that never ends).
  \<^item> Go strings and byte slices are both \<open>string\<close> (a HOL \<open>char\<close> is a byte), so the code's
    conversions between the two are the identity.
  \<^item> Go maps whose keys the code ranges over are association lists with distinct keys; the
    list order stands for the iteration order. Maps that are only looked up are HOL maps.
  \<^item> \<open>strings.Split\<close>, \<open>strings.Join\<close>, \<open>strings.HasPrefix\<close>, \<open>encoding/hex\<close> and
    \<open>strconv\<close> are written out for the uses the code makes of them.
\<close>

named_theorems go_simps "equations of the Go run-time model"

type_synonym 'a go = "'a option"
type_synonym bytes = string
type_synonym u64 = "64 word"

abbreviation (input) Panic :: "'a go" where
  "Panic \<equiv> None"

abbreviation (input) Ret :: "'a \<Rightarrow> 'a go" where
  "Ret \<equiv> Some"

section \<open>Loops that may panic\<close>

text \<open>A \<open>for ... range\<close> loop whose body may panic, over the list of the range values.\<close>

fun ofold :: "('a \<Rightarrow> 's \<Rightarrow> 's go) \<Rightarrow> 'a list \<Rightarrow> 's \<Rightarrow> 's go" where
  "ofold f [] s = Ret s"
| "ofold f (x # xs) s = do { s' \<leftarrow> f x s; ofold f xs s' }"

lemma ofold_append [go_simps]: "ofold f (xs @ ys) s = do { s' \<leftarrow> ofold f xs s; ofold f ys s' }"
  by (induction xs arbitrary: s) (auto split: Option.bind_splits)

lemma ofold_total: "(\<And>x s. x \<in> set xs \<Longrightarrow> f x s = Ret (g x s)) \<Longrightarrow> ofold f xs s = Ret (fold g xs s)"
  by (induction xs arbitrary: s) auto

lemma ofold_invariant:
  assumes "ofold f xs s = Ret t" and "P s"
    and "\<And>x s s'. x \<in> set xs \<Longrightarrow> P s \<Longrightarrow> f x s = Ret s' \<Longrightarrow> P s'"
  shows "P t"
  using assms
proof (induction xs arbitrary: s)
  case (Cons x xs)
  from Cons.prems(1) obtain s' where s': "f x s = Ret s'" "ofold f xs s' = Ret t"
    by (auto split: Option.bind_splits)
  with Cons.prems have "P s'" by (meson list.set_intros(1))
  with s' Cons.prems(3) show ?case using Cons.IH [of s'] by auto
qed simp

lemma ofold_returns:
  assumes "P s" and "\<And>x s. x \<in> set xs \<Longrightarrow> P s \<Longrightarrow> \<exists>s'. f x s = Ret s' \<and> P s'"
  shows "\<exists>t. ofold f xs s = Ret t \<and> P t"
  using assms
proof (induction xs arbitrary: s)
  case Nil
  then show ?case by simp
next
  case (Cons x xs)
  from Cons.prems obtain s' where s': "f x s = Ret s'" "P s'" by (meson list.set_intros(1))
  with Cons.IH [of s'] Cons.prems(2) obtain t where "ofold f xs s' = Ret t" "P t"
    by (metis list.set_intros(2))
  with s' show ?case by auto
qed

lemma ofold_runs:
  assumes "\<And>x s. x \<in> set xs \<Longrightarrow> \<exists>s'. f x s = Ret s'"
  shows "\<exists>t. ofold f xs s = Ret t"
  using ofold_returns [of "\<lambda>_. True" s xs f] assms by blast

lemma ofold_map: "ofold f (map g xs) s = ofold (\<lambda>x. f (g x)) xs s"
  by (induction xs arbitrary: s) (auto split: Option.bind_splits)

lemma ofold_cong:
  assumes "\<And>x s. x \<in> set xs \<Longrightarrow> f x s = g x s"
  shows "ofold f xs s = ofold g xs s"
  using assms
proof (induction xs arbitrary: s)
  case (Cons x xs)
  have "ofold f xs t = ofold g xs t" for t using Cons by simp
  with Cons.prems [of x s] show ?case by (cases "g x s") simp_all
qed simp

lemma ofold_concat: "ofold (\<lambda>i. ofold f (g i)) xs s = ofold f (concat (map g xs)) s"
proof (induction xs arbitrary: s)
  case (Cons x xs)
  then show ?case by (cases "ofold f (g x) s") (simp_all add: ofold_append)
qed simp

lemma upt_mult: "[0..<n * m] = concat (map (\<lambda>i. map (\<lambda>j. i * m + j) [0..<m]) [0..<n])"
proof (induction n)
  case (Suc n)
  have "[0..<Suc n * m] = [0..<n * m] @ [n * m..<n * m + m]"
    by (metis add.commute mult_Suc upt_add_eq_append zero_le)
  moreover have "[n * m..<n * m + m] = map (\<lambda>j. n * m + j) [0..<m]"
    using map_add_upt [of "n * m" m] by (simp add: add.commute)
  ultimately show ?case using Suc by simp
qed simp

lemma set_map_filter_upt: "set (map f (filter P [0..<n])) = f ` {j. j < n \<and> P j}"
  by auto

lemma ofold_panics:
  assumes "x \<in> set xs" and "\<And>s. f x s = Panic"
  shows "ofold f xs s = Panic"
  using assms by (induction xs arbitrary: s) (auto split: Option.bind_splits)

section \<open>Go maps that are ranged over\<close>

text \<open>
  The interface of a Go map as the components use it: lookup with the comma-ok form,
  assignment, \<open>delete\<close> and the keys a \<open>range\<close> visits.
\<close>

locale go_map =
  fixes get :: "'m \<Rightarrow> 'k \<Rightarrow> 'v option"
    and put :: "'k \<Rightarrow> 'v \<Rightarrow> 'm \<Rightarrow> 'm"
    and del :: "'k \<Rightarrow> 'm \<Rightarrow> 'm"
    and range_keys :: "'m \<Rightarrow> 'k list"
    and wf :: "'m \<Rightarrow> bool"
  assumes get_put: "get (put k v m) = (get m)(k \<mapsto> v)"
    and get_del: "get (del k m) = (get m)(k := None)"
    and set_range_keys: "set (range_keys m) = dom (get m)"
    and distinct_range_keys: "wf m \<Longrightarrow> distinct (range_keys m)"
    and wf_put: "wf m \<Longrightarrow> wf (put k v m)"
    and wf_del: "wf m \<Longrightarrow> wf (del k m)"
begin

lemma range_keys_put: "set (range_keys (put k v m)) = insert k (set (range_keys m))"
  by (simp add: set_range_keys get_put)

lemma range_keys_del: "set (range_keys (del k m)) = set (range_keys m) - {k}"
  by (auto simp: set_range_keys get_del)

lemma len_put:
  assumes "wf m"
  shows "length (range_keys (put k v m)) =
    (if get m k = None then Suc (length (range_keys m)) else length (range_keys m))"
proof -
  have "length (range_keys (put k v m)) = card (insert k (set (range_keys m)))"
    using distinct_card [OF distinct_range_keys [OF wf_put [OF assms]]] by (simp add: range_keys_put)
  also have "\<dots> = (if k \<in> set (range_keys m) then card (set (range_keys m))
                 else Suc (card (set (range_keys m))))"
    by (simp add: insert_absorb)
  finally show ?thesis
    using distinct_card [OF distinct_range_keys [OF assms]] by (auto simp: set_range_keys)
qed

lemma get_put_del: "k \<noteq> k' \<Longrightarrow> get (del k' (put k v m)) k = Some v"
  by (simp add: get_put get_del)

end

abbreviation (input) map_get :: "('k \<times> 'v) list \<Rightarrow> 'k \<Rightarrow> 'v option" where
  "map_get m k \<equiv> map_of m k"

abbreviation (input) map_put :: "'k \<Rightarrow> 'v \<Rightarrow> ('k \<times> 'v) list \<Rightarrow> ('k \<times> 'v) list" where
  "map_put \<equiv> AList.update"

abbreviation (input) map_del :: "'k \<Rightarrow> ('k \<times> 'v) list \<Rightarrow> ('k \<times> 'v) list" where
  "map_del \<equiv> AList.delete"

abbreviation (input) map_keys :: "('k \<times> 'v) list \<Rightarrow> 'k list" where
  "map_keys m \<equiv> map fst m"

interpretation gm: go_map map_of map_put map_del map_keys "\<lambda>m. distinct (map_keys m)"
  by unfold_locales
    (simp_all add: update_conv' delete_conv' dom_map_of_conv_image_fst distinct_update distinct_delete)

lemmas map_simps [go_simps] = gm.get_put gm.get_del

lemma map_put_set: "x \<in> set (map_put k v m) \<Longrightarrow> x = (k, v) \<or> x \<in> set m"
  by (induction m) (auto split: if_splits)

lemma map_del_set: "x \<in> set (map_del k m) \<Longrightarrow> x \<in> set m"
  by (induction m) (auto split: if_splits)

section \<open>Strings\<close>

text \<open>\<open>strings.Split\<close> with a one-byte separator.\<close>

fun split_on :: "char \<Rightarrow> string \<Rightarrow> string list" where
  "split_on c [] = [[]]"
| "split_on c (x # xs) =
     (if x = c then [] # split_on c xs
      else case split_on c xs of [] \<Rightarrow> [[x]] | y # ys \<Rightarrow> (x # y) # ys)"

text \<open>\<open>strings.Join\<close>.\<close>

fun join :: "string \<Rightarrow> string list \<Rightarrow> string" where
  "join sep [] = []"
| "join sep [x] = x"
| "join sep (x # y # ys) = x @ sep @ join sep (y # ys)"

lemma split_on_not_Nil [simp]: "split_on c s \<noteq> []"
  by (cases s) (auto split: list.split)

lemma split_on_absent: "c \<notin> set s \<Longrightarrow> split_on c s = [s]"
  by (induction s) auto

lemma split_on_append: "c \<notin> set a \<Longrightarrow> split_on c (a @ c # b) = a # split_on c b"
  by (induction a) auto

lemma join_split_on: "join [c] (split_on c s) = s"
proof (induction s)
  case Nil
  then show ?case by simp
next
  case (Cons x xs)
  show ?case
  proof (cases "split_on c xs")
    case Nil
    then show ?thesis by simp
  next
    case (Cons y ys)
    with Cons.IH show ?thesis by (cases ys) auto
  qed
qed

text \<open>Zero-padding to the left: \<open>strings.Repeat(" ", n-len(s)) + s\<close>.\<close>

definition repeat :: "nat \<Rightarrow> string \<Rightarrow> string" where
  "repeat n s = concat (replicate n s)"

lemma length_repeat_single [simp]: "length (repeat n [c]) = n"
  by (induction n) (auto simp: repeat_def)

text \<open>\<open>strconv.FormatUint(n, 10)\<close>.\<close>

fun dec :: "nat \<Rightarrow> string" where
  "dec n = (if n < 10 then [char_of (48 + n)] else dec (n div 10) @ [char_of (48 + n mod 10)])"

declare dec.simps [simp del]

definition FormatUint :: "u64 \<Rightarrow> string" where
  "FormatUint w = dec (unat w)"

text \<open>\<open>strconv.FormatInt(n, 10)\<close> on an \<open>int64\<close>.\<close>

definition FormatInt :: "u64 \<Rightarrow> string" where
  "FormatInt w = (if sint w < 0 then CHR ''-'' # dec (nat (- sint w)) else dec (nat (sint w)))"

lemma dec_not_Nil [simp]: "dec n \<noteq> []"
  by (subst dec.simps) simp

lemma length_dec_le: "n < 10 ^ k \<Longrightarrow> 0 < k \<Longrightarrow> length (dec n) \<le> k"
proof (induction n arbitrary: k rule: dec.induct)
  case (1 n)
  show ?case
  proof (cases "n < 10")
    case True
    with 1 show ?thesis by (subst dec.simps) simp
  next
    case False
    then have "k \<noteq> 1" using 1 by auto
    with 1 obtain j where j: "k = Suc j" "0 < j" by (cases k) auto
    have "length (dec (n div 10)) \<le> j"
      using "1.IH" [OF False, of j] "1.prems" j by auto
    with False j show ?thesis by (subst dec.simps) simp
  qed
qed

lemma dec_digit_inj: "a < 10 \<Longrightarrow> b < 10 \<Longrightarrow> (char_of (48 + a) :: char) = char_of (48 + b) \<Longrightarrow> a = (b :: nat)"
  by (drule arg_cong [where f = "of_char :: char \<Rightarrow> nat"]) (simp add: of_char_of)

lemma dec_inj: "dec m = dec n \<Longrightarrow> m = n"
proof (induction m arbitrary: n rule: dec.induct)
  case (1 m)
  show ?case
  proof (cases "m < 10 \<or> n < 10")
    case True
    have "[] \<noteq> dec i" for i :: nat
      using dec_not_Nil [of i] by metis
    with True "1.prems" show ?thesis
      by (auto simp: dec.simps [of m] dec.simps [of n] dest: dec_digit_inj split: if_splits)
  next
    case False
    then have eq: "dec (m div 10) = dec (n div 10)"
        "(char_of (48 + m mod 10) :: char) = char_of (48 + n mod 10)"
      using "1.prems" by (auto simp: dec.simps [of m] dec.simps [of n])
    then have "m div 10 = n div 10" using False "1.IH" by auto
    moreover have "m mod 10 = n mod 10" using eq(2) by (intro dec_digit_inj) auto
    ultimately show ?thesis by (metis div_mult_mod_eq)
  qed
qed

lemma length_FormatUint_le: "length (FormatUint w) \<le> 20"
proof -
  have "unat w < 2 ^ 64" using unsigned_less [of w] by simp
  also have "(2::nat) ^ 64 < 10 ^ 20" by simp
  finally show ?thesis by (simp add: FormatUint_def length_dec_le)
qed

lemma FormatUint_inj: "FormatUint v = FormatUint w \<longleftrightarrow> v = w"
  by (auto simp: FormatUint_def word_unat_eq_iff dest: dec_inj)

section \<open>Hexadecimal\<close>

text \<open>\<open>hex.EncodeToString\<close> (also \<open>fmt.Sprintf\<close> with \<open>%x\<close>) and \<open>hex.DecodeString\<close>.\<close>

definition hexdigit :: "nat \<Rightarrow> char" where
  "hexdigit d = (if d < 10 then char_of (48 + d) else char_of (87 + d))"

fun hexEncode :: "bytes \<Rightarrow> string" where
  "hexEncode [] = []"
| "hexEncode (c # cs) =
     hexdigit (of_char c div 16) # hexdigit (of_char c mod 16) # hexEncode cs"

definition fromHexChar :: "char \<Rightarrow> nat option" where
  "fromHexChar c =
     (let n = of_char c in
      if 48 \<le> n \<and> n \<le> 57 then Some (n - 48)
      else if 97 \<le> n \<and> n \<le> 102 then Some (n - 87)
      else if 65 \<le> n \<and> n \<le> 70 then Some (n - 55)
      else None)"

fun hexDecode :: "string \<Rightarrow> bytes option" where
  "hexDecode [] = Some []"
| "hexDecode [c] = None"
| "hexDecode (a # b # cs) =
     (case (fromHexChar a, fromHexChar b, hexDecode cs) of
        (Some x, Some y, Some r) \<Rightarrow> Some (char_of (16 * x + y) # r)
      | _ \<Rightarrow> None)"

lemma fromHexChar_hexdigit [simp]: "d < 16 \<Longrightarrow> fromHexChar (hexdigit d) = Some d"
  by (auto simp: fromHexChar_def hexdigit_def Let_def of_char_of)

lemma of_char_lt [simp]: "(of_char (c :: char) :: nat) < 256"
  using of_char_of [of "of_char c :: nat"] mod_less_divisor [of 256 "of_char c :: nat"]
  by (simp add: char_of_char)

lemma hexDecode_hexEncode [simp]: "hexDecode (hexEncode bs) = Some bs"
proof (induction bs)
  case Nil
  then show ?case by simp
next
  case (Cons c cs)
  have "(of_char c :: nat) div 16 < 16"
    by (simp add: less_mult_imp_div_less)
  then show ?case using Cons by (simp add: char_of_char)
qed

lemma length_hexEncode [simp]: "length (hexEncode bs) = 2 * length bs"
  by (induction bs) auto

lemma hexEncode_inj: "hexEncode a = hexEncode b \<longleftrightarrow> a = b"
  by (metis hexDecode_hexEncode option.inject)

lemma hexdigit_not_dot: "d < 16 \<Longrightarrow> hexdigit d \<noteq> CHR ''.''"
proof -
  assume "d < 16"
  then have "(of_char (hexdigit d) :: nat) \<noteq> of_char (CHR ''.'')"
    by (auto simp: hexdigit_def)
  then show ?thesis by metis
qed

lemma hexEncode_no_dot: "CHR ''.'' \<notin> set (hexEncode bs)"
proof (induction bs)
  case (Cons c cs)
  have "(of_char c :: nat) div 16 < 16" by (simp add: less_mult_imp_div_less)
  then have "hexdigit (of_char c div 16) \<noteq> CHR ''.''" "hexdigit (of_char c mod 16) \<noteq> CHR ''.''"
    by (simp_all add: hexdigit_not_dot)
  with Cons show ?case by (metis hexEncode.simps(2) set_ConsD)
qed simp

section \<open>Machine words\<close>

lemma int_diff_mod: "int a - int (a mod b) = int (a div b * b)"
proof -
  have "int a - int (a mod b) = int (a - a mod b)"
    by (rule of_nat_diff [symmetric]) (rule mod_less_eq_dividend)
  then show ?thesis by (simp only: minus_mod_eq_div_mult)
qed

lemma unat_udiv: "unat (a div b) = unat a div unat (b :: 'a::len word)"
  by (rule unat_div_distrib)

lemma unat_u64_less: "unat (w :: u64) < 2 ^ 64"
  using unsigned_less [of w] by simp

lemma unat_of_nat_u64: "n < 2 ^ 64 \<Longrightarrow> unat (of_nat n :: u64) = n"
  by (simp add: unat_of_nat)

lemma bit_set_bit_iff:
  "k < 64 \<Longrightarrow> bit ((w :: u64) OR push_bit k 1) j \<longleftrightarrow> bit w j \<or> j = k"
  by (auto simp: bit_or_iff bit_push_bit_iff bit_1_iff bit_exp_iff)

lemma shift_and_1_iff: "(drop_bit k (w :: u64)) AND 1 = 1 \<longleftrightarrow> bit w k"
  by (simp add: and_one_eq bit_iff_odd_drop_bit flip: odd_iff_mod_2_eq_one)

end
