(* ===== verification/Peers.thy ===== *)
theory Peers
  imports PL_Prelude
begin

text \<open>
  Keys, peers and identities (\<open>white-box/white-box.go\<close>, lines 122-164 and 229-256) and the integer
  view of a public key that the routing table uses (\<open>math/big\<close>: \<open>SetBytes\<close>, \<open>Bytes\<close>, \<open>Xor\<close>, \<open>Cmp\<close> on
  non-negative integers are functions on \<open>nat\<close>).

  An id is the hex of the signing key, a dot, and the hex of the encryption key. A \<open>nacl.Key\<close> is a
  pointer to 32 bytes that JSON can leave nil: \<open>None\<close>. A connection is the address it was dialled to.
\<close>

section \<open>Keys and peers\<close>

record Self =
  se_EncPub :: "bytes option"
  se_EncPrv :: "bytes option"
  se_SignPub :: "bytes option"
  se_SignPrv :: "bytes option"
  se_Address :: string

record Peer =
  pe_EncPub :: "bytes option"
  pe_SignPub :: bytes
  pe_Address :: string
  pe_Conn :: "string option"

record MinPeer =
  mi_EncPub :: "bytes option"
  mi_SignPub :: bytes

definition Peer_Id :: "Peer \<Rightarrow> string go" where
  "Peer_Id peer = (case pe_EncPub peer of
     None \<Rightarrow> Panic
   | Some enc \<Rightarrow> Ret (hexEncode (pe_SignPub peer) @ ''.'' @ hexEncode enc))"

definition ShortId :: "Peer \<Rightarrow> string" where
  "ShortId peer = hexEncode (pe_SignPub peer)"

definition Peer_Min :: "Peer \<Rightarrow> MinPeer" where
  "Peer_Min peer = \<lparr>mi_EncPub = pe_EncPub peer, mi_SignPub = pe_SignPub peer\<rparr>"

definition MinPeer_Id :: "MinPeer \<Rightarrow> string go" where
  "MinPeer_Id minp = (case mi_EncPub minp of
     None \<Rightarrow> Panic
   | Some enc \<Rightarrow> Ret (hexEncode (mi_SignPub minp) @ ''.'' @ hexEncode enc))"

text \<open>
  \<open>encBytes[:nacl.KeySize]\<close> reslices up to the capacity: \<open>spare s\<close> are the bytes between the length and
  the capacity of what \<open>hex.DecodeString(s)\<close> returns.
\<close>

definition IdToMin :: "(string \<Rightarrow> bytes) \<Rightarrow> string \<Rightarrow> (string + MinPeer) go" where
  "IdToMin spare peerId =
     (case split_on CHR ''.'' peerId of
        [signHex, encHex] \<Rightarrow>
          (case hexDecode signHex of
             None \<Rightarrow> Ret (Inl ''error invalid id (min)'')
           | Some signBytes \<Rightarrow>
               (case hexDecode encHex of
                  None \<Rightarrow> Ret (Inl ''error invalid id (min)'')
                | Some encBytes \<Rightarrow>
                    let buf = encBytes @ spare encHex in
                    if length buf < 32 then Panic
                    else Ret (Inr \<lparr>mi_EncPub = Some (take 32 buf), mi_SignPub = signBytes\<rparr>)))
      | _ \<Rightarrow> Ret (Inl ''error invalid id (min)''))"

text \<open>The test of \<open>GetKeys\<close> for missing keys: the third test of the code repeats the first private key.\<close>

definition selfZero :: "Self \<Rightarrow> bool" where
  "selfZero self \<longleftrightarrow> se_SignPub self = None \<or> se_SignPrv self = None \<or>
     se_EncPub self = None \<or> se_SignPrv self = None"

section \<open>Ids\<close>

lemma split_two:
  assumes "c \<notin> set a" and "c \<notin> set b"
  shows "split_on c (a @ c # b) = [a, b]"
  using assms by (induction a) (auto simp: split_on_absent)

lemma Peer_Id_eq_Min: "Peer_Id peer = MinPeer_Id (Peer_Min peer)"
  by (simp add: Peer_Id_def MinPeer_Id_def Peer_Min_def split: option.split)

lemma IdToMin_of_hex:
  assumes "length enc = 32"
  shows "IdToMin spare (hexEncode sig @ ''.'' @ hexEncode enc) =
    Ret (Inr \<lparr>mi_EncPub = Some enc, mi_SignPub = sig\<rparr>)"
  using assms split_two [of "CHR ''.''" "hexEncode sig" "hexEncode enc"] hexEncode_no_dot
  by (simp add: IdToMin_def Let_def)

lemma IdToMin_MinPeer_Id:
  assumes "MinPeer_Id minp = Ret peerId" and "mi_EncPub minp = Some enc" and "length enc = 32"
  shows "IdToMin spare peerId = Ret (Inr minp)"
  using assms IdToMin_of_hex [of enc spare "mi_SignPub minp"] by (auto simp: MinPeer_Id_def)

lemma id_string_eq:
  "hexEncode a @ CHR ''.'' # hexEncode b = hexEncode a' @ CHR ''.'' # hexEncode b' \<longleftrightarrow> a = a' \<and> b = b'"
  using append_Cons_eq_iff [OF hexEncode_no_dot hexEncode_no_dot, of a b "hexEncode a'" "hexEncode b'"]
  by (simp add: hexEncode_inj)

lemma MinPeer_Id_inj:
  "MinPeer_Id a = Ret peerId \<Longrightarrow> MinPeer_Id b = Ret peerId \<Longrightarrow> a = b"
  by (cases a; cases b) (auto simp: MinPeer_Id_def id_string_eq split: option.splits)

text \<open>
  C37: Ids round trip. The id of a peer with a 32-byte encryption key parses back to its two keys, and
  two peers with the same id have the same keys.
\<close>

theorem id_round_trip:
  assumes "Peer_Id peer = Ret peerId" and "pe_EncPub peer = Some enc" and "length enc = 32"
  shows "IdToMin spare peerId = Ret (Inr (Peer_Min peer)) \<and>
    (\<forall>other. Peer_Id other = Ret peerId \<longrightarrow> Peer_Min other = Peer_Min peer)"
  using assms IdToMin_MinPeer_Id [of "Peer_Min peer" peerId enc spare] MinPeer_Id_inj
  by (auto simp: Peer_Id_eq_Min) (auto simp: Peer_Min_def)

theorem id_round_trip_witness:
  "IdToMin (\<lambda>_. []) (hexEncode ''k'' @ ''.'' @ hexEncode (replicate 32 CHR ''e'')) =
    Ret (Inr \<lparr>mi_EncPub = Some (replicate 32 CHR ''e''), mi_SignPub = ''k''\<rparr>)"
  using id_round_trip [of "\<lparr>pe_EncPub = Some (replicate 32 CHR ''e''), pe_SignPub = ''k'', pe_Address = [],
      pe_Conn = None\<rparr>"]
  by (simp add: Peer_Id_def Peer_Min_def)

text \<open>
  Ids are not canonical. Bytes after the first 32 of the encryption key are dropped when an id is
  parsed, so for any peer there are arbitrarily many different id strings with the same keys, all of
  which the signature checks accept as that peer.
\<close>

theorem id_aliases:
  assumes "length enc = 32"
  shows "IdToMin spare (hexEncode sig @ ''.'' @ hexEncode (enc @ extra)) =
      IdToMin spare (hexEncode sig @ ''.'' @ hexEncode enc) \<and>
    (extra \<noteq> [] \<longrightarrow> hexEncode sig @ ''.'' @ hexEncode (enc @ extra) \<noteq> hexEncode sig @ ''.'' @ hexEncode enc)"
proof -
  have "IdToMin spare (hexEncode sig @ ''.'' @ hexEncode (enc @ extra)) =
      Ret (Inr \<lparr>mi_EncPub = Some enc, mi_SignPub = sig\<rparr>)"
    using assms split_two [of "CHR ''.''" "hexEncode sig" "hexEncode (enc @ extra)"] hexEncode_no_dot
    by (simp add: IdToMin_def Let_def)
  with IdToMin_of_hex [OF assms, of spare sig] show ?thesis by (simp add: hexEncode_inj)
qed

theorem id_aliases_witness:
  "IdToMin (\<lambda>_. []) (hexEncode ''k'' @ ''.'' @ hexEncode (replicate 32 CHR ''e'' @ ''x'')) =
    IdToMin (\<lambda>_. []) (hexEncode ''k'' @ ''.'' @ hexEncode (replicate 32 CHR ''e''))"
  using id_aliases [of "replicate 32 CHR ''e''" "\<lambda>_. []" "''k''" "''x''"] by simp

section \<open>Keys as integers\<close>

definition SetBytes :: "bytes \<Rightarrow> nat" where
  "SetBytes bs = fold (\<lambda>c n. 256 * n + of_char c) bs 0"

text \<open>\<open>Int.Bytes\<close>: big-endian without leading zero bytes.\<close>

fun Bytes :: "nat \<Rightarrow> bytes" where
  "Bytes n = (if n = 0 then [] else Bytes (n div 256) @ [char_of (n mod 256)])"

declare Bytes.simps [simp del]

lemma SetBytes_snoc [simp]: "SetBytes (bs @ [c]) = 256 * SetBytes bs + of_char c"
  by (simp add: SetBytes_def)

lemma SetBytes_Nil [simp]: "SetBytes [] = 0"
  by (simp add: SetBytes_def)

lemma SetBytes_Bytes [simp]: "SetBytes (Bytes n) = n"
proof (induction n rule: Bytes.induct)
  case (1 n)
  then show ?case by (subst Bytes.simps) (simp add: of_char_of)
qed

lemma SetBytes_less: "SetBytes bs < 2 ^ (8 * length bs)"
proof (induction bs rule: rev_induct)
  case (snoc c bs)
  have "SetBytes (bs @ [c]) < 256 * (SetBytes bs + 1)"
    using of_char_lt [of c] unfolding SetBytes_snoc distrib_left by linarith
  also have "\<dots> \<le> 256 * 2 ^ (8 * length bs)" using snoc by (intro mult_left_mono) simp_all
  finally show ?case by (simp add: power_add)
qed simp

lemma SetBytes_inj: "length a = length b \<Longrightarrow> SetBytes a = SetBytes b \<Longrightarrow> a = b"
proof (induction a arbitrary: b rule: rev_induct)
  case (snoc c a)
  then obtain b' d where b: "b = b' @ [d]" by (cases b rule: rev_cases) auto
  have eq: "256 * SetBytes a + of_char c = 256 * SetBytes b' + of_char d"
    using snoc.prems(2) by (simp add: b)
  have "SetBytes a = (256 * SetBytes a + of_char c) div 256"
    using of_char_lt [of c] by simp
  also have "\<dots> = SetBytes b'" unfolding eq using of_char_lt [of d] by simp
  finally have "SetBytes a = SetBytes b'" .
  with eq have "(of_char c :: nat) = of_char d" by simp
  with snoc \<open>SetBytes a = SetBytes b'\<close> b show ?case by simp
qed simp

end
