(* ===== verification/Coverage.thy ===== *)
theory Coverage
  imports PL_Prelude
begin

text \<open>
  Block indices and coverage bitmaps (\<open>white-box/files.go\<close>, lines 180, 300-323 and 424-481, and
  the index arithmetic of \<open>haveBlock\<close>, \<open>setBlockWritten\<close> and \<open>RequestSender\<close> in
  \<open>white-box/party.go\<close>). A file of \<open>size\<close> bytes is cut into blocks of \<open>BUFFER_SIZE\<close> bytes; a
  coverage is a slice of \<open>uint64\<close> with one bit per block. All arithmetic is on 64-bit words, as
  in the code; the loop of \<open>fullCoverage\<close> may run forever (it does for a negative size), so it is
  a \<^theory_text>\<open>partial_function\<close>.
\<close>

section \<open>Definitions\<close>

definition BUFFER_SIZE :: u64 where
  "BUFFER_SIZE = 10240"

definition leftParent :: "u64 \<Rightarrow> u64" where
  "leftParent i = (i - 1) div 2"

definition rightParent :: "u64 \<Rightarrow> u64" where
  "rightParent i = (i - 2) div 2"

definition treeParent :: "u64 \<Rightarrow> u64" where
  "treeParent i = (if i mod 2 = 1 then leftParent i else rightParent i)"

definition leftChild :: "u64 \<Rightarrow> u64" where
  "leftChild i = 2 * i + 1"

definition rightChild :: "u64 \<Rightarrow> u64" where
  "rightChild i = 2 * i + 2"

text \<open>The idiom \<open>(coverage[k/64] >> (k%64)) & 1 == 1\<close>, with the bounds check of the index.\<close>

definition cov_get :: "u64 list \<Rightarrow> u64 \<Rightarrow> bool go" where
  "cov_get cov k =
     (let majorIdx = k div 64; minorIdx = k mod 64 in
      if unat majorIdx < length cov
      then Ret ((drop_bit (unat minorIdx) (cov ! unat majorIdx)) AND 1 = 1)
      else Panic)"

text \<open>The idiom \<open>coverage[k/64] |= (1 << (k%64))\<close>.\<close>

definition cov_set :: "u64 \<Rightarrow> u64 list \<Rightarrow> u64 list go" where
  "cov_set k cov =
     (let majorIdx = k div 64; minorIdx = k mod 64 in
      if unat majorIdx < length cov
      then Ret (cov[unat majorIdx := (cov ! unat majorIdx) OR push_bit (unat minorIdx) 1])
      else Panic)"

definition isEmptyCoverage :: "u64 list \<Rightarrow> bool" where
  "isEmptyCoverage coverage = list_all (\<lambda>w. w = 0) coverage"

text \<open>\<open>size\<close> is an \<open>int64\<close>; \<open>uint64(size)\<close> keeps its bits, so the word itself is read unsigned.\<close>

definition emptyCoverage :: "u64 \<Rightarrow> u64 list" where
  "emptyCoverage sz =
     (let count = sz div (BUFFER_SIZE * 64);
          count = (if sz mod (BUFFER_SIZE * 64) \<noteq> 0 then count + 1 else count)
      in replicate (unat count) 0)"

partial_function (option) fullCoverage_loop ::
    "u64 \<Rightarrow> u64 \<Rightarrow> u64 \<Rightarrow> u64 list \<Rightarrow> (u64 \<times> u64 list) go" where
  "fullCoverage_loop sz i cur coverage =
     (if i * BUFFER_SIZE < sz
      then if (i + 1) mod 64 = 0
           then fullCoverage_loop sz (i + 1) 0
                  (coverage @ [cur OR push_bit (unat (i mod 64)) 1])
           else fullCoverage_loop sz (i + 1) (cur OR push_bit (unat (i mod 64)) 1) coverage
      else Ret (cur, coverage))"

definition fullCoverage :: "u64 \<Rightarrow> u64 list go" where
  "fullCoverage sz = do {
     (cur, coverage) \<leftarrow> fullCoverage_loop sz 0 0 [];
     Ret (if cur \<noteq> 0 then coverage @ [cur] else coverage) }"

text \<open>The argument is a slice that may be nil (\<open>None\<close>); \<open>fullCoverage\<close> never returns nil.\<close>

definition isFullCoverage :: "u64 \<Rightarrow> u64 list option \<Rightarrow> bool go" where
  "isFullCoverage sz coverage = do {
     compare \<leftarrow> fullCoverage sz;
     case coverage of
       None \<Rightarrow> Panic
     | Some cov \<Rightarrow>
         if length cov \<noteq> length compare then Panic
         else Ret (list_all (\<lambda>i. cov ! i = compare ! i) [0..<length cov]) }"

section \<open>Bitmaps as sets of block indices\<close>

text \<open>
  What the code relies on of a bitmap: reads and writes panic exactly outside its capacity, a
  write adds its index and changes nothing else.
\<close>

locale bitmap =
  fixes get :: "'c \<Rightarrow> 'k \<Rightarrow> bool go"
    and set1 :: "'k \<Rightarrow> 'c \<Rightarrow> 'c go"
    and ix :: "'k \<Rightarrow> nat"
    and cap :: "'c \<Rightarrow> nat"
    and members :: "'c \<Rightarrow> nat set"
  assumes get_eq: "get c k = (if ix k < cap c then Ret (ix k \<in> members c) else Panic)"
    and set_panic: "\<not> ix k < cap c \<Longrightarrow> set1 k c = Panic"
    and set_ret: "ix k < cap c \<Longrightarrow>
      \<exists>c'. set1 k c = Ret c' \<and> members c' = insert (ix k) (members c) \<and> cap c' = cap c"
begin

lemma set_cases:
  assumes "set1 k c = Ret c'"
  shows "ix k < cap c" "members c' = insert (ix k) (members c)" "cap c' = cap c"
  using assms set_panic [of k c] set_ret [of k c] by (auto dest: not_None_eq [THEN iffD1])

lemma get_after_set: "set1 k c = Ret c' \<Longrightarrow> get c' k = Ret True"
  using set_cases [of k c c'] by (simp add: get_eq)

lemma set_all_iff: "(\<exists>c'. ofold set1 ks c = Ret c') \<longleftrightarrow> (\<forall>k \<in> set ks. ix k < cap c)"
proof (induction ks arbitrary: c)
  case (Cons k ks)
  show ?case
  proof (cases "ix k < cap c")
    case True
    then obtain c1 where "set1 k c = Ret c1" "cap c1 = cap c" using set_ret by blast
    with Cons.IH [of c1] True show ?thesis by simp
  qed (simp add: set_panic)
qed simp

lemma set_all:
  "ofold set1 ks c = Ret c' \<Longrightarrow> members c' = members c \<union> ix ` set ks \<and> cap c' = cap c"
  by (induction ks arbitrary: c) (auto dest: set_cases split: Option.bind_splits)

end

definition cov_cap :: "u64 list \<Rightarrow> nat" where
  "cov_cap cov = 64 * length cov"

definition cov_bits :: "u64 list \<Rightarrow> nat set" where
  "cov_bits cov = {k. k < cov_cap cov \<and> bit (cov ! (k div 64)) (k mod 64)}"

lemma unat_div_mod_64 [simp]:
  "unat ((k :: u64) div 64) = unat k div 64" "unat ((k :: u64) mod 64) = unat k mod 64"
  by (simp_all add: unat_div_distrib unat_mod_distrib)

lemma div_64_less_iff: "(k :: nat) div 64 < n \<longleftrightarrow> k < 64 * n"
  by (simp add: div_less_iff_less_mult mult.commute)

lemma cov_bits_iff: "k \<in> cov_bits cov \<longleftrightarrow> k div 64 < length cov \<and> bit (cov ! (k div 64)) (k mod 64)"
  by (simp add: cov_bits_def cov_cap_def div_64_less_iff)

lemma cov_bits_set:
  assumes "unat k < cov_cap cov"
  shows "cov_bits (cov[unat k div 64 := (cov ! (unat k div 64)) OR push_bit (unat k mod 64) 1])
    = insert (unat k) (cov_bits cov)"
proof -
  have split: "j = unat k \<longleftrightarrow> j div 64 = unat k div 64 \<and> j mod 64 = unat k mod 64" for j
    by (metis div_mult_mod_eq)
  have lt: "unat k div 64 < length cov"
    using assms by (simp add: div_64_less_iff cov_cap_def)
  show ?thesis
  proof (intro set_eqI)
    fix j
    show "j \<in> cov_bits (cov[unat k div 64 := (cov ! (unat k div 64)) OR push_bit (unat k mod 64) 1])
      \<longleftrightarrow> j \<in> insert (unat k) (cov_bits cov)"
      using assms lt bit_set_bit_iff [of "unat k mod 64" "cov ! (unat k div 64)" "j mod 64"]
      by (cases "j div 64 = unat k div 64") (auto simp: cov_bits_def cov_cap_def split)
  qed
qed

interpretation cov: bitmap cov_get cov_set unat cov_cap cov_bits
proof unfold_locales
  fix c :: "u64 list" and k :: u64
  show "cov_get c k = (if unat k < cov_cap c then Ret (unat k \<in> cov_bits c) else Panic)"
    by (simp add: cov_get_def cov_bits_def cov_cap_def Let_def div_64_less_iff shift_and_1_iff)
  show "\<not> unat k < cov_cap c \<Longrightarrow> cov_set k c = Panic"
    by (simp add: cov_set_def cov_cap_def Let_def div_64_less_iff)
  show "unat k < cov_cap c \<Longrightarrow>
      \<exists>c'. cov_set k c = Ret c' \<and> cov_bits c' = insert (unat k) (cov_bits c) \<and> cov_cap c' = cov_cap c"
    using cov_bits_set [of k c] by (simp add: cov_set_def cov_cap_def Let_def div_64_less_iff)
qed

lemma isEmptyCoverage_iff: "isEmptyCoverage cov \<longleftrightarrow> cov_bits cov = {}"
proof
  assume "isEmptyCoverage cov"
  then show "cov_bits cov = {}"
    by (auto simp: isEmptyCoverage_def cov_bits_def cov_cap_def list_all_length div_64_less_iff)
next
  assume empty: "cov_bits cov = {}"
  have "cov ! i = 0" if "i < length cov" for i
  proof (rule bit_word_eqI)
    fix n assume "n < LENGTH(64)"
    then have "64 * i + n \<notin> cov_bits cov" "(64 * i + n) div 64 = i" "(64 * i + n) mod 64 = n"
      using empty by auto
    then show "bit (cov ! i) n \<longleftrightarrow> bit (0 :: u64) n"
      using that \<open>n < LENGTH(64)\<close> by (auto simp: cov_bits_def cov_cap_def)
  qed
  then show "isEmptyCoverage cov" by (simp add: isEmptyCoverage_def list_all_length)
qed

section \<open>Full and empty coverage\<close>

text \<open>The number of blocks that \<open>fullCoverage\<close> marks for a size.\<close>

definition nblocks :: "u64 \<Rightarrow> nat" where
  "nblocks sz = (unat sz + 10239) div 10240"

lemma less_nblocks_iff: "k < nblocks sz \<longleftrightarrow> k * 10240 < unat sz"
proof -
  have "k < nblocks sz \<longleftrightarrow> Suc k \<le> nblocks sz" by auto
  also have "\<dots> \<longleftrightarrow> Suc k * 10240 \<le> unat sz + 10239"
    by (simp only: nblocks_def less_eq_div_iff_mult_less_eq)
  finally show ?thesis by auto
qed

lemma nonneg_unat: "0 \<le> sint (sz :: u64) \<longleftrightarrow> unat sz < 2 ^ 63"
proof -
  have "0 \<le> sint sz \<longleftrightarrow> \<not> bit (uint sz) 63"
    by (simp add: sint_uint)
  also have "\<dots> \<longleftrightarrow> uint sz < 2 ^ 63"
  proof -
    have lt: "uint sz < 2 ^ 64" using uint_lt2p [of sz] by simp
    have "bit (uint sz) 63 \<longleftrightarrow> odd (uint sz div 2 ^ 63)" by (simp add: bit_iff_odd)
    moreover have "uint sz div 2 ^ 63 = 0" if "uint sz < 2 ^ 63"
      by (rule div_pos_pos_trivial) (use that in simp_all)
    moreover have "uint sz div 2 ^ 63 = 1" if "\<not> uint sz < 2 ^ 63"
      by (rule int_div_pos_eq [where r = "uint sz - 2 ^ 63"]) (use that lt in simp_all)
    ultimately show ?thesis by (cases "uint sz < 2 ^ 63") (simp_all del: power_numeral)
  qed
  also have "\<dots> \<longleftrightarrow> unat sz < 2 ^ 63"
  proof -
    have "uint sz = int (unat sz)" by simp
    then have "uint sz < 2 ^ 63 \<longleftrightarrow> int (unat sz) < int (2 ^ 63)" by simp
    then show ?thesis by (simp only: of_nat_less_iff)
  qed
  finally show ?thesis .
qed

lemma lt_div_mod_64: "(j :: nat) < k \<longleftrightarrow> j div 64 < k div 64 \<or> j div 64 = k div 64 \<and> j mod 64 < k mod 64"
proof -
  have "j = 64 * (j div 64) + j mod 64" "k = 64 * (k div 64) + k mod 64" by simp_all
  moreover have "j mod 64 < 64" "k mod 64 < 64" by simp_all
  ultimately show ?thesis by linarith
qed

lemma ceil_div_64: "(k + 63) div 64 = (if k mod 64 = 0 then k div 64 else Suc (k div 64))" for k :: nat
proof -
  obtain q r where k: "k = 64 * q + r" "r < 64"
    by (metis mod_less_divisor mult_div_mod_eq zero_less_numeral)
  then have "r \<noteq> 0 \<Longrightarrow> (64 * q + r + 63) div 64 = Suc q" by (auto intro!: div_nat_eqI)
  with k show ?thesis by auto
qed

definition words_upto :: "nat \<Rightarrow> u64 \<Rightarrow> u64 list \<Rightarrow> bool" where
  "words_upto k cur cov \<longleftrightarrow> length cov = k div 64 \<and> cov_bits cov = {..<64 * (k div 64)} \<and>
     (\<forall>j. bit cur j \<longleftrightarrow> j < k mod 64)"

lemma words_upto_result:
  assumes "words_upto k cur cov"
  shows "length (if cur \<noteq> 0 then cov @ [cur] else cov) = (k + 63) div 64"
    and "cov_bits (if cur \<noteq> 0 then cov @ [cur] else cov) = {..<k}"
proof -
  have cur0: "cur = 0 \<longleftrightarrow> k mod 64 = 0"
  proof -
    have "cur = 0 \<longleftrightarrow> (\<forall>j. \<not> bit cur j)"
      by (auto intro: bit_eqI)
    also have "\<dots> \<longleftrightarrow> (\<forall>j. \<not> j < k mod 64)" using assms by (simp add: words_upto_def)
    finally show ?thesis by (metis not_less_zero neq0_conv)
  qed
  show "length (if cur \<noteq> 0 then cov @ [cur] else cov) = (k + 63) div 64"
    using assms cur0 by (simp add: words_upto_def ceil_div_64)
  have app: "j \<in> cov_bits (cov @ [cur]) \<longleftrightarrow>
      j \<in> cov_bits cov \<or> j div 64 = length cov \<and> bit cur (j mod 64)" for j
    by (auto simp: cov_bits_iff nth_append less_Suc_eq)
  have "cov_bits (cov @ [cur]) = {..<k}"
    using assms by (auto simp: app words_upto_def set_eq_iff lt_div_mod_64 [of _ k] div_64_less_iff)
  moreover have "cov_bits cov = {..<k}" if "k mod 64 = 0"
    using assms that by (simp add: words_upto_def) (metis add.right_neutral mult_div_mod_eq)
  ultimately show "cov_bits (if cur \<noteq> 0 then cov @ [cur] else cov) = {..<k}"
    using cur0 by simp
qed

lemma words_upto_0: "words_upto 0 0 []"
  by (simp add: words_upto_def cov_bits_def cov_cap_def)

lemma bit_set_upto:
  assumes "\<And>j. bit cur j \<longleftrightarrow> j < m" and "m < 64"
  shows "bit ((cur :: u64) OR push_bit m 1) j \<longleftrightarrow> j < Suc m"
  using assms bit_set_bit_iff [of m cur j] by (auto simp: less_Suc_eq)

lemma words_upto_step:
  assumes "words_upto k cur cov"
  shows "if Suc k mod 64 = 0
    then words_upto (Suc k) 0 (cov @ [cur OR push_bit (k mod 64) 1])
    else words_upto (Suc k) (cur OR push_bit (k mod 64) 1) cov"
proof -
  let ?w = "cur OR push_bit (k mod 64) (1 :: u64)"
  have w: "bit ?w j \<longleftrightarrow> j < Suc (k mod 64)" for j
    using assms by (intro bit_set_upto) (auto simp: words_upto_def)
  show ?thesis
  proof (cases "Suc k mod 64 = 0")
    case True
    then have k: "k mod 64 = 63" "Suc k div 64 = Suc (k div 64)"
      by (simp_all add: div_Suc mod_Suc split: if_splits)
    have "j \<in> cov_bits (cov @ [?w]) \<longleftrightarrow> j div 64 < Suc (k div 64)" for j
      using assms w k mod_less_divisor [of 64 j]
      by (auto simp: cov_bits_iff nth_append less_Suc_eq words_upto_def div_64_less_iff)
    then have "cov_bits (cov @ [?w]) = {..<64 * Suc (k div 64)}"
      by (auto simp: div_64_less_iff)
    with True k assms show ?thesis by (simp add: words_upto_def)
  next
    case False
    then have "Suc k div 64 = k div 64" "Suc k mod 64 = Suc (k mod 64)"
      by (simp_all add: div_Suc mod_Suc split: if_splits)
    with False assms w show ?thesis by (simp add: words_upto_def)
  qed
qed

lemma fullCoverage_loop_returns:
  assumes "unat sz + 10240 < 2 ^ 64" and "k \<le> nblocks sz" and "words_upto k cur cov"
  shows "\<exists>cur' cov'. fullCoverage_loop sz (of_nat k) cur cov = Ret (cur', cov') \<and>
    words_upto (nblocks sz) cur' cov'"
  using assms(2,3)
proof (induction "nblocks sz - k" arbitrary: k cur cov)
  case (0 k)
  then have k: "k = nblocks sz" by simp
  have k_lt: "k * 10240 < 2 ^ 64"
    using assms(1) k div_times_less_eq_dividend [of "unat sz + 10239" 10240] by (simp add: nblocks_def)
  then have "unat (of_nat k * BUFFER_SIZE) = k * 10240"
    by (simp add: BUFFER_SIZE_def unat_word_ariths unat_of_nat)
  then have "\<not> of_nat k * BUFFER_SIZE < sz"
    using less_nblocks_iff [of k sz] k by (simp add: word_less_nat_alt)
  with 0 k show ?case by (simp add: fullCoverage_loop.simps)
next
  case (Suc d k)
  then have k: "k < nblocks sz" by simp
  then have "k * 10240 < unat sz" by (simp add: less_nblocks_iff)
  moreover from this have "k * 10240 < 2 ^ 64" "k < 2 ^ 64 - 1" using assms(1) by simp_all
  ultimately have lt: "of_nat k * BUFFER_SIZE < sz"
    by (simp add: BUFFER_SIZE_def word_less_nat_alt unat_word_ariths unat_of_nat)
  have i: "unat (of_nat k :: u64) = k" "unat (of_nat k + 1 :: u64) = Suc k"
    using \<open>k < 2 ^ 64 - 1\<close> by (simp_all add: unat_word_ariths unat_of_nat)
  have m: "(of_nat k + 1 :: u64) mod 64 = 0 \<longleftrightarrow> Suc k mod 64 = 0"
    by (simp only: word_unat_eq_iff unat_div_mod_64 i) simp
  have "\<exists>cur' cov'. fullCoverage_loop sz (of_nat (Suc k)) c v = Ret (cur', cov') \<and>
      words_upto (nblocks sz) cur' cov'" if "words_upto (Suc k) c v" for c v
    using Suc.hyps(1) [of "Suc k"] Suc.hyps(2) k that by auto
  then show ?case
    using words_upto_step [OF Suc.prems(2)] lt i m
    by (subst fullCoverage_loop.simps) (auto simp: add.commute split: if_splits)
qed

lemma cov_bits_inject:
  assumes "length a = length b"
  shows "cov_bits a = cov_bits b \<longleftrightarrow> a = b"
proof
  assume eq: "cov_bits a = cov_bits b"
  show "a = b"
  proof (rule nth_equalityI [OF assms])
    fix i assume i: "i < length a"
    show "a ! i = b ! i"
    proof (rule bit_word_eqI)
      fix n assume "n < LENGTH(64)"
      then have "(64 * i + n) div 64 = i" "(64 * i + n) mod 64 = n" by simp_all
      then show "bit (a ! i) n \<longleftrightarrow> bit (b ! i) n"
        using eq i assms by (metis cov_bits_iff)
    qed
  qed
qed simp

lemma cov_bits_replicate_0 [simp]: "cov_bits (replicate n 0) = {}"
  by (auto simp: cov_bits_def cov_cap_def div_64_less_iff)

lemma ceil_div_mult: "(s + 655359) div 655360 = ((s + 10239) div 10240 + 63) div 64" for s :: nat
proof -
  have "(s + 10239) div 10240 + 63 = (s + 10239 + 63 * 10240) div 10240"
    by (simp only: div_mult_self1)
  then show ?thesis by (simp add: div_mult2_eq [symmetric])
qed

lemma length_emptyCoverage: "length (emptyCoverage sz) = (nblocks sz + 63) div 64"
proof -
  have "length (emptyCoverage sz) =
      (if unat sz mod 655360 = 0 then unat sz div 655360 else Suc (unat sz div 655360))"
  proof -
    have "unat (sz div 655360 + 1) = Suc (unat sz div 655360)"
    proof -
      have "unat sz div 655360 < 2 ^ 64 div 655360 + 1"
        using unat_u64_less [of sz] by (simp add: less_mult_imp_div_less)
      then show ?thesis by (simp add: unat_word_ariths unat_div_distrib)
    qed
    then show ?thesis
      by (simp add: emptyCoverage_def BUFFER_SIZE_def Let_def unat_div_distrib unat_mod_distrib
          word_unat_eq_iff)
  qed
  also have "\<dots> = (unat sz + 655359) div 655360"
  proof -
    obtain q r where "unat sz = 655360 * q + r" "r < 655360"
      by (metis mod_less_divisor mult_div_mod_eq zero_less_numeral)
    moreover from this have "r \<noteq> 0 \<Longrightarrow> (655360 * q + r + 655359) div 655360 = Suc q"
      by (auto intro!: div_nat_eqI)
    ultimately show ?thesis by auto
  qed
  finally show ?thesis by (simp add: ceil_div_mult nblocks_def)
qed

lemma cov_bits_emptyCoverage [simp]: "cov_bits (emptyCoverage sz) = {}"
  by (simp add: emptyCoverage_def Let_def)

lemma fullCoverage_returns:
  assumes "0 \<le> sint sz"
  obtains cov where "fullCoverage sz = Ret cov" "length cov = length (emptyCoverage sz)"
    "cov_bits cov = {..<nblocks sz}"
proof -
  have "unat sz + 10240 < 2 ^ 64" using assms by (simp add: nonneg_unat)
  from fullCoverage_loop_returns [OF this _ words_upto_0] obtain cur v where
    loop: "fullCoverage_loop sz 0 0 [] = Ret (cur, v)" and upto: "words_upto (nblocks sz) cur v"
    by auto
  show thesis
    by (rule that [of "if cur \<noteq> 0 then v @ [cur] else v"])
      (use words_upto_result [OF upto] in \<open>simp_all add: fullCoverage_def loop length_emptyCoverage\<close>)
qed

lemma isFullCoverage_eq:
  assumes "0 \<le> sint sz"
  shows "isFullCoverage sz (Some cov) =
    (if length cov = length (emptyCoverage sz) then Ret (cov_bits cov = {..<nblocks sz}) else Panic)"
proof -
  obtain full where full: "fullCoverage sz = Ret full" "length full = length (emptyCoverage sz)"
      "cov_bits full = {..<nblocks sz}"
    by (rule fullCoverage_returns [OF assms])
  have "list_all (\<lambda>i. cov ! i = full ! i) [0..<length cov] \<longleftrightarrow> cov_bits cov = cov_bits full"
    if "length cov = length full"
    using that by (auto simp: cov_bits_inject list_all_iff intro: nth_equalityI)
  with full show ?thesis by (simp add: isFullCoverage_def)
qed

section \<open>Properties\<close>

text \<open>
  C34: For every file size that is not negative, \<open>fullCoverage\<close> returns, with as many words as
  \<open>emptyCoverage\<close> has for that size, and exactly the bits of the file's blocks set; \<open>emptyCoverage\<close>
  has no bit set.
\<close>

theorem full_coverage_spec:
  assumes "0 \<le> sint sz"
  shows "\<exists>cov. fullCoverage sz = Ret cov \<and> length cov = length (emptyCoverage sz) \<and>
    cov_bits cov = {..<nblocks sz} \<and> cov_bits (emptyCoverage sz) = {}"
  using fullCoverage_returns [OF assms] by (metis cov_bits_emptyCoverage)

theorem full_coverage_spec_witness:
  "\<exists>cov. fullCoverage 700000 = Ret cov \<and> length cov = length (emptyCoverage 700000) \<and>
    cov_bits cov = {..<69} \<and> cov_bits (emptyCoverage 700000) = {}"
  using full_coverage_spec [of 700000] by (simp add: nblocks_def)

text \<open>
  C35: The completeness test of a download: for a bitmap of the right length, \<open>isFullCoverage\<close> does
  not panic and answers whether exactly the blocks of the file are marked; for any other length
  it panics.
\<close>

theorem is_full_coverage_iff:
  assumes "0 \<le> sint sz"
  shows "isFullCoverage sz (Some cov) =
    (if length cov = length (emptyCoverage sz) then Ret (cov_bits cov = {..<nblocks sz}) else Panic)"
  using isFullCoverage_eq [OF assms] .

theorem is_full_coverage_iff_witness:
  "isFullCoverage 20000 (Some [1]) = Ret False \<and> isFullCoverage 20000 (Some [1, 0]) = Panic"
proof -
  have "(1 :: nat) \<notin> cov_bits [1]" by (simp add: cov_bits_iff bit_1_iff)
  moreover have "(1 :: nat) \<in> {..<2}" by simp
  ultimately have ne: "cov_bits [1] \<noteq> {..<2}" by metis
  have sz: "nblocks 20000 = 2" "length (emptyCoverage 20000) = 1"
    by (simp_all add: length_emptyCoverage nblocks_def)
  show ?thesis
    using is_full_coverage_iff [of 20000 "[1]"] is_full_coverage_iff [of 20000 "[1, 0]"]
    by (simp only: sz ne list.size) simp
qed

lemma mult_BUFFER_SIZE_le: "unat (i * BUFFER_SIZE) \<le> 2 ^ 64 - 2048"
proof -
  have "(2048 :: nat) dvd 10240" "(2048 :: nat) dvd 2 ^ 64" by simp_all
  then have "2048 dvd (unat i * 10240) mod 2 ^ 64" by (intro dvd_mod dvd_mult)
  then obtain m where m: "(unat i * 10240) mod 2 ^ 64 = 2048 * m" by (rule dvdE)
  have "(unat i * 10240) mod 2 ^ 64 < 2 ^ 64" by simp
  with m have "m < 2 ^ 53" by simp
  then have "2048 * m \<le> 2 ^ 64 - 2048" by simp
  with m show ?thesis by (simp add: BUFFER_SIZE_def unat_word_ariths)
qed

lemma fullCoverage_loop_diverges:
  assumes ret: "fullCoverage_loop sz i cur cov = Ret r"
  shows "unat sz \<le> 2 ^ 64 - 2048"
proof (rule fullCoverage_loop.raw_induct
    [where P = "\<lambda>sz i cur cov r. unat sz \<le> 2 ^ 64 - 2048", OF _ ret])
  fix f sz i cur cov r
  assume IH: "\<And>sz i cur cov r. f sz i cur cov = Ret r \<Longrightarrow> unat sz \<le> 2 ^ 64 - 2048"
    and eq: "(if i * BUFFER_SIZE < sz
      then if (i + 1) mod 64 = 0 then f sz (i + 1) 0 (cov @ [cur OR push_bit (unat (i mod 64)) 1])
           else f sz (i + 1) (cur OR push_bit (unat (i mod 64)) 1) cov
      else Ret (cur, cov)) = Ret (r :: u64 \<times> u64 list)"
  show "unat sz \<le> 2 ^ 64 - 2048"
    using eq IH mult_BUFFER_SIZE_le [of i] by (auto simp: word_less_nat_alt split: if_splits)
qed

text \<open>
  C40: A size between -2047 and -1 (a peer's advertisement may carry any \<open>int64\<close>) makes
  \<open>fullCoverage\<close> loop forever: \<open>i*BUFFER_SIZE\<close> wraps around below \<open>uint64(size)\<close>.
\<close>

theorem full_coverage_diverges:
  assumes "2 ^ 64 - 2048 < unat sz"
  shows "fullCoverage sz = Panic \<and> isFullCoverage sz c = Panic"
proof -
  have "fullCoverage sz = Panic"
    using fullCoverage_loop_diverges [of sz 0 0 "[]"] assms
    by (cases "fullCoverage_loop sz 0 0 []") (auto simp: fullCoverage_def)
  then show ?thesis by (simp add: isFullCoverage_def)
qed

theorem full_coverage_diverges_witness: "fullCoverage (- 1) = Panic \<and> isFullCoverage (- 1) None = Panic"
  by (rule full_coverage_diverges) (simp add: unsigned_minus_1_eq_mask mask_eq_exp_minus_1)

lemma unat_leftChild: "unat i < 2 ^ 63 \<Longrightarrow> unat (leftChild i) = 2 * unat i + 1"
  by (simp add: leftChild_def unat_word_ariths)

lemma unat_rightChild: "unat i < 2 ^ 63 - 1 \<Longrightarrow> unat (rightChild i) = 2 * unat i + 2"
  by (simp add: rightChild_def unat_word_ariths)

lemma unat_mod_2_u64 [simp]: "(j :: u64) mod 2 = 1 \<longleftrightarrow> odd (unat j)"
  by (simp add: word_unat_eq_iff unat_mod_distrib odd_iff_mod_2_eq_one)

lemma unat_leftParent: "j \<noteq> 0 \<Longrightarrow> unat (leftParent j) = (unat j - 1) div 2"
  by (simp add: leftParent_def unat_div_distrib unat_minus_one)

lemma unat_treeParent:
  assumes "j \<noteq> 0"
  shows "unat (treeParent j) = (unat j - 1) div 2"
proof (cases "odd (unat j)")
  case True
  with assms show ?thesis by (simp add: treeParent_def unat_leftParent)
next
  case False
  have "unat j \<noteq> 0" using assms by (simp add: unat_eq_0)
  with False have "2 \<le> unat j" by (metis One_nat_def even_zero less_2_cases linorder_not_less odd_one)
  with False have "even (unat j - 2)" by simp
  then obtain c where c: "unat j = 2 * c + 2" using \<open>2 \<le> unat j\<close> by (metis dvdE le_add_diff_inverse2)
  have "2 \<le> j" using \<open>2 \<le> unat j\<close> by (simp add: word_le_nat_alt)
  then have "unat (j - 2) = unat j - 2" by (simp add: unat_sub)
  moreover have "(unat j - 2) div 2 = (unat j - 1) div 2" by (simp add: c)
  ultimately show ?thesis
    using False by (simp add: treeParent_def rightParent_def unat_div_distrib)
qed

text \<open>
  The block tree: as long as the child index does not wrap around, the tree parent of both
  children of a block is that block.
\<close>

lemma tree_parent_child:
  assumes "unat i < 2 ^ 63 - 1"
  shows "treeParent (leftChild i) = i \<and> treeParent (rightChild i) = i"
proof -
  have "leftChild i \<noteq> 0" "rightChild i \<noteq> 0"
    using assms unat_leftChild [of i] unat_rightChild [of i] by auto
  with assms show ?thesis
    by (simp add: word_unat_eq_iff [of _ i] unat_treeParent unat_leftChild unat_rightChild)
qed

text \<open>
  Every block but block 0 is a child of its tree parent, on the side its parity says (odd is
  left), its parent comes before it, and, as the comment in \<open>treeParent\<close> suspects, \<open>leftParent\<close>
  alone computes the parent in both cases.
\<close>

theorem tree_parent_spec:
  assumes "j \<noteq> 0"
  shows "treeParent j = leftParent j \<and> treeParent j < j \<and>
    (if j mod 2 = 1 then leftChild (treeParent j) else rightChild (treeParent j)) = j"
proof -
  have j0: "unat j \<noteq> 0" using assms by (simp add: unat_eq_0)
  have p: "unat (treeParent j) = (unat j - 1) div 2" by (rule unat_treeParent [OF assms])
  have "unat (if j mod 2 = 1 then leftChild (treeParent j) else rightChild (treeParent j)) = unat j"
  proof (cases "odd (unat j)")
    case True
    then obtain c where c: "unat j = 2 * c + 1" by (rule oddE)
    with p unat_u64_less [of j] show ?thesis by (simp add: unat_leftChild)
  next
    case False
    then have "odd (unat j - 1)" using j0 by simp
    then obtain c where "unat j - 1 = 2 * c + 1" by (rule oddE)
    with j0 have c: "unat j = 2 * c + 2" by simp
    with p unat_u64_less [of j] show ?thesis by (simp add: unat_rightChild)
  qed
  then show ?thesis
    using assms j0 p
    by (simp add: word_unat_eq_iff [of "treeParent j"] word_unat_eq_iff [of _ j] word_less_nat_alt
        unat_leftParent)
qed

theorem tree_parent_spec_witness:
  "treeParent 6 = leftParent 6 \<and> treeParent 6 < 6 \<and> rightChild (treeParent 6) = 6"
proof -
  have "(6 :: u64) \<noteq> 0" and "(6 :: u64) mod 2 \<noteq> 1" by simp_all
  then show ?thesis using tree_parent_spec [of 6] by (metis (full_types))
qed

end
