(* ===== verification/Blocks.thy ===== *)
theory Blocks
  imports Coverage
begin

text \<open>
  Blocks, their hashes and the hash chain of a file (\<open>white-box/files.go\<close>, lines 129-178, 254-272
  and 325-422). \<open>sha\<close> is the digest function of \<open>crypto/sha256\<close> (32 bytes out), a parameter
  throughout: every theorem holds for each function, and names what it needs of it. A file is its
  content, a read position and a schedule of I/O faults, so that the error branches of the code
  are branches of the model.
\<close>

section \<open>Blocks\<close>

record BlockInfo =
  bi_Index :: u64
  bi_NextBlockHash :: string
  bi_LeftBlockHash :: string
  bi_RightBlockHash :: string
  bi_DataHash :: string

record Block =
  b_Index :: u64
  b_NextBlockHash :: string
  b_LeftBlockHash :: string
  b_RightBlockHash :: string
  b_Data :: bytes
  b_DataHash :: string

definition ToBlockInfo :: "Block \<Rightarrow> BlockInfo" where
  "ToBlockInfo block = \<lparr>bi_Index = b_Index block, bi_NextBlockHash = b_NextBlockHash block,
     bi_LeftBlockHash = b_LeftBlockHash block, bi_RightBlockHash = b_RightBlockHash block,
     bi_DataHash = b_DataHash block\<rparr>"

definition ToBlock :: "BlockInfo \<Rightarrow> bytes \<Rightarrow> Block" where
  "ToBlock info bs = \<lparr>b_Index = bi_Index info, b_NextBlockHash = bi_NextBlockHash info,
     b_LeftBlockHash = bi_LeftBlockHash info, b_RightBlockHash = bi_RightBlockHash info,
     b_Data = bs, b_DataHash = bi_DataHash info\<rparr>"

definition sha256Bytes :: "(bytes \<Rightarrow> bytes) \<Rightarrow> bytes \<Rightarrow> string" where
  "sha256Bytes sha buffer = hexEncode (sha buffer)"

text \<open>The bytes \<open>sha256Block\<close> writes into the hash, one after the other.\<close>

definition preimage :: "Block \<Rightarrow> bytes" where
  "preimage block = FormatUint (b_Index block) @ b_NextBlockHash block @ b_LeftBlockHash block @
     b_RightBlockHash block @ b_DataHash block @ b_Data block"

definition sha256Block :: "(bytes \<Rightarrow> bytes) \<Rightarrow> Block option \<Rightarrow> string" where
  "sha256Block sha block = (case block of None \<Rightarrow> [] | Some b \<Rightarrow> hexEncode (sha (preimage b)))"

text \<open>A lookup in a Go \<open>map[..]string\<close>: the empty string when the key is missing.\<close>

definition strz :: "('k \<rightharpoonup> string) \<Rightarrow> 'k \<Rightarrow> string" where
  "strz m k = (case m k of None \<Rightarrow> [] | Some s \<Rightarrow> s)"

text \<open>\<open>blockMap[h].NextBlockHash\<close>: the zero \<open>BlockInfo\<close> has an empty next hash.\<close>

definition nextz :: "(string \<rightharpoonup> BlockInfo) \<Rightarrow> string \<Rightarrow> string" where
  "nextz m h = (case m h of None \<Rightarrow> [] | Some info \<Rightarrow> bi_NextBlockHash info)"

partial_function (option) buildBlockLookup_loop ::
    "(string \<rightharpoonup> BlockInfo) \<Rightarrow> string \<Rightarrow> u64 \<Rightarrow> (u64 \<rightharpoonup> string) \<Rightarrow> (u64 \<rightharpoonup> string) go" where
  "buildBlockLookup_loop blockMap h idx blockLookup =
     (if h \<noteq> [] then buildBlockLookup_loop blockMap (nextz blockMap h) (idx + 1) (blockLookup(idx \<mapsto> h))
      else Ret blockLookup)"

definition buildBlockLookup ::
    "(string \<rightharpoonup> BlockInfo) \<Rightarrow> string \<Rightarrow> (u64 \<rightharpoonup> string) go" where
  "buildBlockLookup blockMap firstBlockHash =
     buildBlockLookup_loop blockMap firstBlockHash 0 Map.empty"

section \<open>Reading a file\<close>

text \<open>
  An open file: content, position, and the faults of the coming operations (\<open>True\<close> is an I/O
  error; past the end of the schedule there are none).
\<close>

record osfile =
  of_Data :: bytes
  of_Pos :: nat
  of_Faults :: "bool list"

definition next_fault :: "osfile \<Rightarrow> bool \<times> osfile" where
  "next_fault f = (case of_Faults f of [] \<Rightarrow> (False, f) | b # bs \<Rightarrow> (b, f\<lparr>of_Faults := bs\<rparr>))"

text \<open>\<open>File.Seek\<close>: an error leaves the position alone; a negative position is an error.\<close>

definition Seek :: "int \<Rightarrow> nat \<Rightarrow> osfile \<Rightarrow> bool \<times> osfile" where
  "Seek off whence f =
     (let (bad, f1) = next_fault f;
          base = (if whence = 0 then 0 else if whence = 1 then int (of_Pos f1)
                  else int (length (of_Data f1)))
      in if bad \<or> base + off < 0 then (True, f1) else (False, f1\<lparr>of_Pos := nat (base + off)\<rparr>))"

datatype read_result = ReadErr | ReadEOF | ReadOK bytes

text \<open>\<open>File.Read\<close> into a buffer of \<open>n > 0\<close> bytes, for a regular file.\<close>

definition Read :: "nat \<Rightarrow> osfile \<Rightarrow> read_result \<times> osfile" where
  "Read n f =
     (let (bad, f1) = next_fault f; buf = take n (drop (of_Pos f1) (of_Data f1))
      in if bad then (ReadErr, f1)
         else if buf = [] then (ReadEOF, f1)
         else (ReadOK buf, f1\<lparr>of_Pos := of_Pos f1 + length buf\<rparr>))"

fun read_bytes :: "read_result \<Rightarrow> bytes" where
  "read_bytes (ReadOK bs) = bs"
| "read_bytes _ = []"

lemma next_fault_data [simp]: "next_fault f = (b, f1) \<Longrightarrow> of_Data f1 = of_Data f \<and> of_Pos f1 = of_Pos f"
  by (auto simp: next_fault_def split: list.splits)

lemma Read_progress:
  "Read n f = (ReadOK bs, f') \<Longrightarrow> of_Data f' = of_Data f \<and> of_Pos f < length (of_Data f) \<and> of_Pos f < of_Pos f'"
  by (auto simp: Read_def Let_def split: prod.splits if_splits)

lemma Seek_end:
  "of_Faults f = [] \<Longrightarrow> r \<le> length (of_Data f) \<Longrightarrow>
    Seek (- int r) 2 f = (False, f\<lparr>of_Pos := length (of_Data f) - r\<rparr>)"
  by (simp add: Seek_def next_fault_def Let_def nat_diff_distrib')

lemma Seek_start: "of_Faults f = [] \<Longrightarrow> Seek 0 0 f = (False, f\<lparr>of_Pos := 0\<rparr>)"
  by (simp add: Seek_def next_fault_def Let_def)

section \<open>The chain\<close>

text \<open>An error of \<open>calculateChain\<close> is the status message it sets and the error it returns.\<close>

abbreviation BLK :: nat where
  "BLK \<equiv> 10240"

record chain_state =
  cs_File :: osfile
  cs_Prev :: "Block option"
  cs_Blocks :: "string \<rightharpoonup> Block"
  cs_BlockMap :: "string \<rightharpoonup> BlockInfo"
  cs_Skips :: "u64 \<rightharpoonup> string"

text \<open>
  The backward loop \<open>for index > -1\<close>; the first argument is \<open>index + 1\<close>. The result of the last
  seek of the body is ignored, as in the code.
\<close>

fun chain_back :: "(bytes \<Rightarrow> bytes) \<Rightarrow> nat \<Rightarrow> chain_state \<Rightarrow> (string \<times> string) + chain_state" where
  "chain_back sha 0 st = Inr st"
| "chain_back sha (Suc index) st =
     (let (r, f) = Read BLK (cs_File st) in
      if r = ReadErr then Inl (''error failed read'', ''failed read of file'')
      else
        let buf = read_bytes r;
            i = of_nat index :: u64;
            cur = \<lparr>b_Index = i, b_NextBlockHash = sha256Block sha (cs_Prev st),
                   b_LeftBlockHash = strz (cs_Skips st) (leftChild i),
                   b_RightBlockHash = strz (cs_Skips st) (rightChild i),
                   b_Data = buf, b_DataHash = sha256Bytes sha buf\<rparr>;
            blockHash = sha256Block sha (Some cur);
            f' = snd (Seek (- (int (length buf) + int BLK)) 1 f)
        in chain_back sha index
             \<lparr>cs_File = f', cs_Prev = Some cur, cs_Blocks = (cs_Blocks st)(blockHash \<mapsto> cur),
              cs_BlockMap = (cs_BlockMap st)(blockHash \<mapsto> ToBlockInfo cur),
              cs_Skips = (cs_Skips st)(i \<mapsto> blockHash)\<rparr>)"

text \<open>
  The forward verification loop; \<open>blocks[currBlockHash].NextBlockHash\<close> is a nil dereference when
  the hash is missing.
\<close>

function chain_forward ::
    "(bytes \<Rightarrow> bytes) \<Rightarrow> (string \<rightharpoonup> Block) \<Rightarrow> u64 \<Rightarrow> string \<Rightarrow> osfile \<Rightarrow> ((string \<times> string) + unit) go" where
  "chain_forward sha blocks index currBlockHash f =
     (case Read BLK f of
        (ReadErr, _) \<Rightarrow> Ret (Inl (''error could not read file (verify)'', ''could not read file (verify)''))
      | (ReadEOF, _) \<Rightarrow> Ret (Inr ())
      | (ReadOK buf, f') \<Rightarrow>
          (case blocks currBlockHash of
             None \<Rightarrow> Panic
           | Some b \<Rightarrow>
               let cur = \<lparr>b_Index = index, b_NextBlockHash = b_NextBlockHash b,
                     b_LeftBlockHash = b_LeftBlockHash b, b_RightBlockHash = b_RightBlockHash b,
                     b_Data = buf, b_DataHash = sha256Bytes sha buf\<rparr>
               in if sha256Block sha (Some cur) \<noteq> currBlockHash then Ret (Inl (''error verify failed'', ''verify failed''))
                  else chain_forward sha blocks (index + 1) (b_NextBlockHash cur) f'))"
  by pat_completeness auto
termination
  by (relation "measure (\<lambda>(sha, blocks, index, h, f). length (of_Data f) - of_Pos f)")
    (auto dest!: Read_progress [OF sym])

declare chain_forward.simps [simp del]

definition calculateChain ::
    "(bytes \<Rightarrow> bytes) \<Rightarrow> osfile \<Rightarrow> u64 \<Rightarrow> ((string \<times> string) + string \<times> (string \<rightharpoonup> BlockInfo)) go" where
  "calculateChain sha targetFile sz =
     (if sint sz < 0 then Ret (Inl (''error file size less than 0 (c'' @ [char_of (39 :: nat)] @ ''est une pipe?)'', ''file size less than 0''))
      else
        let lastBlockSize = unat sz mod BLK; index = unat sz div BLK;
            (err, f) = Seek (- int lastBlockSize) 2 targetFile
        in if err then Ret (Inl (''error seek failed in file'', ''seek failed for file''))
           else
             case chain_back sha (Suc index)
               \<lparr>cs_File = f, cs_Prev = None, cs_Blocks = Map.empty, cs_BlockMap = Map.empty,
                cs_Skips = Map.empty\<rparr> of
               Inl e \<Rightarrow> Ret (Inl e)
             | Inr st \<Rightarrow>
                 let (err, f) = Seek 0 0 (cs_File st) in
                 if err then Ret (Inl (''error could not seek to beginning of file'', ''could not seek to beginning of file''))
                 else do {
                   r \<leftarrow> chain_forward sha (cs_Blocks st) 0 (sha256Block sha (cs_Prev st)) f;
                   case r of
                     Inl e \<Rightarrow> Ret (Inl e)
                   | Inr _ \<Rightarrow> Ret (Inr (sha256Block sha (cs_Prev st), cs_BlockMap st)) })"

section \<open>The genuine chain of a file\<close>

text \<open>
  The chain the code means: block \<open>i\<close> carries the hashes of blocks \<open>i+1\<close>, \<open>2i+1\<close> and \<open>2i+2\<close> of the
  same file, the empty string where there is no such block. The last index is
  \<open>size / BUFFER_SIZE\<close>, so a file whose size is a multiple of the block size ends in an empty block.
\<close>

definition last_index :: "bytes \<Rightarrow> nat" where
  "last_index content = length content div BLK"

definition blk_data :: "bytes \<Rightarrow> nat \<Rightarrow> bytes" where
  "blk_data content i = take BLK (drop (i * BLK) content)"

function ghash :: "(bytes \<Rightarrow> bytes) \<Rightarrow> bytes \<Rightarrow> nat \<Rightarrow> string" where
  "ghash sha content i =
     (if last_index content < i then []
      else hexEncode (sha (FormatUint (of_nat i) @ ghash sha content (Suc i) @
             ghash sha content (2 * i + 1) @ ghash sha content (2 * i + 2) @
             sha256Bytes sha (blk_data content i) @ blk_data content i)))"
  by pat_completeness auto
termination
  by (relation "measure (\<lambda>(sha, content, i). Suc (last_index content) - i)") auto

declare ghash.simps [simp del]

definition gblock :: "(bytes \<Rightarrow> bytes) \<Rightarrow> bytes \<Rightarrow> nat \<Rightarrow> Block" where
  "gblock sha content i =
     \<lparr>b_Index = of_nat i, b_NextBlockHash = ghash sha content (Suc i),
      b_LeftBlockHash = ghash sha content (2 * i + 1), b_RightBlockHash = ghash sha content (2 * i + 2),
      b_Data = blk_data content i, b_DataHash = sha256Bytes sha (blk_data content i)\<rparr>"

lemma ghash_beyond: "last_index content < i \<Longrightarrow> ghash sha content i = []"
  by (simp add: ghash.simps)

lemma sha256Block_gblock:
  "i \<le> last_index content \<Longrightarrow> sha256Block sha (Some (gblock sha content i)) = ghash sha content i"
  by (simp add: sha256Block_def preimage_def gblock_def ghash.simps [of sha content i])

lemma ghash_not_Nil:
  assumes "\<And>x. length (sha x) = 32" and "i \<le> last_index content"
  shows "length (ghash sha content i) = 64"
  using assms by (simp add: ghash.simps)

text \<open>The lookup of the genuine chain, and its block map.\<close>

definition glookup :: "(bytes \<Rightarrow> bytes) \<Rightarrow> bytes \<Rightarrow> u64 \<rightharpoonup> string" where
  "glookup sha content = (\<lambda>i. if unat i \<le> last_index content then Some (ghash sha content (unat i)) else None)"

definition gmap_from :: "(Block \<Rightarrow> 'b) \<Rightarrow> (bytes \<Rightarrow> bytes) \<Rightarrow> bytes \<Rightarrow> nat \<Rightarrow> string \<rightharpoonup> 'b" where
  "gmap_from f sha content k =
     map_of (map (\<lambda>j. (ghash sha content j, f (gblock sha content j))) [k..<Suc (last_index content)])"

lemma gmap_from_Suc:
  "k \<le> last_index content \<Longrightarrow>
    gmap_from f sha content k =
      (gmap_from f sha content (Suc k))(ghash sha content k \<mapsto> f (gblock sha content k))"
  by (simp add: gmap_from_def upt_conv_Cons del: upt_Suc)

lemma gmap_from_0:
  assumes "inj_on (ghash sha content) {..last_index content}" and "i \<le> last_index content"
  shows "gmap_from f sha content 0 (ghash sha content i) = Some (f (gblock sha content i))"
  unfolding gmap_from_def
proof (rule map_of_is_SomeI)
  have eq: "map fst (map (\<lambda>j. (ghash sha content j, f (gblock sha content j))) [0..<Suc (last_index content)])
      = map (ghash sha content) [0..<Suc (last_index content)]" by simp
  have "{0..<Suc (last_index content)} = {..last_index content}" by auto
  then show "distinct (map fst (map (\<lambda>j. (ghash sha content j, f (gblock sha content j)))
      [0..<Suc (last_index content)]))"
    using assms(1) by (simp only: eq distinct_map distinct_upt set_upt)
  show "(ghash sha content i, f (gblock sha content i)) \<in>
      set (map (\<lambda>j. (ghash sha content j, f (gblock sha content j))) [0..<Suc (last_index content)])"
    using assms(2) by (auto simp: image_iff intro!: bexI [of _ i])
qed

lemma dom_gmap_from: "dom (gmap_from f sha content 0) = ghash sha content ` {..last_index content}"
  by (simp add: gmap_from_def dom_map_of_conv_image_fst image_image atLeast0LessThan
      lessThan_Suc_atMost del: upt_Suc)

section \<open>The backward loop builds the genuine chain\<close>

definition chain_inv :: "(bytes \<Rightarrow> bytes) \<Rightarrow> bytes \<Rightarrow> nat \<Rightarrow> chain_state \<Rightarrow> bool" where
  "chain_inv sha content k st \<longleftrightarrow>
     of_Data (cs_File st) = content \<and> of_Faults (cs_File st) = [] \<and>
     (0 < k \<longrightarrow> of_Pos (cs_File st) = (k - 1) * BLK) \<and>
     cs_Prev st = (if last_index content < k then None else Some (gblock sha content k)) \<and>
     cs_Blocks st = gmap_from id sha content k \<and>
     cs_BlockMap st = gmap_from ToBlockInfo sha content k \<and>
     cs_Skips st = (\<lambda>j. if k \<le> unat j \<and> unat j \<le> last_index content
                       then Some (ghash sha content (unat j)) else None)"

lemma last_index_less:
  assumes "length content < 2 ^ 63"
  shows "last_index content < 2 ^ 60"
  using assms by (simp add: last_index_def less_mult_imp_div_less)

lemma Read_no_fault:
  assumes "of_Faults f = []" and "0 < n"
  shows "read_bytes (fst (Read n f)) = take n (drop (of_Pos f) (of_Data f))"
    and "fst (Read n f) \<noteq> ReadErr"
    and "snd (Read n f) = f\<lparr>of_Pos := of_Pos f + length (take n (drop (of_Pos f) (of_Data f)))\<rparr>"
  using assms by (auto simp: Read_def next_fault_def Let_def)

lemma chain_step:
  assumes inv: "chain_inv sha content (Suc i) st" and i: "i \<le> last_index content"
    and small: "length content < 2 ^ 63"
  shows "\<exists>st'. chain_back sha (Suc i) st = chain_back sha i st' \<and> chain_inv sha content i st'"
proof -
  let ?f = "cs_File st" and ?buf = "blk_data content i"
  have f: "of_Data ?f = content" "of_Faults ?f = []" "of_Pos ?f = i * BLK"
    using inv by (simp_all add: chain_inv_def)
  have i60: "i < 2 ^ 60" using last_index_less [OF small] i by simp
  have idx: "unat (of_nat i :: u64) = i" using i60 by (simp add: unat_of_nat)
  have kids: "unat (leftChild (of_nat i)) = 2 * i + 1" "unat (rightChild (of_nat i)) = 2 * i + 2"
    using i60 by (simp_all add: unat_leftChild unat_rightChild idx)
  obtain r f1 where r: "Read BLK ?f = (r, f1)" by fastforce
  have r1: "r \<noteq> ReadErr" "read_bytes r = ?buf" "f1 = ?f\<lparr>of_Pos := i * BLK + length ?buf\<rparr>"
    using Read_no_fault [OF f(2), of BLK] r f by (simp_all add: blk_data_def)
  let ?cur = "\<lparr>b_Index = of_nat i, b_NextBlockHash = sha256Block sha (cs_Prev st),
     b_LeftBlockHash = strz (cs_Skips st) (leftChild (of_nat i)),
     b_RightBlockHash = strz (cs_Skips st) (rightChild (of_nat i)),
     b_Data = ?buf, b_DataHash = sha256Bytes sha ?buf\<rparr>"
  have nxt: "sha256Block sha (cs_Prev st) = ghash sha content (Suc i)"
    using inv by (simp add: chain_inv_def sha256Block_gblock ghash_beyond sha256Block_def [of sha None])
  have sides: "strz (cs_Skips st) (leftChild (of_nat i)) = ghash sha content (2 * i + 1)"
      "strz (cs_Skips st) (rightChild (of_nat i)) = ghash sha content (2 * i + 2)"
    using inv kids by (auto simp: chain_inv_def strz_def ghash_beyond)
  have cur: "?cur = gblock sha content i"
    by (simp only: gblock_def nxt sides)
  let ?st = "\<lparr>cs_File = snd (Seek (- (int (length ?buf) + int BLK)) 1 f1),
     cs_Prev = Some (gblock sha content i),
     cs_Blocks = (cs_Blocks st)(ghash sha content i \<mapsto> gblock sha content i),
     cs_BlockMap = (cs_BlockMap st)(ghash sha content i \<mapsto> ToBlockInfo (gblock sha content i)),
     cs_Skips = (cs_Skips st)(of_nat i \<mapsto> ghash sha content i)\<rparr>"
  have "chain_back sha (Suc i) st = chain_back sha i ?st"
    by (simp add: r r1 Let_def cur sha256Block_gblock [OF i])
  moreover have "cs_Skips ?st = (\<lambda>j. if i \<le> unat j \<and> unat j \<le> last_index content
      then Some (ghash sha content (unat j)) else None)"
    using inv i idx by (auto simp: chain_inv_def word_unat_eq_iff Suc_le_eq)
  moreover have "of_Data (cs_File ?st) = content" "of_Faults (cs_File ?st) = []"
    using f r1 by (simp_all add: Seek_def next_fault_def Let_def)
  moreover have "0 < i \<longrightarrow> of_Pos (cs_File ?st) = (i - 1) * BLK"
    using f r1 by (auto simp: Seek_def next_fault_def Let_def nat_diff_distrib' left_diff_distrib')
  ultimately have "chain_inv sha content i ?st"
    using inv i by (simp add: chain_inv_def gmap_from_Suc)
  with \<open>chain_back sha (Suc i) st = chain_back sha i ?st\<close> show ?thesis by blast
qed

lemma chain_back_genuine:
  assumes "chain_inv sha content k st" and "k \<le> Suc (last_index content)" and "length content < 2 ^ 63"
  shows "\<exists>st'. chain_back sha k st = Inr st' \<and> chain_inv sha content 0 st'"
  using assms
proof (induction k arbitrary: st)
  case (Suc i)
  then obtain st' where "chain_back sha (Suc i) st = chain_back sha i st'" "chain_inv sha content i st'"
    using chain_step by (metis Suc_le_mono)
  with Suc show ?case by simp
qed simp

section \<open>The forward loop accepts it\<close>

lemma chain_forward_genuine:
  assumes blocks: "\<And>j. j \<le> last_index content \<Longrightarrow> blocks (ghash sha content j) = Some (gblock sha content j)"
    and f: "of_Data f = content" "of_Faults f = []" "of_Pos f = min (i * BLK) (length content)"
    and i: "i \<le> Suc (last_index content)"
  shows "chain_forward sha blocks (of_nat i) (ghash sha content i) f = Some (Inr ())"
  using f i
proof (induction "Suc (last_index content) - i" arbitrary: i f)
  case 0
  then have "of_Pos f = length content"
    using dividend_less_times_div [of BLK "length content"] by (simp add: last_index_def)
  with 0 show ?case
    by (subst chain_forward.simps) (simp add: Read_def next_fault_def Let_def)
next
  case (Suc d i)
  show ?case
  proof (cases "i * BLK < length content")
    case False
    with Suc show ?thesis
      by (subst chain_forward.simps) (simp add: Read_def next_fault_def Let_def)
  next
    case True
    from Suc have i: "i \<le> last_index content" by simp
    let ?f = "f\<lparr>of_Pos := of_Pos f + length (blk_data content i)\<rparr>"
    have rd: "Read BLK f = (ReadOK (blk_data content i), ?f)"
      using Suc True by (simp add: Read_def next_fault_def Let_def blk_data_def)
    have pos: "of_Pos ?f = min (Suc i * BLK) (length content)"
      using Suc True by (auto simp: blk_data_def)
    have "chain_forward sha blocks (of_nat (Suc i)) (ghash sha content (Suc i)) ?f = Some (Inr ())"
      using Suc i pos by (intro Suc.hyps(1)) simp_all
    with rd blocks [OF i] sha256Block_gblock [OF i, of sha] show ?thesis
      by (subst chain_forward.simps) (simp add: Let_def gblock_def add.commute)
  qed
qed

lemma calculateChain_genuine:
  assumes "of_Data f = content" and "of_Faults f = []"
    and "length content = unat sz" and "0 \<le> sint sz"
    and inj: "inj_on (ghash sha content) {..last_index content}"
  shows "\<exists>m. calculateChain sha f sz = Some (Inr (ghash sha content 0, m)) \<and>
    (\<forall>i \<le> last_index content. m (ghash sha content i) = Some (ToBlockInfo (gblock sha content i))) \<and>
    dom m = ghash sha content ` {..last_index content}"
proof -
  have small: "length content < 2 ^ 63" using assms by (simp add: nonneg_unat)
  let ?n = "last_index content"
  have n: "unat sz div BLK = ?n" by (simp add: last_index_def assms)
  obtain f1 where seek: "Seek (- int (unat sz mod BLK)) 2 f = (False, f1)"
      "of_Data f1 = content" "of_Faults f1 = []" "of_Pos f1 = ?n * BLK"
  proof
    have "unat sz - unat sz mod BLK = ?n * BLK" by (simp only: minus_mod_eq_div_mult n)
    then show "Seek (- int (unat sz mod BLK)) 2 f = (False, f\<lparr>of_Pos := ?n * BLK\<rparr>)"
      using assms(1-3) Seek_end [of f "unat sz mod BLK"] by (simp only: mod_less_eq_dividend)
  qed (use assms in simp_all)
  let ?st0 = "\<lparr>cs_File = f1, cs_Prev = None, cs_Blocks = Map.empty, cs_BlockMap = Map.empty,
    cs_Skips = Map.empty\<rparr>"
  have "chain_inv sha content (Suc ?n) ?st0"
    using seek by (auto simp: chain_inv_def gmap_from_def)
  then obtain st where st: "chain_back sha (Suc ?n) ?st0 = Inr st" "chain_inv sha content 0 st"
    using chain_back_genuine small by blast
  let ?f0 = "(cs_File st)\<lparr>of_Pos := 0\<rparr>"
  have prev: "sha256Block sha (cs_Prev st) = ghash sha content 0"
    using st(2) by (simp add: chain_inv_def sha256Block_gblock)
  have "chain_forward sha (cs_Blocks st) (of_nat 0) (ghash sha content 0) ?f0 = Some (Inr ())"
    using st(2) gmap_from_0 [OF inj, of _ id]
    by (intro chain_forward_genuine) (simp_all add: chain_inv_def)
  then have "calculateChain sha f sz = Some (Inr (ghash sha content 0, cs_BlockMap st))"
    using assms(4) st seek n prev
    by (simp add: calculateChain_def Let_def chain_inv_def Seek_start
        del: chain_back.simps)
  moreover have "dom (cs_BlockMap st) = ghash sha content ` {..?n}"
    using st(2) by (simp add: chain_inv_def dom_gmap_from)
  moreover have "\<forall>i \<le> ?n. cs_BlockMap st (ghash sha content i) = Some (ToBlockInfo (gblock sha content i))"
    using st(2) gmap_from_0 [OF inj, of _ ToBlockInfo] by (simp add: chain_inv_def)
  ultimately show ?thesis by blast
qed

lemma calculateChain_abc:
  "\<exists>m. calculateChain (\<lambda>_. replicate 32 CHR ''x'') \<lparr>of_Data = ''abc'', of_Pos = 0, of_Faults = []\<rparr> 3 =
    Some (Inr (ghash (\<lambda>_. replicate 32 CHR ''x'') ''abc'' 0, m))"
  using calculateChain_genuine [of "\<lparr>of_Data = ''abc'', of_Pos = 0, of_Faults = []\<rparr>" "''abc''" 3
      "\<lambda>_. replicate 32 CHR ''x''"]
  by (auto simp: last_index_def)

text \<open>
  C18: Hashing a shared file. When the file is read without I/O errors, its length is the size passed
  in, and no two of its own blocks have the same hash, \<open>calculateChain\<close> returns the hash of block 0
  of the genuine chain and a block map that holds the block info of every block of that chain and
  nothing else.
\<close>

theorem calculate_chain_correct:
  assumes "of_Data f = content" and "of_Faults f = []"
    and "length content = unat sz" and "0 \<le> sint sz"
    and inj: "inj_on (ghash sha content) {..last_index content}"
  shows "\<exists>m. calculateChain sha f sz = Some (Inr (ghash sha content 0, m)) \<and>
    (\<forall>i \<le> last_index content. m (ghash sha content i) = Some (ToBlockInfo (gblock sha content i))) \<and>
    dom m = ghash sha content ` {..last_index content}"
  using calculateChain_genuine [OF assms] .

theorem calculate_chain_correct_witness:
  "\<exists>m. calculateChain (\<lambda>_. replicate 32 CHR ''x'')
      \<lparr>of_Data = ''abc'', of_Pos = 0, of_Faults = []\<rparr> 3 =
      Some (Inr (ghash (\<lambda>_. replicate 32 CHR ''x'') ''abc'' 0, m))"
  using calculate_chain_correct [of "\<lparr>of_Data = ''abc'', of_Pos = 0, of_Faults = []\<rparr>" "''abc''" 3
      "\<lambda>_. replicate 32 CHR ''x''"]
  by (auto simp: last_index_def)

lemma buildBlockLookup_loop_genuine:
  assumes small: "length content < 2 ^ 63" and sha: "\<And>x. length (sha x) = 32"
    and m: "\<And>j. j \<le> last_index content \<Longrightarrow> m (ghash sha content j) = Some (ToBlockInfo (gblock sha content j))"
    and "i \<le> Suc (last_index content)"
    and "l = (\<lambda>j. if unat j < i then Some (ghash sha content (unat j)) else None)"
  shows "buildBlockLookup_loop m (ghash sha content i) (of_nat i) l = Some (glookup sha content)"
  using assms(4,5)
proof (induction "Suc (last_index content) - i" arbitrary: i l)
  case 0
  then show ?case
    by (subst buildBlockLookup_loop.simps) (auto simp: ghash_beyond glookup_def less_Suc_eq_le)
next
  case (Suc d i)
  then have i: "i \<le> last_index content" by simp
  then have idx: "unat (of_nat i :: u64) = i"
    using last_index_less [OF small] by (simp add: unat_of_nat)
  have ne: "ghash sha content i \<noteq> []" using ghash_not_Nil [of sha i content] sha i by auto
  have nx: "nextz m (ghash sha content i) = ghash sha content (Suc i)"
    by (simp add: nextz_def m [OF i] ToBlockInfo_def gblock_def)
  have "buildBlockLookup_loop m (ghash sha content (Suc i)) (of_nat (Suc i))
      (l(of_nat i \<mapsto> ghash sha content i)) = Some (glookup sha content)"
    using Suc idx i by (intro Suc.hyps(1)) (auto simp: word_unat_eq_iff less_Suc_eq)
  then show ?case
    by (subst buildBlockLookup_loop.simps) (simp add: ne nx add.commute)
qed

text \<open>
  Indexing a shared file. On the result of \<open>calculateChain\<close> (same hypotheses, and a hash that is
  never empty), \<open>buildBlockLookup\<close> terminates and maps every block index up to the last one to
  the hash of that block, and no other index.
\<close>

theorem build_lookup_of_chain:
  assumes "of_Data f = content" and "of_Faults f = []"
    and "length content = unat sz" and "0 \<le> sint sz"
    and "inj_on (ghash sha content) {..last_index content}"
    and "\<And>x. length (sha x) = 32"
    and "calculateChain sha f sz = Some (Inr (h, m))"
  shows "buildBlockLookup m h = Some (glookup sha content)"
proof -
  have "length content < 2 ^ 63" using assms by (simp add: nonneg_unat)
  moreover obtain "h = ghash sha content 0"
      "\<And>j. j \<le> last_index content \<Longrightarrow> m (ghash sha content j) = Some (ToBlockInfo (gblock sha content j))"
    using calculateChain_genuine [OF assms(1-5)] assms(7) by auto
  ultimately show ?thesis
    using buildBlockLookup_loop_genuine [of content sha m 0] assms(6)
    by (simp add: buildBlockLookup_def)
qed

theorem build_lookup_of_chain_witness:
  "\<exists>m. buildBlockLookup m (ghash (\<lambda>_. replicate 32 CHR ''x'') ''abc'' 0) =
    Some (glookup (\<lambda>_. replicate 32 CHR ''x'') ''abc'')"
proof -
  let ?sha = "\<lambda>_ :: bytes. replicate 32 CHR ''x''" and ?f = "\<lparr>of_Data = ''abc'', of_Pos = 0, of_Faults = []\<rparr>"
  obtain m where "calculateChain ?sha ?f 3 = Some (Inr (ghash ?sha ''abc'' 0, m))"
    using calculateChain_abc by blast
  then have "buildBlockLookup m (ghash ?sha ''abc'' 0) = Some (glookup ?sha ''abc'')"
    by (intro build_lookup_of_chain [of ?f _ 3]) (simp_all add: last_index_def)
  then show ?thesis by blast
qed

end
