(* ===== verification/FileTransfer.thy ===== *)
theory FileTransfer
  imports Blocks
begin

text \<open>
  File transfer for one file (\<open>white-box/files.go\<close>, lines 26-35; \<open>white-box/party.go\<close>: the choice
  of a block to send in \<open>chooseBlock\<close>, the verification of a received block in
  \<open>ProcessFulfillment\<close>, and the writer \<open>VerifiedBlockWriter\<close> with \<open>haveBlock\<close> and
  \<open>setBlockWritten\<close>). The disk is a map from paths to contents. A download is a step relation:
  fulfillments arrive in any order and from anyone, verified blocks wait in the channel, and the
  writer takes them one at a time.
\<close>

section \<open>State\<close>

text \<open>\<open>Coverage\<close> is a slice that may be nil; its words are \<open>cov_words\<close>.\<close>

record PackFileInfo =
  pf_Name :: string
  pf_Hash :: string
  pf_FirstBlockHash :: string
  pf_Size :: u64
  pf_BlockMap :: "string \<rightharpoonup> BlockInfo"
  pf_BlockLookup :: "u64 \<rightharpoonup> string"
  pf_Coverage :: "u64 list option"
  pf_Path :: string

type_synonym disk = "string \<rightharpoonup> bytes"

definition cov_words :: "PackFileInfo \<Rightarrow> u64 list" where
  "cov_words pfi = (case pf_Coverage pfi of None \<Rightarrow> [] | Some ws \<Rightarrow> ws)"

section \<open>Receiving a block\<close>

text \<open>
  The block checks of \<open>ProcessFulfillment\<close>: \<open>Some\<close> of the block hash when the block is verified,
  \<open>None\<close> where the code returns without using it.
\<close>

definition verifyBlock :: "(bytes \<Rightarrow> bytes) \<Rightarrow> PackFileInfo \<Rightarrow> Block \<Rightarrow> string option" where
  "verifyBlock sha packFileInfo block =
     (if sha256Bytes sha (b_Data block) \<noteq> b_DataHash block then None
      else
        let blockHash = sha256Block sha (Some block) in
        if b_Index block = 0
        then if blockHash \<noteq> pf_FirstBlockHash packFileInfo then None else Some blockHash
        else
          let prevParent = Option.bind (pf_BlockLookup packFileInfo (b_Index block - 1)) (pf_BlockMap packFileInfo);
              checkBlockHash = (case prevParent of None \<Rightarrow> [] | Some info \<Rightarrow> bi_NextBlockHash info);
              treeParentBlock = Option.bind (pf_BlockLookup packFileInfo (treeParent (b_Index block)))
                                  (pf_BlockMap packFileInfo)
          in case treeParentBlock of
               None \<Rightarrow>
                 if checkBlockHash = [] then None
                 else if checkBlockHash \<noteq> blockHash then None else Some blockHash
             | Some info \<Rightarrow>
                 let childBlockHash = (if b_Index block mod 2 = 1 then bi_LeftBlockHash info
                                       else bi_RightBlockHash info) in
                 if checkBlockHash \<noteq> [] \<and> checkBlockHash \<noteq> childBlockHash then None
                 else if childBlockHash = [] then None
                 else if childBlockHash \<noteq> blockHash then None else Some blockHash)"

definition haveBlock :: "PackFileInfo \<Rightarrow> Block \<Rightarrow> bool go" where
  "haveBlock packFileInfo block = cov_get (cov_words packFileInfo) (b_Index block)"

definition setBlockWritten :: "PackFileInfo \<Rightarrow> Block \<Rightarrow> string \<Rightarrow> PackFileInfo go" where
  "setBlockWritten packFileInfo block hash = do {
     cov \<leftarrow> cov_set (b_Index block) (cov_words packFileInfo);
     Ret (packFileInfo\<lparr>pf_Coverage := Some cov,
            pf_BlockMap := (pf_BlockMap packFileInfo)(hash \<mapsto> ToBlockInfo block),
            pf_BlockLookup := (pf_BlockLookup packFileInfo)(b_Index block \<mapsto> hash)\<rparr>) }"

text \<open>\<open>File.Write\<close> at an offset: bytes past the end of the file in between are zero.\<close>

definition write_at :: "nat \<Rightarrow> bytes \<Rightarrow> bytes \<Rightarrow> bytes" where
  "write_at off bs content =
     (if bs = [] then content
      else take off (content @ replicate (off - length content) (char_of (0 :: nat))) @ bs @
           drop (off + length bs) content)"

text \<open>The I/O fault, if any, of one round of the writer; a failing write may have written a prefix.\<close>

datatype io_fault = NoFault | OpenFault | SeekFault | WriteFault nat | CloseFault

text \<open>One round of the loop of \<open>VerifiedBlockWriter\<close>, with the status message it sets, if any.\<close>

definition VerifiedBlockWriter ::
    "io_fault \<Rightarrow> disk \<Rightarrow> PackFileInfo \<Rightarrow> Block \<Rightarrow> string \<Rightarrow> (disk \<times> PackFileInfo \<times> string option) go" where
  "VerifiedBlockWriter fault dsk pfi block hash = do {
     have \<leftarrow> haveBlock pfi block;
     if have then Ret (dsk, pfi, None)
     else if fault = OpenFault then Ret (dsk, pfi, Some ''error opening file for block'')
     else
       let content = (case dsk (pf_Path pfi) of None \<Rightarrow> [] | Some c \<Rightarrow> c);
           dsk1 = dsk(pf_Path pfi \<mapsto> content);
           offset = BUFFER_SIZE * b_Index block
       in if fault = SeekFault \<or> sint offset < 0
          then Ret (dsk1, pfi, Some ''error seeking in file for block'')
          else case fault of
            WriteFault n \<Rightarrow>
              Ret (dsk1(pf_Path pfi \<mapsto> write_at (unat offset) (take n (b_Data block)) content),
                   pfi, Some ''error writing to file for block'')
          | _ \<Rightarrow>
              let dsk2 = dsk1(pf_Path pfi \<mapsto> write_at (unat offset) (b_Data block) content) in
              if fault = CloseFault then Ret (dsk2, pfi, Some ''error closing file for block'')
              else do {
                pfi' \<leftarrow> setBlockWritten pfi block hash;
                Ret (dsk2, pfi', None) } }"

section \<open>Choosing a block to send\<close>

text \<open>
  First part of \<open>chooseBlock\<close>: the blocks the requester can verify and does not have. Each of the
  three tests indexes \<open>request.Coverage\<close> without a bounds check of its own.
\<close>

definition mark_next :: "u64 list \<Rightarrow> u64 \<Rightarrow> u64 list \<Rightarrow> u64 list go" where
  "mark_next coverage k nextBlocks = do {
     held \<leftarrow> cov_get coverage k;
     if held then Ret nextBlocks else cov_set k nextBlocks }"

definition mark_children :: "u64 list \<Rightarrow> u64 \<Rightarrow> u64 list \<Rightarrow> u64 list go" where
  "mark_children coverage p nextBlocks = do {
     nextBlocks \<leftarrow> mark_next coverage (p + 1) nextBlocks;
     nextBlocks \<leftarrow> mark_next coverage (leftChild p) nextBlocks;
     mark_next coverage (rightChild p) nextBlocks }"

definition next_blocks :: "u64 list \<Rightarrow> u64 list go" where
  "next_blocks coverage =
     ofold (\<lambda>majorIdx nextBlocks.
       ofold (\<lambda>minorIdx nextBlocks.
         if (drop_bit minorIdx (coverage ! majorIdx)) AND 1 = 1
         then mark_children coverage (of_nat majorIdx * 64 + of_nat minorIdx) nextBlocks
         else Ret nextBlocks) [0..<64] nextBlocks)
       [0..<length coverage] (replicate (length coverage) 0)"

text \<open>Second part: the candidates the sender has, in index order.\<close>

definition block_indices :: "u64 list \<Rightarrow> u64 list \<Rightarrow> u64 list go" where
  "block_indices nextBlocks selfCoverage =
     ofold (\<lambda>majorIdx idxs.
       if majorIdx < length selfCoverage
       then let w = (nextBlocks ! majorIdx) AND (selfCoverage ! majorIdx) in
            Ret (idxs @ map (\<lambda>minorIdx. of_nat majorIdx * 64 + of_nat minorIdx)
                          (filter (\<lambda>minorIdx. (drop_bit minorIdx w) AND 1 = 1) [0..<64]))
       else Panic) [0..<length nextBlocks] []"

text \<open>
  \<open>chooseBlock\<close> once the file info is found. \<open>rnd n\<close> is \<open>mrand.Intn(n)\<close>. The result is the block,
  or \<open>None\<close> where the code returns nil. \<open>dsk\<close> is the disk as far as it can be read: a file that cannot be
  opened, or in which \<open>Seek\<close> or \<open>Read\<close> fails, has the result of a missing one.
\<close>

definition chooseBlock_file ::
    "(bytes \<Rightarrow> bytes) \<Rightarrow> (nat \<Rightarrow> nat) \<Rightarrow> disk \<Rightarrow> u64 list \<Rightarrow> PackFileInfo \<Rightarrow> Block option go" where
  "chooseBlock_file sha rnd dsk coverage packFileInfo = do {
     nextBlocks \<leftarrow> next_blocks coverage;
     blockIndices \<leftarrow> block_indices nextBlocks (cov_words packFileInfo);
     if isEmptyCoverage (cov_words packFileInfo) then Ret None
     else do {
       blockIdx \<leftarrow> (if blockIndices = [] then Ret 0
                   else if rnd (length blockIndices) < length blockIndices
                   then Ret (blockIndices ! rnd (length blockIndices)) else Panic);
       case Option.bind (pf_BlockLookup packFileInfo blockIdx) (pf_BlockMap packFileInfo) of
         None \<Rightarrow> Ret None
       | Some blockInfo \<Rightarrow>
           (case dsk (pf_Path packFileInfo) of
              None \<Rightarrow> Ret None
            | Some content \<Rightarrow>
                if sint (blockIdx * BUFFER_SIZE) < 0 then Ret None
                else
                  let buffer = take BLK (drop (unat (blockIdx * BUFFER_SIZE)) content);
                      block = ToBlock blockInfo buffer
                  in if b_DataHash block \<noteq> sha256Bytes sha (b_Data block) then Ret None
                     else Ret (Some block)) } }"

section \<open>What a requester can be sent\<close>

text \<open>The three blocks a held block \<open>p\<close> lets its holder verify.\<close>

definition kids :: "nat \<Rightarrow> nat set" where
  "kids p = {p + 1, 2 * p + 1, 2 * p + 2}"

lemma mark_next_cases:
  assumes "cov_cap nb = cov_cap coverage"
  shows "if unat k < cov_cap coverage
    then \<exists>nb'. mark_next coverage k nb = Some nb' \<and> cov_cap nb' = cov_cap coverage \<and>
           cov_bits nb' = cov_bits nb \<union> ({unat k} - cov_bits coverage)
    else mark_next coverage k nb = None"
  using assms cov.set_ret [of k nb]
  by (auto simp: mark_next_def cov.get_eq)

lemma mark_children_cases:
  assumes cap: "cov_cap nb = cov_cap coverage" and p: "unat p < 2 ^ 62"
  shows "if 2 * unat p + 2 < cov_cap coverage
    then \<exists>nb'. mark_children coverage p nb = Some nb' \<and> cov_cap nb' = cov_cap coverage \<and>
           cov_bits nb' = cov_bits nb \<union> (kids (unat p) - cov_bits coverage)
    else mark_children coverage p nb = None"
proof -
  have ks: "unat (p + 1) = unat p + 1" "unat (leftChild p) = 2 * unat p + 1"
      "unat (rightChild p) = 2 * unat p + 2"
    using p by (simp_all add: unat_word_ariths unat_leftChild unat_rightChild)
  show ?thesis
  proof (cases "2 * unat p + 2 < cov_cap coverage")
    case True
    then have lt: "unat (p + 1) < cov_cap coverage" "unat (leftChild p) < cov_cap coverage"
        "unat (rightChild p) < cov_cap coverage"
      by (simp_all add: ks)
    obtain n1 where n1: "mark_next coverage (p + 1) nb = Some n1" "cov_cap n1 = cov_cap coverage"
        "cov_bits n1 = cov_bits nb \<union> ({unat (p + 1)} - cov_bits coverage)"
      using mark_next_cases [OF cap, of "p + 1"] lt by auto
    obtain n2 where n2: "mark_next coverage (leftChild p) n1 = Some n2" "cov_cap n2 = cov_cap coverage"
        "cov_bits n2 = cov_bits n1 \<union> ({unat (leftChild p)} - cov_bits coverage)"
      using mark_next_cases [OF n1(2), of "leftChild p"] lt by auto
    obtain n3 where n3: "mark_next coverage (rightChild p) n2 = Some n3" "cov_cap n3 = cov_cap coverage"
        "cov_bits n3 = cov_bits n2 \<union> ({unat (rightChild p)} - cov_bits coverage)"
      using mark_next_cases [OF n2(2), of "rightChild p"] lt by auto
    from True n1 n2 n3 show ?thesis by (auto simp: mark_children_def ks kids_def)
  next
    case False
    have "mark_next coverage (rightChild p) n = None" if "cov_cap n = cov_cap coverage" for n
      using mark_next_cases [OF that, of "rightChild p"] False by (simp add: ks)
    moreover have "cov_cap n' = cov_cap coverage"
      if "mark_next coverage k n = Some n'" "cov_cap n = cov_cap coverage" for k n n'
      using mark_next_cases [OF that(2), of k] that(1) by (auto split: if_splits)
    ultimately show ?thesis
      using False cap by (auto simp: mark_children_def split: Option.bind_splits)
  qed
qed

lemma mark_all_cases:
  assumes "cov_cap nb = cov_cap coverage" and "\<And>p. p \<in> set ps \<Longrightarrow> p < 2 ^ 62"
  shows "if \<forall>p \<in> set ps \<inter> cov_bits coverage. 2 * p + 2 < cov_cap coverage
    then \<exists>nb'. ofold (\<lambda>p nb. if p \<in> cov_bits coverage then mark_children coverage (of_nat p) nb else Some nb) ps nb
             = Some nb' \<and> cov_cap nb' = cov_cap coverage \<and>
           cov_bits nb' = cov_bits nb \<union> (\<Union>(kids ` (set ps \<inter> cov_bits coverage)) - cov_bits coverage)
    else ofold (\<lambda>p nb. if p \<in> cov_bits coverage then mark_children coverage (of_nat p) nb else Some nb) ps nb
           = None"
  using assms
proof (induction ps arbitrary: nb)
  case (Cons p ps)
  show ?case
  proof (cases "p \<in> cov_bits coverage")
    case False
    with Cons.IH [of nb] Cons.prems show ?thesis by simp
  next
    case True
    have p: "unat (of_nat p :: u64) = p" using Cons.prems(2) [of p] by (simp add: unat_of_nat)
    show ?thesis
    proof (cases "2 * p + 2 < cov_cap coverage")
      case False
      with mark_children_cases [OF Cons.prems(1), of "of_nat p"] Cons.prems(2) [of p] True p
      show ?thesis by auto
    next
      case lt: True
      then obtain n1 where "mark_children coverage (of_nat p) nb = Some n1" "cov_cap n1 = cov_cap coverage"
          "cov_bits n1 = cov_bits nb \<union> (kids p - cov_bits coverage)"
        using mark_children_cases [OF Cons.prems(1), of "of_nat p"] Cons.prems(2) [of p] p by auto
      with Cons.IH [of n1] Cons.prems(2) True lt show ?thesis by (auto split: if_splits)
    qed
  qed
qed simp

lemma next_blocks_flat:
  "next_blocks coverage =
    ofold (\<lambda>p nb. if p \<in> cov_bits coverage then mark_children coverage (of_nat p) nb else Some nb)
      [0..<length coverage * 64] (replicate (length coverage) 0)"
proof -
  have "ofold (\<lambda>minorIdx nb. if (drop_bit minorIdx (coverage ! i)) AND 1 = 1
        then mark_children coverage (of_nat i * 64 + of_nat minorIdx) nb else Some nb) [0..<64] nb =
      ofold (\<lambda>p nb. if p \<in> cov_bits coverage then mark_children coverage (of_nat p) nb else Some nb)
        (map (\<lambda>j. i * 64 + j) [0..<64]) nb" if "i < length coverage" for i nb
    unfolding ofold_map
    by (rule ofold_cong) (use that in \<open>auto simp: shift_and_1_iff cov_bits_iff\<close>)
  then show ?thesis
    unfolding next_blocks_def upt_mult by (subst ofold_concat [symmetric], intro ofold_cong) simp
qed

lemma next_blocks_cases:
  assumes "length coverage < 2 ^ 50"
  shows "if \<forall>p \<in> cov_bits coverage. 2 * p + 2 < cov_cap coverage
    then \<exists>nb. next_blocks coverage = Some nb \<and> length nb = length coverage \<and>
           cov_bits nb = \<Union>(kids ` cov_bits coverage) - cov_bits coverage
    else next_blocks coverage = None"
proof -
  have all: "set [0..<length coverage * 64] \<inter> cov_bits coverage = cov_bits coverage"
    by (auto simp: cov_bits_def cov_cap_def)
  show ?thesis
    using mark_all_cases [of "replicate (length coverage) 0" coverage "[0..<length coverage * 64]"] assms
    unfolding all next_blocks_flat by (auto simp: cov_cap_def split: if_splits)
qed

lemma fold_append_concat: "fold (\<lambda>x acc. acc @ g x) xs acc = acc @ concat (map g xs)"
  by (induction xs arbitrary: acc) auto

lemma block_indices_cases:
  assumes "length nb < 2 ^ 50"
  shows "if length nb \<le> length own
    then \<exists>l. block_indices nb own = Some l \<and> unat ` set l = cov_bits nb \<inter> cov_bits own
    else block_indices nb own = None"
proof (cases "length nb \<le> length own")
  case True
  let ?g = "\<lambda>i. map (\<lambda>j. of_nat i * 64 + of_nat j :: u64)
    (filter (\<lambda>j. (drop_bit j ((nb ! i) AND (own ! i))) AND 1 = 1) [0..<64])"
  have "block_indices nb own = Some (concat (map ?g [0..<length nb]))"
    unfolding block_indices_def
    by (subst ofold_total [where g = "\<lambda>i acc. acc @ ?g i"])
      (use True in \<open>simp_all add: Let_def fold_append_concat\<close>)
  moreover have gi: "unat ` set (?g i) = {k. k div 64 = i \<and> k \<in> cov_bits nb \<inter> cov_bits own}"
    if i: "i < length nb" for i
  proof -
    have "unat (of_nat i * 64 + of_nat j :: u64) = i * 64 + j" if "j < 64" for j
    proof -
      have "i * 64 + j < 2 ^ 64" using i assms that by simp
      then have "unat (of_nat (i * 64 + j) :: u64) = i * 64 + j" by (intro unat_of_nat_u64)
      then show ?thesis by simp
    qed
    then have "unat ` set (?g i) = (\<lambda>j. i * 64 + j) ` {j. j < 64 \<and> bit (nb ! i) j \<and> bit (own ! i) j}"
      unfolding set_map_filter_upt shift_and_1_iff bit_and_iff image_image by (intro image_cong) simp_all
    also have "\<dots> = {k. k div 64 = i \<and> k \<in> cov_bits nb \<inter> cov_bits own}"
    proof (intro set_eqI iffI)
      fix k assume "k \<in> {k. k div 64 = i \<and> k \<in> cov_bits nb \<inter> cov_bits own}"
      then show "k \<in> (\<lambda>j. i * 64 + j) ` {j. j < 64 \<and> bit (nb ! i) j \<and> bit (own ! i) j}"
        by (intro image_eqI [of _ _ "k mod 64"]) (auto simp: cov_bits_iff)
    qed (use i True in \<open>auto simp: cov_bits_iff\<close>)
    finally show ?thesis .
  qed
  moreover have "unat ` set (concat (map ?g [0..<length nb])) = cov_bits nb \<inter> cov_bits own"
  proof -
    have "unat ` set (concat (map ?g [0..<length nb])) = (\<Union>i \<in> {..<length nb}. unat ` set (?g i))"
      by (simp only: set_concat set_map set_upt image_UN image_image atLeast0LessThan)
    also have "\<dots> = (\<Union>i \<in> {..<length nb}. {k. k div 64 = i \<and> k \<in> cov_bits nb \<inter> cov_bits own})"
      by (intro SUP_cong refl gi) simp
    finally show ?thesis by (auto simp: cov_bits_iff)
  qed
  ultimately show ?thesis using True by auto
next
  case False
  then have "block_indices nb own = None"
    unfolding block_indices_def by (intro ofold_panics [of "length own"]) auto
  with False show ?thesis by simp
qed

section \<open>Files on disk, block by block\<close>

lemma length_blk_data: "length (blk_data C i) = min BLK (length C - i * BLK)"
  by (simp add: blk_data_def)

lemma nth_blk_data: "m < length (blk_data C i) \<Longrightarrow> blk_data C i ! m = C ! (i * BLK + m)"
  unfolding blk_data_def by (subst nth_take, simp) (rule nth_drop, simp add: less_diff_conv)

lemma length_write_at: "off + length bs \<le> length D \<Longrightarrow> length (write_at off bs D) = length D"
  by (simp add: write_at_def)

lemma nth_write_at:
  assumes "off + length bs \<le> length D" and "x < length D"
  shows "write_at off bs D ! x = (if off \<le> x \<and> x < off + length bs then bs ! (x - off) else D ! x)"
  using assms by (auto simp: write_at_def nth_append)

lemma blk_index_div: "m < BLK \<Longrightarrow> (i * BLK + m) div BLK = i"
  by simp

lemma blk_range:
  assumes "i * BLK \<le> x" and "x < i * BLK + n" and "n \<le> BLK"
  shows "x div BLK = i"
proof -
  obtain m where "x = i * BLK + m" "m < BLK" using assms by (metis add_less_cancel_left le_Suc_ex less_le_trans)
  then show ?thesis by (simp only: blk_index_div)
qed

lemma blk_write_other:
  assumes "i * BLK + length bs \<le> length D" and "length bs \<le> BLK" and "j \<noteq> i"
  shows "blk_data (write_at (i * BLK) bs D) j = blk_data D j"
proof (rule nth_equalityI)
  have len: "length (write_at (i * BLK) bs D) = length D" by (rule length_write_at [OF assms(1)])
  then show "length (blk_data (write_at (i * BLK) bs D) j) = length (blk_data D j)"
    by (simp add: length_blk_data)
  fix m assume m: "m < length (blk_data (write_at (i * BLK) bs D) j)"
  then have lt: "m < BLK" "j * BLK + m < length D"
    by (simp_all add: length_blk_data len less_diff_conv add.commute)
  then have "\<not> (i * BLK \<le> j * BLK + m \<and> j * BLK + m < i * BLK + length bs)"
    using blk_range [of i "j * BLK + m" "length bs"] blk_index_div [of m j] assms(2,3) by auto
  then have "write_at (i * BLK) bs D ! (j * BLK + m) = D ! (j * BLK + m)"
    using nth_write_at [OF assms(1) lt(2)] by (simp only: if_False)
  moreover have "m < length (blk_data D j)" using m by (simp only: length_blk_data len)
  ultimately show "blk_data (write_at (i * BLK) bs D) j ! m = blk_data D j ! m"
    using nth_blk_data [OF m] nth_blk_data [of m D j] by simp
qed

lemma blk_write_same:
  assumes "length D = length C" and "i * BLK \<le> length C"
  shows "blk_data (write_at (i * BLK) (blk_data C i) D) i = blk_data C i"
proof (rule nth_equalityI)
  have le: "i * BLK + length (blk_data C i) \<le> length D" using assms by (simp add: length_blk_data)
  have len: "length (write_at (i * BLK) (blk_data C i) D) = length C"
    using length_write_at [OF le] assms by simp
  then show eq: "length (blk_data (write_at (i * BLK) (blk_data C i) D) i) = length (blk_data C i)"
    by (simp add: length_blk_data)
  fix m assume m: "m < length (blk_data (write_at (i * BLK) (blk_data C i) D) i)"
  with eq have m': "m < length (blk_data C i)" by simp
  then have lt: "i * BLK + m < length D" using le by simp
  with m m' show "blk_data (write_at (i * BLK) (blk_data C i) D) i ! m = blk_data C i ! m"
    using nth_write_at [OF le lt] by (simp add: nth_blk_data [OF m])
qed

text \<open>The blocks of \<open>S\<close> are on disk, in a file that has the final length from the start.\<close>

definition disk_ok :: "bytes \<Rightarrow> nat set \<Rightarrow> bytes \<Rightarrow> bool" where
  "disk_ok C S D \<longleftrightarrow> length D = length C \<and> (\<forall>j \<in> S. blk_data D j = blk_data C j)"

lemma disk_ok_insert:
  assumes "disk_ok C S D" and "i * BLK \<le> length C"
  shows "disk_ok C (insert i S) (write_at (i * BLK) (blk_data C i) D)"
proof -
  have le: "i * BLK + length (blk_data C i) \<le> length D" "length (blk_data C i) \<le> BLK"
    using assms by (simp_all add: disk_ok_def length_blk_data)
  show ?thesis
    using assms blk_write_other [OF le] blk_write_same [of D C i] length_write_at [OF le(1)]
    unfolding disk_ok_def by (metis insert_iff)
qed

lemma disk_ok_full:
  assumes ok: "disk_ok C S D" and all: "\<And>x. x < length C \<Longrightarrow> x div BLK \<in> S"
  shows "D = C"
proof (rule nth_equalityI)
  show len: "length D = length C" using ok by (simp add: disk_ok_def)
  fix x assume x: "x < length D"
  let ?j = "x div BLK" and ?m = "x mod BLK"
  have eq: "x = ?j * BLK + ?m" "?m < BLK" by simp_all
  have "blk_data D ?j = blk_data C ?j" using ok all x len by (simp add: disk_ok_def)
  moreover have "?m < length (blk_data C ?j)" "?m < length (blk_data D ?j)"
    using x by (simp_all only: length_blk_data len min_less_iff_conj less_diff_conv eq(2))
      (simp_all add: len)
  ultimately show "D ! x = C ! x" using eq nth_blk_data [of ?m] by metis
qed

lemma less_nblocks_last:
  assumes "unat sz = length C" and "k < nblocks sz"
  shows "k \<le> last_index C" and "k * BLK < length C"
  using assms by (simp_all add: less_nblocks_iff last_index_def less_eq_div_iff_mult_less_eq)

lemma div_less_nblocks: "unat sz = length C \<Longrightarrow> x < length C \<Longrightarrow> x div BLK < nblocks sz"
  using div_times_less_eq_dividend [of x BLK] by (simp add: less_nblocks_iff)

end
