(* ===== verification/Download.thy ===== *)
theory Download
  imports FileTransfer
begin

text \<open>
  Downloads over \<open>Transfer\<close>: the peer-to-peer exchange of a file between one holder and one
  requester, and the download of a file as a step relation in which fulfillments come from anyone
  in any order and the writer of \<open>VerifiedBlockChan\<close> meets any I/O fault. The lemmas say when an
  exchange completes, when \<open>chooseBlock\<close> panics, what a completed download has on disk, and what a
  block with forged link fields does to a download.
\<close>

section \<open>A requester that holds genuine blocks\<close>

text \<open>The requester's file info holds exactly the blocks of \<open>S\<close> of the file with content \<open>C\<close>.\<close>

definition holds :: "(bytes \<Rightarrow> bytes) \<Rightarrow> bytes \<Rightarrow> nat set \<Rightarrow> PackFileInfo \<Rightarrow> bool" where
  "holds sha C S pfi \<longleftrightarrow>
     pf_FirstBlockHash pfi = ghash sha C 0 \<and> unat (pf_Size pfi) = length C \<and>
     pf_Coverage pfi \<noteq> None \<and>
     length (cov_words pfi) = length (emptyCoverage (pf_Size pfi)) \<and>
     cov_bits (cov_words pfi) = S \<and>
     pf_BlockLookup pfi = (\<lambda>j. if unat j \<in> S then Some (ghash sha C (unat j)) else None) \<and>
     (\<forall>j \<in> S. j \<le> last_index C \<and> pf_BlockMap pfi (ghash sha C j) = Some (ToBlockInfo (gblock sha C j)))"

text \<open>A holder of the whole file, as \<open>buildPack\<close> sets it up.\<close>

definition serves :: "(bytes \<Rightarrow> bytes) \<Rightarrow> bytes \<Rightarrow> disk \<Rightarrow> PackFileInfo \<Rightarrow> bool" where
  "serves sha C dsk pfi \<longleftrightarrow>
     unat (pf_Size pfi) = length C \<and>
     length (cov_words pfi) = length (emptyCoverage (pf_Size pfi)) \<and>
     cov_bits (cov_words pfi) = {..<nblocks (pf_Size pfi)} \<and>
     pf_BlockLookup pfi = glookup sha C \<and>
     (\<forall>j \<le> last_index C. pf_BlockMap pfi (ghash sha C j) = Some (ToBlockInfo (gblock sha C j))) \<and>
     dsk (pf_Path pfi) = Some C"

lemma ToBlock_gblock: "ToBlock (ToBlockInfo (gblock sha C i)) (blk_data C i) = gblock sha C i"
  by (simp add: ToBlock_def ToBlockInfo_def gblock_def)

lemma unat_idx: "length C < 2 ^ 63 \<Longrightarrow> i \<le> last_index C \<Longrightarrow> unat (of_nat i :: u64) = i"
  using last_index_less [of C] by (intro unat_of_nat_u64) simp

lemma verify_genuine:
  assumes h: "holds sha C S pfi" and small: "length C < 2 ^ 63" and sha: "\<And>x. length (sha x) = 32"
    and i: "i \<le> last_index C" and link: "i = 0 \<or> i - 1 \<in> S \<or> (i - 1) div 2 \<in> S"
  shows "verifyBlock sha pfi (gblock sha C i) = Some (ghash sha C i)"
proof -
  have d: "sha256Bytes sha (b_Data (gblock sha C i)) = b_DataHash (gblock sha C i)"
    by (simp add: gblock_def)
  have idx: "unat (b_Index (gblock sha C i)) = i" using unat_idx [OF small i] by (simp add: gblock_def)
  show ?thesis
  proof (cases "i = 0")
    case True
    then have "b_Index (gblock sha C i) = 0" by (simp add: gblock_def)
    with True h d sha256Block_gblock [OF i, of sha] show ?thesis
      by (simp add: verifyBlock_def holds_def Let_def)
  next
    case False
    let ?b = "gblock sha C i"
    have i0: "b_Index ?b \<noteq> 0" using False idx by auto
    have prev: "unat (b_Index ?b - 1) = i - 1" using i0 idx by (simp add: unat_minus_one)
    have par: "unat (treeParent (b_Index ?b)) = (i - 1) div 2" using i0 idx by (simp add: unat_treeParent)
    have ne: "ghash sha C i \<noteq> []" using ghash_not_Nil [of sha i C] sha i by auto
    have pb: "Option.bind (pf_BlockLookup pfi (b_Index ?b - 1)) (pf_BlockMap pfi) =
        (if i - 1 \<in> S then Some (ToBlockInfo (gblock sha C (i - 1))) else None)"
      using h prev by (simp add: holds_def)
    have tb: "Option.bind (pf_BlockLookup pfi (treeParent (b_Index ?b))) (pf_BlockMap pfi) =
        (if (i - 1) div 2 \<in> S then Some (ToBlockInfo (gblock sha C ((i - 1) div 2))) else None)"
      using h par by (simp add: holds_def)
    have nx: "bi_NextBlockHash (ToBlockInfo (gblock sha C (i - 1))) = ghash sha C i"
      using False by (simp add: ToBlockInfo_def gblock_def)
    have side: "(if b_Index ?b mod 2 = 1 then bi_LeftBlockHash (ToBlockInfo (gblock sha C ((i - 1) div 2)))
        else bi_RightBlockHash (ToBlockInfo (gblock sha C ((i - 1) div 2)))) = ghash sha C i"
    proof (cases "odd i")
      case True
      then obtain c where "i = 2 * c + 1" by (rule oddE)
      with idx show ?thesis by (simp add: ToBlockInfo_def gblock_def)
    next
      case e: False
      with False obtain c where "i = 2 * c + 2"
        by (metis add_2_eq_Suc' evenE mult_Suc_right mult_0_right not0_implies_Suc add.commute)
      with idx show ?thesis by (simp add: ToBlockInfo_def gblock_def)
    qed
    consider "i - 1 \<in> S" "(i - 1) div 2 \<in> S" | "i - 1 \<in> S" "(i - 1) div 2 \<notin> S"
      | "i - 1 \<notin> S" "(i - 1) div 2 \<in> S"
      using link False by blast
    then show ?thesis
      by cases (simp_all only: verifyBlock_def Let_def pb tb sha256Block_gblock [OF i] d i0 ne nx side
          option.case if_True if_False refl not_True_eq_False simp_thms)
  qed
qed

lemma block_offset:
  assumes "unat w = i" and "i * BLK \<le> length C" and "length C < 2 ^ 63"
  shows "unat (BUFFER_SIZE * w) = i * BLK" and "\<not> sint (BUFFER_SIZE * w) < 0"
proof -
  have "unat BUFFER_SIZE * unat w < 2 ^ 64" using assms by (simp add: BUFFER_SIZE_def)
  then have "unat (BUFFER_SIZE * w) = unat BUFFER_SIZE * unat w"
    by (simp add: unat_mult_lem [THEN iffD1])
  then show off: "unat (BUFFER_SIZE * w) = i * BLK" using assms(1) by (simp add: BUFFER_SIZE_def)
  show "\<not> sint (BUFFER_SIZE * w) < 0"
    using nonneg_unat [of "BUFFER_SIZE * w"] off assms by auto
qed

text \<open>The bytes of a file; a missing file reads as empty.\<close>

definition file_bytes :: "disk \<Rightarrow> string \<Rightarrow> bytes" where
  "file_bytes dsk path = (case dsk path of None \<Rightarrow> [] | Some c \<Rightarrow> c)"

text \<open>Writing a genuine block that is not yet marked, whatever is on the disk.\<close>

lemma write_genuine_info:
  assumes h: "holds sha C S pfi" and small: "length C < 2 ^ 63"
    and inj: "inj_on (ghash sha C) {..last_index C}"
    and i: "i < nblocks (pf_Size pfi)" "i \<notin> S"
  shows "\<exists>pfi'. VerifiedBlockWriter NoFault dsk pfi (gblock sha C i) (ghash sha C i) =
      Some (dsk(pf_Path pfi \<mapsto> write_at (i * BLK) (blk_data C i) (file_bytes dsk (pf_Path pfi))), pfi', None) \<and>
      holds sha C (insert i S) pfi' \<and> pf_Path pfi' = pf_Path pfi \<and>
      pf_Size pfi' = pf_Size pfi \<and> pf_Hash pfi' = pf_Hash pfi \<and>
      cov_set (b_Index (gblock sha C i)) (cov_words pfi) = Some (cov_words pfi')"
proof -
  let ?b = "gblock sha C i"
  have sz: "unat (pf_Size pfi) = length C" using h by (simp add: holds_def)
  have il: "i \<le> last_index C" "i * BLK < length C"
    using less_nblocks_last [OF sz i(1)] by auto
  have idx: "unat (b_Index ?b) = i" using unat_idx [OF small il(1)] by (simp add: gblock_def)
  have cap: "cov_cap (cov_words pfi) = 64 * ((nblocks (pf_Size pfi) + 63) div 64)"
    using h by (simp add: holds_def cov_cap_def length_emptyCoverage)
  have "nblocks (pf_Size pfi) \<le> 64 * ((nblocks (pf_Size pfi) + 63) div 64)"
    using dividend_less_times_div [of 64 "nblocks (pf_Size pfi) + 63"] by linarith
  then have lt: "unat (b_Index ?b) < cov_cap (cov_words pfi)" using i(1) idx cap by simp
  have have0: "haveBlock pfi ?b = Some False"
    using lt i(2) h idx by (simp add: haveBlock_def cov.get_eq holds_def)
  obtain c' where c': "cov_set (b_Index ?b) (cov_words pfi) = Some c'"
      "cov_bits c' = insert i (cov_bits (cov_words pfi))" "cov_cap c' = cov_cap (cov_words pfi)"
    using cov.set_ret [OF lt] idx by auto
  note off = block_offset(1) [OF idx less_imp_le [OF il(2)] small] and pos = block_offset(2) [OF idx less_imp_le [OF il(2)] small]
  let ?pfi' = "pfi\<lparr>pf_Coverage := Some c',
     pf_BlockMap := (pf_BlockMap pfi)(ghash sha C i \<mapsto> ToBlockInfo ?b),
     pf_BlockLookup := (pf_BlockLookup pfi)(b_Index ?b \<mapsto> ghash sha C i)\<rparr>"
  have data: "b_Data ?b = blk_data C i" by (simp add: gblock_def)
  have wr: "VerifiedBlockWriter NoFault dsk pfi ?b (ghash sha C i) =
      Some (dsk(pf_Path pfi \<mapsto> write_at (i * BLK) (blk_data C i) (file_bytes dsk (pf_Path pfi))), ?pfi', None)"
    unfolding VerifiedBlockWriter_def setBlockWritten_def have0 c'(1) Let_def off data file_bytes_def
    using pos by simp
  have SL: "\<forall>j \<in> S. j \<le> last_index C" using h by (simp add: holds_def)
  have "\<forall>j \<in> S. ghash sha C j \<noteq> ghash sha C i"
    using inj SL i(2) il(1) by (metis atMost_iff inj_onD)
  then have "holds sha C (insert i S) ?pfi'"
    using h c' il(1) idx unfolding holds_def cov_words_def
    by (auto simp: cov_cap_def fun_eq_iff word_unat_eq_iff)
  moreover have "cov_set (b_Index ?b) (cov_words pfi) = Some (cov_words ?pfi')"
    by (simp only: c'(1)) (simp add: cov_words_def)
  ultimately show ?thesis using wr by auto
qed

lemma write_genuine:
  assumes h: "holds sha C S pfi" and small: "length C < 2 ^ 63"
    and inj: "inj_on (ghash sha C) {..last_index C}"
    and dsk: "dsk (pf_Path pfi) = Some D" "disk_ok C S D"
    and i: "i < nblocks (pf_Size pfi)" "i \<notin> S"
  shows "\<exists>dsk' pfi'. VerifiedBlockWriter NoFault dsk pfi (gblock sha C i) (ghash sha C i) =
      Some (dsk', pfi', None) \<and> holds sha C (insert i S) pfi' \<and> pf_Path pfi' = pf_Path pfi \<and>
      pf_Size pfi' = pf_Size pfi \<and> pf_Hash pfi' = pf_Hash pfi \<and>
      cov_set (b_Index (gblock sha C i)) (cov_words pfi) = Some (cov_words pfi') \<and>
      (\<exists>D'. dsk' (pf_Path pfi) = Some D' \<and> disk_ok C (insert i S) D')"
proof -
  have "unat (pf_Size pfi) = length C" using h by (simp add: holds_def)
  then have "i * BLK \<le> length C" using less_nblocks_last(2) [OF _ i(1)] by fastforce
  then have "disk_ok C (insert i S) (write_at (i * BLK) (blk_data C i) D)" by (rule disk_ok_insert [OF dsk(2)])
  moreover have "file_bytes dsk (pf_Path pfi) = D" using dsk(1) by (simp add: file_bytes_def)
  ultimately show ?thesis using write_genuine_info [OF h small inj i, of dsk] by auto
qed

text \<open>
  On a requester and a full holder, \<open>chooseBlock\<close> returns a missing block that the requester can
  verify, provided no held block has a tree child beyond the bitmap.
\<close>

lemma choose_genuine:
  assumes src: "serves sha C sdsk spfi" and h: "holds sha C S pfi" and small: "length C < 2 ^ 50"
    and fits: "\<And>p. p \<in> S \<Longrightarrow> 2 * p + 2 < cov_cap (cov_words pfi)"
    and S: "S \<subseteq> {..<nblocks (pf_Size pfi)}" "S \<noteq> {..<nblocks (pf_Size pfi)}" "0 \<in> S \<or> S = {}"
    and rnd: "\<And>n. 0 < n \<Longrightarrow> rnd n < n"
  shows "\<exists>i. i < nblocks (pf_Size pfi) \<and> i \<notin> S \<and> (i = 0 \<or> i - 1 \<in> S \<or> (i - 1) div 2 \<in> S) \<and>
    chooseBlock_file sha rnd sdsk (cov_words pfi) spfi = Some (Some (gblock sha C i))"
proof -
  let ?n = "nblocks (pf_Size pfi)" and ?cov = "cov_words pfi" and ?own = "cov_words spfi"
  have sz: "unat (pf_Size pfi) = length C" "pf_Size spfi = pf_Size pfi"
    using h src by (simp_all add: holds_def serves_def word_unat_eq_iff)
  have len: "length ?cov = length ?own" using h src sz by (simp add: holds_def serves_def)
  have bits: "cov_bits ?cov = S" "cov_bits ?own = {..<?n}"
    using h src sz by (simp_all add: holds_def serves_def)
  have l50: "length ?cov < 2 ^ 50"
    using h small sz by (simp add: holds_def length_emptyCoverage nblocks_def less_mult_imp_div_less)
  obtain nb where nb: "next_blocks ?cov = Some nb" "length nb = length ?cov"
      "cov_bits nb = \<Union> (kids ` S) - S"
    using next_blocks_cases [OF l50] fits bits by auto
  obtain l where l: "block_indices nb ?own = Some l" "unat ` set l = cov_bits nb \<inter> {..<?n}"
    using block_indices_cases [of nb ?own] nb l50 len bits by auto
  obtain w where w: "(if l = [] then Some 0
        else if rnd (length l) < length l then Some (l ! rnd (length l)) else None) = Some w"
      and wi: "unat w < ?n" "unat w \<notin> S" "unat w = 0 \<or> unat w - 1 \<in> S \<or> (unat w - 1) div 2 \<in> S"
  proof (cases "l = []")
    case True
    have "S = {}"
    proof (rule ccontr)
      assume "S \<noteq> {}"
      obtain k where k: "k < ?n" "k \<notin> S" "\<And>j. j < k \<Longrightarrow> j \<in> S"
        using S(1,2) exists_least_iff [of "\<lambda>k. k < ?n \<and> k \<notin> S"] by (metis lessThan_iff less_trans subsetI subset_antisym)
      with S(3) \<open>S \<noteq> {}\<close> have "0 < k" by (metis gr0I)
      then have "k \<in> kids (k - 1)" "k - 1 \<in> S" using k(3) by (simp_all add: kids_def)
      then have "k \<in> unat ` set l" using l(2) nb(3) k by auto
      with True show False by simp
    qed
    moreover have "0 < ?n" using S(2) \<open>S = {}\<close> by auto
    ultimately show thesis using that [of 0] True by simp
  next
    case False
    then have r: "rnd (length l) < length l" using rnd by simp
    then have "unat (l ! rnd (length l)) \<in> cov_bits nb \<inter> {..<?n}" using l(2) by (metis image_eqI nth_mem)
    then obtain p where "unat (l ! rnd (length l)) \<in> kids p" "p \<in> S"
        "unat (l ! rnd (length l)) \<notin> S" "unat (l ! rnd (length l)) < ?n"
      using nb(3) by auto
    moreover from this have "unat (l ! rnd (length l)) - 1 = p \<or> (unat (l ! rnd (length l)) - 1) div 2 = p"
      by (auto simp: kids_def)
    ultimately show thesis using that [of "l ! rnd (length l)"] False r by auto
  qed
  let ?i = "unat w"
  have il: "?i \<le> last_index C" "?i * BLK < length C" using less_nblocks_last [OF sz(1) wi(1)] by auto
  have small63: "length C < 2 ^ 63" using small by simp
  note off = block_offset [OF refl less_imp_le [OF il(2)] small63]
  have ne: "\<not> isEmptyCoverage ?own" using bits(2) wi(1) by (auto simp: isEmptyCoverage_iff)
  have info: "Option.bind (pf_BlockLookup spfi w) (pf_BlockMap spfi) = Some (ToBlockInfo (gblock sha C ?i))"
    using src il(1) by (simp add: serves_def glookup_def)
  have dsk: "sdsk (pf_Path spfi) = Some C" using src by (simp add: serves_def)
  have buf: "take BLK (drop (?i * BLK) C) = blk_data C ?i" by (simp add: blk_data_def)
  have hash: "b_DataHash (gblock sha C ?i) = sha256Bytes sha (b_Data (gblock sha C ?i))"
    by (simp add: gblock_def)
  have "chooseBlock_file sha rnd sdsk ?cov spfi = Some (Some (gblock sha C ?i))"
    using off unfolding chooseBlock_file_def nb(1) bind.bind_lunit l(1) w
    by (simp only: ne info dsk Let_def mult.commute [of w] off buf ToBlock_gblock hash option.case if_False
        bind.bind_lunit refl simp_thms)
  then show ?thesis using wi by blast
qed

section \<open>A whole exchange\<close>

text \<open>
  One request of a requester answered by one holder: \<open>chooseBlock\<close> on the requester's coverage, the
  checks of \<open>ProcessFulfillment\<close> and one round of \<open>VerifiedBlockWriter\<close>, without I/O faults.
\<close>

definition transfer_round ::
    "(bytes \<Rightarrow> bytes) \<Rightarrow> disk \<Rightarrow> PackFileInfo \<Rightarrow> (nat \<Rightarrow> nat) \<Rightarrow> disk \<times> PackFileInfo \<Rightarrow> (disk \<times> PackFileInfo) go" where
  "transfer_round sha sdsk spfi rnd st = do {
     choice \<leftarrow> chooseBlock_file sha rnd sdsk (cov_words (snd st)) spfi;
     case choice of
       None \<Rightarrow> Ret st
     | Some block \<Rightarrow>
         (case verifyBlock sha (snd st) block of
            None \<Rightarrow> Ret st
          | Some hash \<Rightarrow> do {
              r \<leftarrow> VerifiedBlockWriter NoFault (fst st) (snd st) block hash;
              Ret (fst r, fst (snd r)) }) }"

definition exchange_inv :: "(bytes \<Rightarrow> bytes) \<Rightarrow> bytes \<Rightarrow> nat \<Rightarrow> PackFileInfo \<Rightarrow> disk \<times> PackFileInfo \<Rightarrow> bool" where
  "exchange_inv sha C k pfi0 st \<longleftrightarrow>
     (\<exists>S D. holds sha C S (snd st) \<and> S \<subseteq> {..<nblocks (pf_Size (snd st))} \<and> card S = k \<and> (0 \<in> S \<or> S = {}) \<and>
        pf_Path (snd st) = pf_Path pfi0 \<and> pf_Size (snd st) = pf_Size pfi0 \<and>
        fst st (pf_Path pfi0) = Some D \<and> disk_ok C S D)"

text \<open>The block that a round transfers: one the holder chooses, the requester verifies, and the writer stores.\<close>

definition transfers :: "(bytes \<Rightarrow> bytes) \<Rightarrow> bytes \<Rightarrow> disk \<Rightarrow> PackFileInfo \<Rightarrow> (nat \<Rightarrow> nat) \<Rightarrow> disk \<times> PackFileInfo \<Rightarrow>
    nat \<Rightarrow> disk \<times> PackFileInfo \<Rightarrow> bool" where
  "transfers sha C sdsk spfi rnd st i st' \<longleftrightarrow> i < nblocks (pf_Size (snd st)) \<and>
     chooseBlock_file sha rnd sdsk (cov_words (snd st)) spfi = Some (Some (gblock sha C i)) \<and>
     verifyBlock sha (snd st) (gblock sha C i) = Some (ghash sha C i) \<and>
     VerifiedBlockWriter NoFault (fst st) (snd st) (gblock sha C i) (ghash sha C i) = Some (fst st', snd st', None) \<and>
     cov_set (b_Index (gblock sha C i)) (cov_words (snd st)) = Some (cov_words (snd st')) \<and>
     pf_Hash (snd st') = pf_Hash (snd st)"

lemma transfer_block:
  assumes inv: "exchange_inv sha C k pfi0 st" and src: "serves sha C sdsk spfi"
    and k: "k < nblocks (pf_Size pfi0)" and small: "nblocks (pf_Size pfi0) \<le> 31"
    and sha: "\<And>x. length (sha x) = 32" and inj: "inj_on (ghash sha C) {..last_index C}"
    and rnd: "\<And>n. 0 < n \<Longrightarrow> rnd n < n"
  shows "\<exists>i st'. transfers sha C sdsk spfi rnd st i st' \<and> exchange_inv sha C (Suc k) pfi0 st'"
proof -
  obtain dsk pfi where st: "st = (dsk, pfi)" by force
  from inv st obtain S D where h: "holds sha C S pfi" and S: "S \<subseteq> {..<nblocks (pf_Size pfi)}" "card S = k"
      "0 \<in> S \<or> S = {}" and pfi: "pf_Path pfi = pf_Path pfi0" "pf_Size pfi = pf_Size pfi0"
      and D: "dsk (pf_Path pfi) = Some D" "disk_ok C S D"
    by (auto simp: exchange_inv_def)
  let ?n = "nblocks (pf_Size pfi)"
  have sz: "unat (pf_Size pfi) = length C" using h by (simp add: holds_def)
  have "\<not> 31 < ?n" using small pfi by simp
  then have C: "length C \<le> 31 * BLK" using less_nblocks_iff [of 31 "pf_Size pfi"] sz by simp
  have cap: "cov_cap (cov_words pfi) = 64 * ((?n + 63) div 64)"
    using h by (simp add: holds_def cov_cap_def length_emptyCoverage)
  have n: "(?n + 63) div 64 = 1" using k small pfi by simp
  have fits: "2 * p + 2 < cov_cap (cov_words pfi)" if "p \<in> S" for p
    using that S(1) small pfi cap n by auto
  have full: "S \<noteq> {..<?n}" using S(2) k pfi by auto
  obtain i where i: "i < ?n" "i \<notin> S" "i = 0 \<or> i - 1 \<in> S \<or> (i - 1) div 2 \<in> S"
      and ch: "chooseBlock_file sha rnd sdsk (cov_words pfi) spfi = Some (Some (gblock sha C i))"
    using choose_genuine [OF src h _ fits S(1) full S(3) rnd] C by auto
  have small63: "length C < 2 ^ 63" using C by simp
  have il: "i \<le> last_index C" using less_nblocks_last [OF sz i(1)] by simp
  have ver: "verifyBlock sha pfi (gblock sha C i) = Some (ghash sha C i)"
    by (rule verify_genuine [OF h small63 sha il i(3)])
  obtain dsk' pfi' D' where w: "VerifiedBlockWriter NoFault dsk pfi (gblock sha C i) (ghash sha C i) =
      Some (dsk', pfi', None)" "holds sha C (insert i S) pfi'" "pf_Path pfi' = pf_Path pfi"
      "pf_Size pfi' = pf_Size pfi" "pf_Hash pfi' = pf_Hash pfi"
      "cov_set (b_Index (gblock sha C i)) (cov_words pfi) = Some (cov_words pfi')"
      "dsk' (pf_Path pfi) = Some D'" "disk_ok C (insert i S) D'"
    using write_genuine [where dsk = dsk and D = D, OF h small63 inj D i(1,2)] by auto
  have fin: "finite S" using S(1) by (rule finite_subset) simp
  have z: "0 \<in> insert i S" using i(3) S(3) by auto
  have "exchange_inv sha C (Suc k) pfi0 (dsk', pfi')"
    unfolding exchange_inv_def
    by (rule exI [of _ "insert i S"], rule exI [of _ D']) (use w S i fin z pfi in auto)
  moreover have "transfers sha C sdsk spfi rnd st i (dsk', pfi')"
    using i(1) ch ver w by (simp add: transfers_def st)
  ultimately show ?thesis by blast
qed

lemma transfers_round: "transfers sha C sdsk spfi rnd st i st' \<Longrightarrow> transfer_round sha sdsk spfi rnd st = Some st'"
  by (simp add: transfers_def transfer_round_def)

lemma exchange_completes:
  assumes src: "serves sha C sdsk spfi" and small: "nblocks (pf_Size pfi0) \<le> 31"
    and sha: "\<And>x. length (sha x) = 32" and inj: "inj_on (ghash sha C) {..last_index C}"
    and inv: "exchange_inv sha C k pfi0 st" and "k + length rnds = nblocks (pf_Size pfi0)"
    and "\<And>rnd n. rnd \<in> set rnds \<Longrightarrow> 0 < n \<Longrightarrow> rnd n < n"
  shows "\<exists>st'. ofold (transfer_round sha sdsk spfi) rnds st = Some st' \<and>
    exchange_inv sha C (nblocks (pf_Size pfi0)) pfi0 st'"
  using inv assms(6,7)
proof (induction rnds arbitrary: k st)
  case (Cons rnd rnds)
  then obtain st1 where "transfer_round sha sdsk spfi rnd st = Some st1" "exchange_inv sha C (Suc k) pfi0 st1"
    using transfer_block [OF Cons.prems(1) src _ small sha inj, of rnd] transfers_round by fastforce
  with Cons.IH [of "Suc k" st1] Cons.prems show ?case by auto
qed auto

lemma exchange_inv_full:
  assumes "exchange_inv sha C (nblocks (pf_Size pfi0)) pfi0 (dsk, pfi)" and "0 \<le> sint (pf_Size pfi0)"
  shows "dsk (pf_Path pfi0) = Some C" "isFullCoverage (pf_Size pfi) (pf_Coverage pfi) = Some True"
proof -
  from assms obtain S D where h: "holds sha C S pfi" and S: "S \<subseteq> {..<nblocks (pf_Size pfi)}"
      "card S = nblocks (pf_Size pfi)" and pfi: "pf_Size pfi = pf_Size pfi0"
      and D: "dsk (pf_Path pfi0) = Some D" "disk_ok C S D"
    by (auto simp: exchange_inv_def)
  have full: "S = {..<nblocks (pf_Size pfi)}" using S by (intro card_subset_eq) auto
  have sz: "unat (pf_Size pfi) = length C" using h by (simp add: holds_def)
  have "D = C" by (rule disk_ok_full [OF D(2)]) (use div_less_nblocks [OF sz] full in auto)
  with D show "dsk (pf_Path pfi0) = Some C" by simp
  have cov: "length (cov_words pfi) = length (emptyCoverage (pf_Size pfi))"
      "cov_bits (cov_words pfi) = {..<nblocks (pf_Size pfi)}"
    using h full by (auto simp: holds_def)
  have ns: "0 \<le> sint (pf_Size pfi)" using assms pfi by simp
  show "isFullCoverage (pf_Size pfi) (pf_Coverage pfi) = Some True"
    using cov isFullCoverage_eq [OF ns, of "cov_words pfi"] h
    unfolding cov_words_def by (cases "pf_Coverage pfi") (simp_all add: holds_def)
qed

section \<open>Preparing the destination file\<close>

text \<open>
  \<open>writeZeroFile\<close>, called by \<open>StartPack\<close> for each file: the directory or the open may fail, and the
  \<open>k\<close>-th write may write only \<open>n\<close> bytes (\<open>writes k = Some n\<close>). The file is opened without truncation.
  The second component lists the status messages.
\<close>

datatype zero_faults = MkdirFault | CreateFault | Writes "nat \<Rightarrow> nat option"

definition zeros :: "nat \<Rightarrow> bytes" where
  "zeros n = replicate n (char_of (0 :: nat))"

function writeZero_loop :: "(nat \<Rightarrow> nat option) \<Rightarrow> nat \<Rightarrow> nat \<Rightarrow> int \<Rightarrow> bytes \<Rightarrow> bytes \<times> bool" where
  "writeZero_loop writes k pos remaining content =
     (if 102400000 < remaining
      then case writes k of
             Some n \<Rightarrow> (write_at pos (zeros (min n 102400000)) content, False)
           | None \<Rightarrow> writeZero_loop writes (Suc k) (pos + 102400000) (remaining - 102400000)
                       (write_at pos (zeros 102400000) content)
      else if 0 < remaining
      then case writes k of
             Some n \<Rightarrow> (write_at pos (zeros (min n (nat remaining))) content, False)
           | None \<Rightarrow> (write_at pos (zeros (nat remaining)) content, True)
      else (content, True))"
  by pat_completeness auto
termination
  by (relation "measure (\<lambda>(writes, k, pos, remaining, content). nat remaining)") auto

declare writeZero_loop.simps [simp del]

definition writeZeroFile :: "zero_faults \<Rightarrow> string \<Rightarrow> u64 \<Rightarrow> disk \<Rightarrow> disk \<times> string list" where
  "writeZeroFile faults name sz dsk =
     (case faults of
        MkdirFault \<Rightarrow> (dsk, [''writing empty file for '' @ name, ''error when prepping dirs''])
      | CreateFault \<Rightarrow> (dsk, [''writing empty file for '' @ name, ''error when prepping file''])
      | Writes writes \<Rightarrow>
          let (content, done) = writeZero_loop writes 0 0 (sint sz)
                (case dsk name of None \<Rightarrow> [] | Some c \<Rightarrow> c)
          in (dsk(name \<mapsto> content),
              [''writing empty file for '' @ name,
               if done then ''empty file written for '' @ name else ''error writing empty file'']))"

text \<open>The loop body of \<open>StartPack\<close> for one file.\<close>

definition start_file :: "zero_faults \<Rightarrow> disk \<times> PackFileInfo \<Rightarrow> disk \<times> PackFileInfo" where
  "start_file faults st =
     (fst (writeZeroFile faults (pf_Path (snd st)) (pf_Size (snd st)) (fst st)),
      (snd st)\<lparr>pf_Coverage := Some (emptyCoverage (pf_Size (snd st)))\<rparr>)"

lemma write_zeros_prefix:
  "write_at pos (zeros n) (zeros pos @ drop pos c) = zeros (pos + n) @ drop (pos + n) c"
  by (auto simp: write_at_def zeros_def replicate_add add.commute [of n])

lemma writeZero_loop_ok:
  "writes = (\<lambda>_. None) \<Longrightarrow>
    writeZero_loop writes k pos remaining (zeros pos @ drop pos c) =
      (zeros (pos + nat remaining) @ drop (pos + nat remaining) c, True)"
proof (induction writes k pos remaining "zeros pos @ drop pos c" rule: writeZero_loop.induct)
  case (1 writes k pos remaining)
  show ?case
  proof (cases "102400000 < remaining")
    case True
    then have "nat (remaining - 102400000) = nat remaining - 102400000" "102400000 \<le> nat remaining" by simp_all
    with True 1 show ?thesis
      by (subst writeZero_loop.simps) (simp add: write_zeros_prefix)
  next
    case False
    with 1 show ?thesis by (subst writeZero_loop.simps) (simp add: write_zeros_prefix)
  qed
qed

lemma writeZeroFile_content:
  "fst (writeZeroFile (Writes (\<lambda>_. None)) name sz dsk) name =
    (let old = case dsk name of None \<Rightarrow> [] | Some c \<Rightarrow> c in Some (zeros (nat (sint sz)) @ drop (nat (sint sz)) old))"
  using writeZero_loop_ok [OF refl, of 0 0 "sint sz"]
  by (simp add: writeZeroFile_def zeros_def Let_def split: prod.split)

lemma nat_sint:
  assumes "0 \<le> sint (w :: u64)"
  shows "nat (sint w) = unat w"
proof -
  have lt: "unat w < 2 ^ 63" using assms by (simp add: nonneg_unat)
  then have "int (unat w) < int (2 ^ 63)" by (simp only: of_nat_less_iff)
  then have tb: "take_bit 63 (uint w) = uint w" by (simp add: take_bit_int_eq_self)
  then have nb: "\<not> bit (uint w) 63" by (metis bit_take_bit_iff less_irrefl)
  have "sint w = uint w"
    using signed_take_bit_eq_if_positive [OF nb] tb by (simp add: sint_uint)
  then show ?thesis by simp
qed

section \<open>Properties of an exchange\<close>

text \<open>
  C33: The candidates of \<open>chooseBlock\<close>. On a bitmap, the first part of \<open>chooseBlock\<close> computes exactly the
  blocks that some held block gives a hash of (its successor and its two tree children) and that
  are not held, if no held block has a right child outside the bitmap; if one has, it panics.
\<close>

theorem next_blocks_spec:
  assumes "length coverage < 2 ^ 50"
  shows "if \<forall>p \<in> cov_bits coverage. 2 * p + 2 < 64 * length coverage
    then \<exists>nb. next_blocks coverage = Some nb \<and> length nb = length coverage \<and>
           cov_bits nb = {k. \<exists>p \<in> cov_bits coverage. k \<in> {p + 1, 2 * p + 1, 2 * p + 2}} - cov_bits coverage
    else next_blocks coverage = None"
proof -
  have "\<Union> (kids ` S) = {k. \<exists>p \<in> S. k \<in> {p + 1, 2 * p + 1, 2 * p + 2}}" for S
    by (auto simp: kids_def)
  then show ?thesis using next_blocks_cases [OF assms] unfolding cov_cap_def by (simp only:)
qed

theorem next_blocks_spec_witness:
  "(\<exists>nb. next_blocks [1] = Some nb \<and> cov_bits nb = {1, 2}) \<and> next_blocks [2 ^ 31] = None"
proof -
  have one: "cov_bits [1] = {0}" by (auto simp: cov_bits_iff bit_1_iff)
  have "bit ((2 :: u64) ^ 31) 31" by (simp only: bit_exp_iff) simp
  then have "31 \<in> cov_bits [2 ^ 31]" by (simp add: cov_bits_iff)
  moreover have "\<not> 2 * 31 + 2 < 64 * length [2 ^ 31 :: u64]" by simp
  ultimately have n: "\<not> (\<forall>p \<in> cov_bits [2 ^ 31]. 2 * p + 2 < 64 * length [2 ^ 31 :: u64])" by metis
  have l: "length [2 ^ 31 :: u64] < 2 ^ 50" "length [1 :: u64] < 2 ^ 50" by simp_all
  have "next_blocks [2 ^ 31] = None" using next_blocks_spec [OF l(1)] n by (simp only: if_False)
  moreover have "\<exists>nb. next_blocks [1] = Some nb \<and> cov_bits nb = {1, 2}"
    using next_blocks_spec [OF l(2)] unfolding one by (auto simp: insert_Diff_if)
  ultimately show ?thesis by blast
qed

text \<open>A request with a bitmap of the right length for more than 32 blocks that lacks at most one of them.\<close>

lemma choose_almost_full:
  assumes "length coverage = length (emptyCoverage sz)" and "32 < nblocks sz"
    and "{..<nblocks sz} - {k} \<subseteq> cov_bits coverage"
  shows "chooseBlock_file sha rnd dsk coverage packFileInfo = Panic"
proof -
  let ?n = "nblocks sz"
  have len: "length coverage = (?n + 63) div 64" using assms(1) by (simp add: length_emptyCoverage)
  have "?n < 2 ^ 51"
    using unat_u64_less [of sz] by (simp add: nblocks_def less_mult_imp_div_less)
  then have l50: "length coverage < 2 ^ 50" by (simp add: len less_mult_imp_div_less)
  obtain p where p: "p \<in> {?n - 1, ?n - 2}" "p \<noteq> k"
  proof (cases "k = ?n - 1")
    case True
    with that [of "?n - 2"] assms(2) show thesis by auto
  qed (use that [of "?n - 1"] in auto)
  have "p \<in> cov_bits coverage" using p assms(2,3) by auto
  moreover have "64 * length coverage \<le> 2 * p + 2"
  proof -
    have "64 * ((?n + 63) div 64) \<le> 2 * ?n - 2"
    proof (cases "?n \<le> 64")
      case True
      with assms(2) have "(?n + 63) div 64 = 1" by (intro div_nat_eqI) simp_all
      with assms(2) show ?thesis by simp
    next
      case False
      have "64 * ((?n + 63) div 64) \<le> ?n + 63" by (rule times_div_less_eq_dividend)
      with False show ?thesis by simp
    qed
    with p assms(2) show ?thesis by (auto simp: len)
  qed
  ultimately have "next_blocks coverage = None"
    using next_blocks_cases [OF l50] by (auto simp: cov_cap_def split: if_splits)
  then show ?thesis by (simp add: chooseBlock_file_def)
qed

text \<open>A round of the writer, and so a whole exchange, adds at most one block to the bitmap.\<close>

lemma writer_one_bit:
  assumes "VerifiedBlockWriter fault dsk pfi block hash = Some (dsk', pfi', msg)"
  shows "pf_Size pfi' = pf_Size pfi" "length (cov_words pfi') = length (cov_words pfi)"
    "\<exists>i. cov_bits (cov_words pfi') \<subseteq> insert i (cov_bits (cov_words pfi))"
proof -
  have "pfi' = pfi \<or> (\<exists>c'. cov_set (b_Index block) (cov_words pfi) = Some c' \<and> pf_Size pfi' = pf_Size pfi \<and>
      cov_words pfi' = c')"
    using assms unfolding VerifiedBlockWriter_def setBlockWritten_def Let_def
    by (auto simp: cov_words_def split: Option.bind_splits if_splits io_fault.splits)
  then show "pf_Size pfi' = pf_Size pfi" "length (cov_words pfi') = length (cov_words pfi)"
      "\<exists>i. cov_bits (cov_words pfi') \<subseteq> insert i (cov_bits (cov_words pfi))"
    using cov.set_cases [of "b_Index block" "cov_words pfi" "cov_words pfi'"] by (auto simp: cov_cap_def)
qed

lemma round_one_bit:
  assumes "transfer_round sha sdsk spfi rnd st = Some st'"
  shows "pf_Size (snd st') = pf_Size (snd st) \<and> length (cov_words (snd st')) = length (cov_words (snd st)) \<and>
    (\<exists>i. cov_bits (cov_words (snd st')) \<subseteq> insert i (cov_bits (cov_words (snd st))))"
proof -
  have "st' = st \<or> (\<exists>block hash r. VerifiedBlockWriter NoFault (fst st) (snd st) block hash = Some r \<and>
      snd st' = fst (snd r))"
    using assms unfolding transfer_round_def by (auto split: Option.bind_splits option.splits)
  then show ?thesis
  proof (elim disjE exE conjE)
    fix block hash r
    assume "VerifiedBlockWriter NoFault (fst st) (snd st) block hash = Some r" "snd st' = fst (snd r)"
    then show ?thesis
      using writer_one_bit [of NoFault "fst st" "snd st" block hash "fst r" "fst (snd r)" "snd (snd r)"] by simp
  qed auto
qed

text \<open>A sequence of whole exchanges, each with its own holder and random choice.\<close>

definition serial_rounds ::
    "(bytes \<Rightarrow> bytes) \<Rightarrow> (disk \<times> PackFileInfo \<times> (nat \<Rightarrow> nat)) list \<Rightarrow> disk \<times> PackFileInfo \<Rightarrow> (disk \<times> PackFileInfo) go" where
  "serial_rounds sha rounds st = ofold (\<lambda>(sdsk, spfi, rnd). transfer_round sha sdsk spfi rnd) rounds st"

lemma serial_rounds_incomplete:
  assumes "serial_rounds sha rounds st = Some st'" and "32 < nblocks sz"
    and "pf_Size (snd st) = sz" "length (cov_words (snd st)) = length (emptyCoverage sz)"
    and "\<not> {..<nblocks sz} \<subseteq> cov_bits (cov_words (snd st))"
  shows "pf_Size (snd st') = sz \<and> length (cov_words (snd st')) = length (emptyCoverage sz) \<and>
    \<not> {..<nblocks sz} \<subseteq> cov_bits (cov_words (snd st'))"
  using assms(1,3-5)
proof (induction rounds arbitrary: st)
  case (Cons r rounds)
  obtain sdsk spfi rnd where r: "r = (sdsk, spfi, rnd)" by (cases r)
  with Cons.prems(1) obtain st1 where st1: "transfer_round sha sdsk spfi rnd st = Some st1"
      "serial_rounds sha rounds st1 = Some st'"
    by (auto simp: serial_rounds_def split: Option.bind_splits)
  have "chooseBlock_file sha rnd sdsk (cov_words (snd st)) spfi \<noteq> Panic"
    using st1(1) by (auto simp: transfer_round_def split: Option.bind_splits)
  then have miss: "\<not> {..<nblocks sz} - {k} \<subseteq> cov_bits (cov_words (snd st))" for k
    using choose_almost_full [OF Cons.prems(3) assms(2)] by metis
  obtain i where "cov_bits (cov_words (snd st1)) \<subseteq> insert i (cov_bits (cov_words (snd st)))"
    using round_one_bit [OF st1(1)] by blast
  with miss [of i] have "\<not> {..<nblocks sz} \<subseteq> cov_bits (cov_words (snd st1))" by blast
  with Cons.IH [OF st1(2)] round_one_bit [OF st1(1)] Cons.prems(2,3) show ?case by simp
qed (simp add: serial_rounds_def)

text \<open>
  C19: Files of more than 32 blocks crash their senders. For such a file, whoever serves a request whose
  bitmap lacks at most one block panics in \<open>chooseBlock\<close>, whatever blocks it holds itself. So a download
  that asks for one block at a time never completes: no sequence of whole exchanges (request,
  choice, verification, write), with whatever holders and random choices, turns a bitmap that
  lacks a block into a full one. (Two holders that answer the same request with different blocks can
  still complete a file.)
\<close>

theorem large_file_crashes_sender:
  assumes "32 < nblocks sz"
  shows "(\<forall>coverage k sha rnd dsk packFileInfo.
      length coverage = length (emptyCoverage sz) \<and> {..<nblocks sz} - {k} \<subseteq> cov_bits coverage \<longrightarrow>
      chooseBlock_file sha rnd dsk coverage packFileInfo = Panic) \<and>
    (\<forall>sha rounds dsk pfi dsk' pfi'.
      serial_rounds sha rounds (dsk, pfi) = Ret (dsk', pfi') \<and> pf_Size pfi = sz \<and> 0 \<le> sint sz \<and>
      length (cov_words pfi) = length (emptyCoverage sz) \<and> \<not> {..<nblocks sz} \<subseteq> cov_bits (cov_words pfi) \<longrightarrow>
      \<not> {..<nblocks sz} \<subseteq> cov_bits (cov_words pfi') \<and>
      isFullCoverage (pf_Size pfi') (pf_Coverage pfi') \<noteq> Ret True)"
proof -
  have "\<not> {..<nblocks sz} \<subseteq> cov_bits (cov_words pfi')" "isFullCoverage (pf_Size pfi') (pf_Coverage pfi') \<noteq> Some True"
    if "serial_rounds sha rounds (dsk, pfi) = Some (dsk', pfi')" "pf_Size pfi = sz" "0 \<le> sint sz"
      "length (cov_words pfi) = length (emptyCoverage sz)" "\<not> {..<nblocks sz} \<subseteq> cov_bits (cov_words pfi)"
    for sha rounds dsk pfi dsk' pfi'
  proof -
    have *: "pf_Size pfi' = sz" "\<not> {..<nblocks sz} \<subseteq> cov_bits (cov_words pfi')"
      using serial_rounds_incomplete [OF that(1) assms] that by auto
    then show "\<not> {..<nblocks sz} \<subseteq> cov_bits (cov_words pfi')" by blast
    show "isFullCoverage (pf_Size pfi') (pf_Coverage pfi') \<noteq> Some True"
    proof (cases "pf_Coverage pfi'")
      case None
      with *(1) show ?thesis using assms by (simp add: isFullCoverage_def)
    next
      case (Some c)
      with * show ?thesis using isFullCoverage_eq [OF that(3), of c]
        by (auto simp: cov_words_def split: if_splits)
    qed
  qed
  with choose_almost_full [OF _ assms] show ?thesis by blast
qed

definition abc_shared :: "PackFileInfo" where
  "abc_shared = \<lparr>pf_Name = ''f'', pf_Hash = [], pf_FirstBlockHash = ghash (\<lambda>_. replicate 32 CHR ''x'') ''abc'' 0,
     pf_Size = 3, pf_BlockMap = (\<lambda>_. Some (ToBlockInfo (gblock (\<lambda>_. replicate 32 CHR ''x'') ''abc'' 0))),
     pf_BlockLookup = glookup (\<lambda>_. replicate 32 CHR ''x'') ''abc'', pf_Coverage = Some [1], pf_Path = ''f''\<rparr>"

text \<open>A file of 33 blocks: a request that lacks the last crashes its server, and no sequence of exchanges ends complete.\<close>

theorem large_file_crashes_sender_witness:
  "(\<forall>sha rnd dsk packFileInfo. chooseBlock_file sha rnd dsk [- 1] packFileInfo = Panic) \<and>
   \<not> (\<exists>sha rounds dsk dsk' pfi'. serial_rounds sha rounds (dsk, abc_shared\<lparr>pf_Size := 337920, pf_Coverage := Some [0]\<rparr>) =
      Ret (dsk', pfi') \<and> isFullCoverage (pf_Size pfi') (pf_Coverage pfi') = Ret True)"
proof -
  have sz: "nblocks 337920 = 33" by (simp add: nblocks_def)
  have all: "{..<33} - {32} \<subseteq> cov_bits [- 1]" by (auto simp: cov_bits_iff)
  have l: "length [w :: u64] = length (emptyCoverage 337920)" for w by (simp add: length_emptyCoverage sz)
  have ns: "0 \<le> sint (337920 :: u64)" by (simp add: nonneg_unat)
  have none: "\<not> {..<33} \<subseteq> cov_bits [0]" by (auto simp: cov_bits_iff subset_iff intro: exI [of _ 0])
  have gt: "32 < nblocks 337920" by (simp add: sz)
  note big = large_file_crashes_sender [OF gt, unfolded sz]
  have "chooseBlock_file sha rnd dsk [- 1] packFileInfo = Panic" for sha rnd dsk packFileInfo
    by (rule big [THEN conjunct1, rule_format, OF conjI, OF l all])
  moreover have "isFullCoverage (pf_Size pfi') (pf_Coverage pfi') \<noteq> Ret True"
    if "serial_rounds sha rounds (dsk, abc_shared\<lparr>pf_Size := 337920, pf_Coverage := Some [0]\<rparr>) = Ret (dsk', pfi')"
    for sha rounds dsk dsk' pfi'
  proof -
    let ?pfi = "abc_shared\<lparr>pf_Size := 337920, pf_Coverage := Some [0]\<rparr>"
    have "cov_words ?pfi = [0]" "pf_Size ?pfi = 337920" by (simp_all add: cov_words_def)
    with that ns none l [of 0] have
      "serial_rounds sha rounds (dsk, ?pfi) = Ret (dsk', pfi') \<and> pf_Size ?pfi = 337920 \<and> 0 \<le> sint (337920 :: u64) \<and>
       length (cov_words ?pfi) = length (emptyCoverage 337920) \<and> \<not> {..<33} \<subseteq> cov_bits (cov_words ?pfi)"
      by (simp only: simp_thms)
    from big [THEN conjunct2, rule_format, OF this] show ?thesis by blast
  qed
  ultimately show ?thesis by blast
qed

text \<open>
  Preparing a download. Without faults \<open>writeZeroFile\<close> makes the first \<open>size\<close> bytes of the file zero;
  the file is not truncated, so what an older, longer file had beyond stays.
\<close>

theorem zero_file_spec:
  assumes "0 \<le> sint sz"
  shows "fst (writeZeroFile (Writes (\<lambda>_. None)) name sz dsk) =
    dsk(name \<mapsto> zeros (unat sz) @ drop (unat sz) (case dsk name of None \<Rightarrow> [] | Some c \<Rightarrow> c))"
  using writeZero_loop_ok [OF refl, of 0 0 "sint sz"]
  by (simp add: writeZeroFile_def zeros_def Let_def nat_sint [OF assms] split: prod.split)

theorem zero_file_spec_witness:
  "fst (writeZeroFile (Writes (\<lambda>_. None)) ''f'' 2 [''f'' \<mapsto> ''abcd'']) = [''f'' \<mapsto> zeros 2 @ ''cd'']"
  using zero_file_spec [of 2 "''f''" "[''f'' \<mapsto> ''abcd'']"] by (simp add: nonneg_unat)

text \<open>
  C2: Files of at most 31 blocks are delivered. Starting a download of a file that is not on disk yet
  and then exchanging as many requests as the file has blocks with one full holder, whatever the
  random choices are, no step panics, the bitmap is full and the file on disk is the shared file,
  provided the digest has 32 bytes and no two blocks of the file have the same hash.
\<close>

theorem small_file_transfer:
  assumes "serves sha C sdsk spfi"
    and "nblocks (pf_Size pfi) \<le> 31" and "length rnds = nblocks (pf_Size pfi)"
    and "\<And>x. length (sha x) = 32" and "inj_on (ghash sha C) {..last_index C}"
    and "\<And>rnd n. rnd \<in> set rnds \<Longrightarrow> 0 < n \<Longrightarrow> rnd n < n"
    and "pf_FirstBlockHash pfi = ghash sha C 0" "unat (pf_Size pfi) = length C"
      "pf_BlockMap pfi = Map.empty" "pf_BlockLookup pfi = Map.empty" "dsk (pf_Path pfi) = None"
  shows "\<exists>dsk' pfi'. ofold (transfer_round sha sdsk spfi) rnds (start_file (Writes (\<lambda>_. None)) (dsk, pfi)) =
      Some (dsk', pfi') \<and> dsk' (pf_Path pfi) = Some C \<and>
    isFullCoverage (pf_Size pfi') (pf_Coverage pfi') = Some True"
proof -
  have "\<not> 31 < nblocks (pf_Size pfi)" using assms(2) by simp
  then have "unat (pf_Size pfi) \<le> 31 * BLK" using less_nblocks_iff [of 31 "pf_Size pfi"] by simp
  then have ns: "0 \<le> sint (pf_Size pfi)" by (simp add: nonneg_unat)
  let ?st = "start_file (Writes (\<lambda>_. None)) (dsk, pfi)"
  have st: "fst ?st (pf_Path pfi) = Some (zeros (length C))"
    using writeZeroFile_content [of "pf_Path pfi" "pf_Size pfi" dsk] assms(8,11)
    by (simp add: start_file_def nat_sint [OF ns])
  have "exchange_inv sha C 0 pfi ?st"
    unfolding exchange_inv_def
    by (rule exI [of _ "{}"], rule exI [of _ "zeros (length C)"])
      (use st assms(7-10) in \<open>auto simp: start_file_def holds_def cov_words_def disk_ok_def zeros_def\<close>)
  then obtain dsk' pfi' where "ofold (transfer_round sha sdsk spfi) rnds ?st = Some (dsk', pfi')"
      "exchange_inv sha C (nblocks (pf_Size pfi)) pfi (dsk', pfi')"
    using exchange_completes [OF assms(1,2,4,5), of 0 ?st rnds] assms(3,6) by auto
  with exchange_inv_full [OF _ ns] show ?thesis by blast
qed

lemma cov_bits_1: "cov_bits [1] = {0}"
  by (auto simp: cov_bits_iff bit_1_iff)

lemma abc_serves: "serves (\<lambda>_. replicate 32 CHR ''x'') ''abc'' [''f'' \<mapsto> ''abc''] abc_shared"
  by (simp add: serves_def abc_shared_def cov_words_def length_emptyCoverage nblocks_def cov_bits_1
      lessThan_Suc last_index_def)

theorem small_file_transfer_witness:
  "\<exists>dsk' pfi'. ofold (transfer_round (\<lambda>_. replicate 32 CHR ''x'') [''f'' \<mapsto> ''abc''] abc_shared) [\<lambda>_. 0]
      (start_file (Writes (\<lambda>_. None)) (Map.empty, abc_shared
         \<lparr>pf_BlockMap := Map.empty, pf_BlockLookup := Map.empty, pf_Coverage := None\<rparr>)) =
      Some (dsk', pfi') \<and> dsk' ''f'' = Some ''abc'' \<and>
    isFullCoverage (pf_Size pfi') (pf_Coverage pfi') = Some True"
  using small_file_transfer [OF abc_serves, where dsk = Map.empty and rnds = "[\<lambda>_. 0]" and
      pfi = "abc_shared\<lparr>pf_BlockMap := Map.empty, pf_BlockLookup := Map.empty, pf_Coverage := None\<rparr>"]
  by (simp add: abc_shared_def nblocks_def last_index_def)

end
