(* ===== verification/WB_State.thy ===== *)
theory WB_State
  imports Peers Download
begin

text \<open>
  The state of a node and the messages it exchanges: \<open>white-box/white-box.go\<close> (types, \<open>New\<close>, keys,
  ids and status), the types of \<open>white-box/kad.go\<close> lines 15-51, \<open>white-box/party.go\<close> lines 29-161 and
  \<open>white-box/files.go\<close> lines 37-52.

  \<^item> A time is the number of nanoseconds since the zero time of Go's package \<open>time\<close>; 0 is the zero time.
    A handler runs at one clock reading \<open>now\<close>.
  \<^item> What a node emits (chats and status lines to its user interface, datagrams to its peers) is
    appended to \<open>wb_out\<close>; the two channels to the user interface are drained by it and do not block.
  \<^item> \<open>lib\<close> collects the code outside the repository: signatures and sealed boxes, JSON, dialling,
    time formatting, SHA-256, the outcome of file system calls, and what Go leaves open (the iteration
    order of maps: \<open>l_keys\<close>; the order \<open>sort.Sort\<close> gives to equal names: \<open>l_sortNames\<close> lists the positions
    of the names in sorted order; \<open>mrand.Intn\<close>: \<open>l_rnd\<close>). Map mutexes that JSON can leave nil are
    modelled; the others are created with their maps.
  \<^item> \<open>PackFileInfo\<close> pointers live in the heap \<open>wb_Files\<close> (\<open>wb_NextFile\<close> is the next free address), since packs and queued blocks share them;
    a pack lists addresses, \<open>None\<close> being the nil pointer that a JSON null leaves.
\<close>

section \<open>Messages\<close>

record Envelope =
  env_Type :: string
  env_From :: string
  env_To :: string
  env_Data :: bytes
  env_Time :: int

record MessageSuggestions =
  sg_Peer :: Peer
  sg_RequestData :: bytes
  sg_SuggestedPeers :: "Peer list"
  sg_Time :: int

record MessageSuggestionRequest =
  sr_Peer :: Peer
  sr_To :: string
  sr_Time :: int

record MessageChat =
  mc_Min :: MinPeer
  mc_Message :: string
  mc_Time :: int

record MessageTime =
  mt_MessageType :: int
  mt_Time :: int

record MessagePing =
  mp_Min :: MinPeer
  mp_MessageType :: int
  mp_Time :: int

record MessageTimePeer =
  tp_Peer :: Peer
  tp_Time :: int

record PartyEnvelope =
  pv_Type :: string
  pv_From :: string
  pv_PartyId :: string
  pv_Data :: bytes

record PartyAnnounce =
  pa_PeerId :: string
  pa_PartyId :: string

record PartyChat =
  pc_PeerId :: string
  pc_PartyId :: string
  pc_Message :: string
  pc_Time :: int

record PartyDisconnect =
  pd_PeerId :: string
  pd_PartyId :: string
  pd_Time :: int

text \<open>The part of a pack that JSON carries: \<open>None\<close> stands for a null in the file list.\<close>

record PackJson =
  pj_Name :: string
  pj_Files :: "PackFileInfo option list"

record PartyAdvertisement =
  ad_PeerId :: string
  ad_PartyId :: string
  ad_Time :: int
  ad_Hash :: string
  ad_Pack :: PackJson

text \<open>\<open>PendingFile\<close> mirrors \<open>PackFileInfo\<close> field by field.\<close>

record PendingPack =
  pp_Name :: string
  pp_Hash :: string
  pp_Files :: "PackFileInfo list"

record DotPack =
  dp_Name :: string
  dp_Files :: "string list"

record PartyRequest =
  rq_PeerId :: string
  rq_PackHash :: string
  rq_FileHash :: string
  rq_Coverage :: "u64 list"
  rq_Time :: int
  rq_PartyId :: string

record PartyFulfillment =
  fl_PeerId :: string
  fl_PackHash :: string
  fl_FileHash :: string
  fl_PartyId :: string
  fl_Block :: Block

section \<open>Parties and the routing table\<close>

record LockingMinList =
  ml_Map :: "(string \<times> int) list option"
  ml_Mutex :: bool

datatype pack_state = AVAILABLE | ACTIVE | COMPLETE

record Pack =
  pk_Name :: string
  pk_Files :: "nat option list"
  pk_State :: pack_state
  pk_Peers :: "string \<rightharpoonup> int"

record PartyLine =
  pl_MinList :: LockingMinList
  pl_Id :: string
  pl_SeenChats :: "string \<rightharpoonup> bool"
  pl_Packs :: "(string \<times> Pack) list"

record PeerEntry =
  pn_Id :: bytes
  pn_Distance :: nat
  pn_Peer :: "Peer option"
  pn_Seen :: int

record PeerCache =
  ca_Added :: bool
  ca_Announced :: bool
  ca_Disconnected :: bool
  ca_Time :: int

definition zeroCache :: PeerCache where
  "zeroCache = \<lparr>ca_Added = False, ca_Announced = False, ca_Disconnected = False, ca_Time = 0\<rparr>"

record Since =
  si_Received :: int
  si_Reported :: int

record VerifiedBlock =
  vb_Block :: Block
  vb_PackFileInfo :: nat
  vb_Hash :: string

record Chat =
  ch_Time :: int
  ch_Id :: string
  ch_Channel :: string
  ch_Message :: string

datatype tone = TONE_LOW | TONE_HIGH

datatype action =
    ChatOut Chat
  | StatusOut tone string
  | WriteOut string bytes

record WhiteBox =
  wb_BsId :: string
  wb_Self :: Self
  wb_PeerSelf :: Peer
  wb_PeerTable :: "PeerEntry list list"
  wb_IdealPeerIds :: "nat option list"
  wb_EmptyList :: bool
  wb_SeenChats :: "string \<rightharpoonup> bool"
  wb_Parties :: "(string \<times> PartyLine) list"
  wb_PendingInvites :: "(string \<times> PartyLine) list"
  wb_PeerCache :: "string \<rightharpoonup> PeerCache"
  wb_SharedDir :: string
  wb_FreshRequests :: "string \<rightharpoonup> Since"
  wb_RequestChan :: "PartyRequest list"
  wb_VerifiedBlockChan :: "VerifiedBlock list"
  wb_NoReroute :: "int \<rightharpoonup> bool"
  wb_Files :: "nat \<rightharpoonup> PackFileInfo"
  wb_NextFile :: nat
  wb_Disk :: disk
  wb_out :: "action list"

section \<open>Code outside the repository\<close>

record lib =
  l_verify :: "bytes \<Rightarrow> bytes \<Rightarrow> bool"
  l_sign :: "bytes \<Rightarrow> bytes option \<Rightarrow> bytes"
  l_sigSize :: nat
  l_seal :: "bytes \<Rightarrow> bytes option \<Rightarrow> bytes option \<Rightarrow> bytes"
  l_open :: "bytes \<Rightarrow> bytes option \<Rightarrow> bytes option \<Rightarrow> bytes option"
  l_spare :: "string \<Rightarrow> bytes"
  l_sha :: "bytes \<Rightarrow> bytes"
  l_dial :: "string \<Rightarrow> bool"
  l_timeString :: "int \<Rightarrow> string"
  l_keys :: "string list \<Rightarrow> string list"
  l_sortNames :: "string list \<Rightarrow> nat list"
  l_rnd :: "nat \<Rightarrow> nat"
  l_abs :: "string \<Rightarrow> string option"
  l_mkdir :: "string \<Rightarrow> bool"
  l_writeFile :: "string \<Rightarrow> bool"
  l_zeroFaults :: "string \<Rightarrow> zero_faults"
  l_toDotPack :: "string \<Rightarrow> DotPack option"
  l_ofPendingPack :: "PendingPack \<Rightarrow> string option"
  l_toEnvelope :: "string \<Rightarrow> Envelope option"
  l_ofEnvelope :: "Envelope \<Rightarrow> string option"
  l_toSuggestions :: "string \<Rightarrow> MessageSuggestions option"
  l_ofSuggestions :: "MessageSuggestions \<Rightarrow> string option"
  l_toSuggestionRequest :: "string \<Rightarrow> MessageSuggestionRequest option"
  l_ofSuggestionRequest :: "MessageSuggestionRequest \<Rightarrow> string option"
  l_toChat :: "string \<Rightarrow> MessageChat option"
  l_ofChat :: "MessageChat \<Rightarrow> string option"
  l_toTime :: "string \<Rightarrow> MessageTime option"
  l_ofTime :: "MessageTime \<Rightarrow> string option"
  l_toPing :: "string \<Rightarrow> MessagePing option"
  l_ofPing :: "MessagePing \<Rightarrow> string option"
  l_toTimePeer :: "string \<Rightarrow> MessageTimePeer option"
  l_ofTimePeer :: "MessageTimePeer \<Rightarrow> string option"
  l_toPartyEnvelope :: "string \<Rightarrow> PartyEnvelope option"
  l_ofPartyEnvelope :: "PartyEnvelope \<Rightarrow> string option"
  l_toPartyAnnounce :: "string \<Rightarrow> PartyAnnounce option"
  l_ofPartyAnnounce :: "PartyAnnounce \<Rightarrow> string option"
  l_toPartyChat :: "string \<Rightarrow> PartyChat option"
  l_ofPartyChat :: "PartyChat \<Rightarrow> string option"
  l_toPartyDisconnect :: "string \<Rightarrow> PartyDisconnect option"
  l_ofPartyDisconnect :: "PartyDisconnect \<Rightarrow> string option"
  l_toAdvertisement :: "string \<Rightarrow> PartyAdvertisement option"
  l_ofAdvertisement :: "PartyAdvertisement \<Rightarrow> string option"
  l_toRequest :: "string \<Rightarrow> PartyRequest option"
  l_ofRequest :: "PartyRequest \<Rightarrow> string option"
  l_toFulfillment :: "string \<Rightarrow> PartyFulfillment option"
  l_ofFulfillment :: "PartyFulfillment \<Rightarrow> string option"
  l_toParty :: "string \<Rightarrow> PartyLine option"
  l_ofParty :: "PartyLine \<Rightarrow> string option"

section \<open>Status, chats and datagrams\<close>

definition emit :: "action \<Rightarrow> WhiteBox \<Rightarrow> WhiteBox" where
  "emit a wb = wb\<lparr>wb_out := wb_out wb @ [a]\<rparr>"

definition setStatus :: "string \<Rightarrow> WhiteBox \<Rightarrow> WhiteBox" where
  "setStatus message wb = emit (StatusOut TONE_LOW message) wb"

definition chatStatus :: "string \<Rightarrow> WhiteBox \<Rightarrow> WhiteBox" where
  "chatStatus message wb = emit (StatusOut TONE_HIGH message) wb"

definition addChat :: "Chat \<Rightarrow> WhiteBox \<Rightarrow> WhiteBox" where
  "addChat chat wb = emit (ChatOut chat) wb"

text \<open>\<open>peer.Conn.Write\<close> of a JSON line; a nil connection panics, and write errors are ignored.\<close>

definition conn_write :: "string option \<Rightarrow> string \<Rightarrow> WhiteBox \<Rightarrow> WhiteBox go" where
  "conn_write conn json wb = (case conn of
     None \<Rightarrow> Panic
   | Some addr \<Rightarrow> Ret (emit (WriteOut addr (json @ [char_of (10 :: nat)])) wb))"

lemma emit_simps [simp, go_simps]:
  "wb_out (emit a wb) = wb_out wb @ [a]" "wb_PeerTable (emit a wb) = wb_PeerTable wb"
  "wb_IdealPeerIds (emit a wb) = wb_IdealPeerIds wb" "wb_PeerCache (emit a wb) = wb_PeerCache wb"
  "wb_EmptyList (emit a wb) = wb_EmptyList wb" "wb_PeerSelf (emit a wb) = wb_PeerSelf wb"
  "wb_Self (emit a wb) = wb_Self wb" "wb_SeenChats (emit a wb) = wb_SeenChats wb"
  "wb_NoReroute (emit a wb) = wb_NoReroute wb" "wb_Parties (emit a wb) = wb_Parties wb"
  "wb_PendingInvites (emit a wb) = wb_PendingInvites wb" "wb_FreshRequests (emit a wb) = wb_FreshRequests wb"
  "wb_RequestChan (emit a wb) = wb_RequestChan wb" "wb_VerifiedBlockChan (emit a wb) = wb_VerifiedBlockChan wb"
  "wb_Files (emit a wb) = wb_Files wb" "wb_Disk (emit a wb) = wb_Disk wb"
  "wb_NextFile (emit a wb) = wb_NextFile wb" "wb_BsId (emit a wb) = wb_BsId wb" "wb_SharedDir (emit a wb) = wb_SharedDir wb"
  by (simp_all add: emit_def)

section \<open>Ids and keys of a node\<close>

definition IdFront :: "lib \<Rightarrow> string \<Rightarrow> WhiteBox \<Rightarrow> (string option \<times> WhiteBox) go" where
  "IdFront L peerId wb = do {
     r \<leftarrow> IdToMin (l_spare L) peerId;
     case r of
       Inl err \<Rightarrow> Ret (None, setStatus err wb)
     | Inr minp \<Rightarrow> Ret (Some (hexEncode (mi_SignPub minp)), wb) }"

definition IdBack :: "lib \<Rightarrow> string \<Rightarrow> WhiteBox \<Rightarrow> (string option \<times> WhiteBox) go" where
  "IdBack L peerId wb = do {
     r \<leftarrow> IdToMin (l_spare L) peerId;
     case r of
       Inl err \<Rightarrow> Ret (None, setStatus err wb)
     | Inr minp \<Rightarrow> (case mi_EncPub minp of
           None \<Rightarrow> Panic
         | Some enc \<Rightarrow> Ret (Some (hexEncode enc), wb)) }"

text \<open>A nil slice and an empty one are the same where the code reads them.\<close>

definition slice :: "bytes option \<Rightarrow> bytes" where
  "slice b = (case b of None \<Rightarrow> [] | Some bs \<Rightarrow> bs)"

text \<open>\<open>SetSelf\<close>; its last statement logs the id, which panics when the encryption key is nil.\<close>

definition SetSelf :: "Self \<Rightarrow> WhiteBox \<Rightarrow> WhiteBox go" where
  "SetSelf self wb =
     (let wb = wb\<lparr>wb_Self := self,
            wb_PeerSelf := (wb_PeerSelf wb)\<lparr>pe_SignPub := slice (se_SignPub self),
              pe_EncPub := se_EncPub self, pe_Address := se_Address self\<rparr>\<rparr>
      in do { _ \<leftarrow> Peer_Id (wb_PeerSelf wb); Ret wb })"

text \<open>
  \<open>GetKeys\<close>: \<open>fresh\<close> are the four keys the random generator makes (public and private signing key,
  public and private encryption key), \<open>None\<close> when it fails and the process exits.
\<close>

definition GetKeys :: "(bytes \<times> bytes \<times> bytes \<times> bytes) option \<Rightarrow> string \<Rightarrow> WhiteBox \<Rightarrow> WhiteBox go" where
  "GetKeys fresh address wb = do {
     self \<leftarrow> (let self = (wb_Self wb)\<lparr>se_Address := address\<rparr> in
       if selfZero self
       then (case fresh of
               None \<Rightarrow> Panic
             | Some (signPub, signPrv, encPub, encPrv) \<Rightarrow>
                 Ret (self\<lparr>se_SignPub := Some signPub, se_SignPrv := Some signPrv,
                   se_EncPub := Some encPub, se_EncPrv := Some encPrv\<rparr>))
       else Ret self);
     SetSelf self wb }"

end
