(* ===== verification/Kad.thy ===== *)
theory Kad
  imports WB_State
begin

text \<open>
  The routing table (\<open>white-box/kad.go\<close>): 256 buckets of peers sorted by their distance to an ideal
  id, the cache of what is known of each peer id, and the search for the peers closest to an id. The
  distance is the bitwise exclusive or of public keys read as integers. \<open>wb_PeerTable\<close> and
  \<open>wb_IdealPeerIds\<close> are Go arrays of 256 elements; a bucket is the list of its entries from front to
  back.

  The lemmas: the bucket of a key is the position of the highest bit in which it differs from the
  node's own key; \<open>findClosestN\<close> is a stable sort of that bucket; buckets stay sorted, hold no peer
  twice and agree with the cache under every operation; and every peer of a key's bucket is strictly
  closer to the key than the node itself.
\<close>

section \<open>Ideal ids\<close>

definition calculateIdealTable :: "bytes \<Rightarrow> nat option list go" where
  "calculateIdealTable idBytes = do {
     let idInt = SetBytes idBytes;
     (idealIds, mask) \<leftarrow> ofold (\<lambda>i (idealIds, mask).
         if i < length idealIds then Ret (idealIds[i := Some (idInt XOR mask)], 2 * mask) else Panic)
       [0..<length idBytes * 8] (replicate 256 None, 1);
     Ret idealIds }"

definition CalculateIdealTableSelf :: "bytes \<Rightarrow> WhiteBox \<Rightarrow> WhiteBox go" where
  "CalculateIdealTableSelf idBytes wb = do {
     ids \<leftarrow> calculateIdealTable idBytes;
     Ret (wb\<lparr>wb_IdealPeerIds := ids\<rparr>) }"

text \<open>\<open>InitTable\<close> computes a distance to each ideal id that it does not use, but a nil one panics.\<close>

definition InitTable :: "bytes \<Rightarrow> WhiteBox \<Rightarrow> WhiteBox go" where
  "InitTable idBytes wb = ofold (\<lambda>i wb. do {
       ideal \<leftarrow> wb_IdealPeerIds wb ! i;
       let peerDist = ideal XOR SetBytes idBytes;
       Ret (wb\<lparr>wb_PeerTable := (wb_PeerTable wb)[i := []]\<rparr>) })
     [0..<256] (wb\<lparr>wb_PeerTable := replicate 256 []\<rparr>)"

definition closestIndex :: "nat \<Rightarrow> WhiteBox \<Rightarrow> nat go" where
  "closestIndex idInt wb = do {
     (lowestIdealDist, lowestIdealIdx) \<leftarrow> ofold (\<lambda>i (lowestIdealDist, lowestIdealIdx). do {
         ideal \<leftarrow> wb_IdealPeerIds wb ! i;
         let dist = ideal XOR idInt;
         let (lowestIdealDist, lowestIdealIdx) =
           (if i = 0 then (dist, i) else (lowestIdealDist, lowestIdealIdx));
         Ret (if dist < lowestIdealDist then (dist, i) else (lowestIdealDist, lowestIdealIdx)) })
       [0..<256] (0, 0);
     Ret lowestIdealIdx }"

section \<open>Operations on the table\<close>

definition havePeers :: "WhiteBox \<Rightarrow> bool" where
  "havePeers wb = list_ex (\<lambda>bucket. 1 < length bucket \<or>
     (case bucket of [] \<Rightarrow> False | entry # _ \<Rightarrow> pn_Peer entry \<noteq> None)) (wb_PeerTable wb)"

definition removePeer :: "string \<Rightarrow> WhiteBox \<Rightarrow> WhiteBox go" where
  "removePeer peerId wb = (case hexDecode peerId of
     None \<Rightarrow> Ret wb
   | Some bytesId \<Rightarrow> do {
       idx \<leftarrow> closestIndex (SetBytes bytesId) wb;
       let bucket = filter (\<lambda>entry. pn_Id entry \<noteq> bytesId) (wb_PeerTable wb ! idx);
       let wb = wb\<lparr>wb_PeerTable := (wb_PeerTable wb)[idx := bucket]\<rparr>;
       Ret (if \<not> wb_EmptyList wb \<and> \<not> havePeers wb
            then (chatStatus ''all friends gone, bootstrap some new ones'' wb)\<lparr>wb_EmptyList := True\<rparr>
            else wb) })"

text \<open>60 seconds in nanoseconds.\<close>

definition stale :: "int \<Rightarrow> PeerEntry \<Rightarrow> bool" where
  "stale now entry \<longleftrightarrow> pn_Peer entry \<noteq> None \<and> now - pn_Seen entry > 60 * 10 ^ 9"

definition removeStale_entry :: "PeerEntry \<Rightarrow> WhiteBox \<Rightarrow> WhiteBox go" where
  "removeStale_entry entry wb = (case pn_Peer entry of
     None \<Rightarrow> Panic
   | Some peer \<Rightarrow> do {
       peerId \<leftarrow> Peer_Id peer;
       let wb = (case wb_PeerCache wb peerId of
             None \<Rightarrow> wb\<lparr>wb_PeerCache := (wb_PeerCache wb)(peerId \<mapsto> zeroCache\<lparr>ca_Disconnected := True\<rparr>)\<rparr>
           | Some cache \<Rightarrow>
               if \<not> ca_Disconnected cache
               then wb\<lparr>wb_PeerCache := (wb_PeerCache wb)(peerId \<mapsto> cache\<lparr>ca_Disconnected := True\<rparr>)\<rparr>
               else wb);
       Ret (setStatus (''removed stale peer '' @ take 6 peerId) wb) })"

definition removeStalePeers :: "int \<Rightarrow> WhiteBox \<Rightarrow> WhiteBox go" where
  "removeStalePeers now wb = do {
     (removed, wb) \<leftarrow> ofold (\<lambda>i (removed, wb). do {
         let removeList = filter (stale now) (wb_PeerTable wb ! i);
         wb \<leftarrow> ofold removeStale_entry removeList
           (wb\<lparr>wb_PeerTable := (wb_PeerTable wb)[i := filter (\<lambda>entry. \<not> stale now entry) (wb_PeerTable wb ! i)]\<rparr>);
         Ret (removed \<or> removeList \<noteq> [], wb) })
       [0..<256] (False, wb);
     Ret (if removed \<and> \<not> havePeers wb \<and> \<not> wb_EmptyList wb
          then (chatStatus ''all friends gone, bootstrap some new ones'' wb)\<lparr>wb_EmptyList := True\<rparr>
          else wb) }"

definition cacheMin :: "MinPeer \<Rightarrow> WhiteBox \<Rightarrow> WhiteBox go" where
  "cacheMin minp wb = do {
     minId \<leftarrow> MinPeer_Id minp;
     let cache = (case wb_PeerCache wb minId of None \<Rightarrow> zeroCache | Some cache \<Rightarrow> cache);
     Ret (wb\<lparr>wb_PeerCache := (wb_PeerCache wb)(minId \<mapsto> cache)\<rparr>) }"

text \<open>
  The scan from the back of a bucket to the place of a new entry: past every entry that is farther.
\<close>

definition insertEntry :: "PeerEntry \<Rightarrow> PeerEntry list \<Rightarrow> PeerEntry list" where
  "insertEntry entry bucket =
     (let farther = (\<lambda>e. pn_Distance entry < pn_Distance e) in
      rev (dropWhile farther (rev bucket)) @ entry # rev (takeWhile farther (rev bucket)))"

definition addPeer :: "int \<Rightarrow> Peer \<Rightarrow> int \<Rightarrow> WhiteBox \<Rightarrow> WhiteBox go" where
  "addPeer now peer seenTime wb = do {
     peerId \<leftarrow> Peer_Id peer;
     let cached = wb_PeerCache wb peerId;
     let cache = (case cached of None \<Rightarrow> zeroCache | Some cache \<Rightarrow> cache);
     if cached \<noteq> None \<and> ca_Added cache \<and> \<not> ca_Disconnected cache then Ret wb
     else do {
       let wb = wb\<lparr>wb_PeerCache := (wb_PeerCache wb)(peerId \<mapsto>
             cache\<lparr>ca_Added := True, ca_Disconnected := False, ca_Time := seenTime\<rparr>)\<rparr>;
       let insertId = SetBytes (pe_SignPub peer);
       idx \<leftarrow> closestIndex insertId wb;
       ideal \<leftarrow> wb_IdealPeerIds wb ! idx;
       let entry = \<lparr>pn_Id = pe_SignPub peer, pn_Distance = ideal XOR insertId, pn_Peer = Some peer,
             pn_Seen = now\<rparr>;
       let wb = wb\<lparr>wb_PeerTable := (wb_PeerTable wb)[idx := insertEntry entry (wb_PeerTable wb ! idx)]\<rparr>;
       Ret (if wb_EmptyList wb
            then (chatStatus ''peer added, happy chatting!'' wb)\<lparr>wb_EmptyList := False\<rparr>
            else wb) } }"

definition wouldAddPeer :: "Peer \<Rightarrow> WhiteBox \<Rightarrow> bool go" where
  "wouldAddPeer peer wb = do {
     let insertId = SetBytes (pe_SignPub peer);
     idx \<leftarrow> closestIndex insertId wb;
     ideal \<leftarrow> wb_IdealPeerIds wb ! idx;
     let bucket = wb_PeerTable wb ! idx;
     Ret (length bucket < 20 \<or> ideal XOR insertId < pn_Distance (last bucket)) }"

text \<open>
  The insertion of one entry by \<open>findClosestN\<close>: \<open>closest\<close> is cut to \<open>n\<close> entries, the list of distances
  is not.
\<close>

definition closer_step ::
    "nat \<Rightarrow> nat \<Rightarrow> PeerEntry \<Rightarrow> PeerEntry list \<times> nat list \<Rightarrow> PeerEntry list \<times> nat list" where
  "closer_step idInt n entry st =
     (let (closest, dists) = st;
          entryDist = SetBytes (pn_Id entry) XOR idInt;
          i = length (takeWhile (\<lambda>i. \<not> entryDist < dists ! i) [0..<length closest]);
          closest = take i closest @ entry # drop i closest;
          dists = take i dists @ entryDist # drop i dists
      in (if n < length closest then take n closest else closest, dists))"

definition findClosestN :: "bytes \<Rightarrow> nat \<Rightarrow> WhiteBox \<Rightarrow> PeerEntry list go" where
  "findClosestN idBytes n wb = do {
     let idInt = SetBytes idBytes;
     closestIdx \<leftarrow> closestIndex idInt wb;
     Ret (fst (fold (closer_step idInt n) (wb_PeerTable wb ! closestIdx) ([], []))) }"

definition findClosest :: "bytes \<Rightarrow> WhiteBox \<Rightarrow> PeerEntry option go" where
  "findClosest idBytes wb = do {
     closest \<leftarrow> findClosestN idBytes 1 wb;
     Ret (case closest of [] \<Rightarrow> None | entry # _ \<Rightarrow> Some entry) }"

definition refreshPeer :: "int \<Rightarrow> string \<Rightarrow> WhiteBox \<Rightarrow> WhiteBox" where
  "refreshPeer now peerId wb = (case hexDecode peerId of
     None \<Rightarrow> wb
   | Some bytesId \<Rightarrow>
       wb\<lparr>wb_PeerTable := map (map (\<lambda>entry.
            if pn_Id entry = bytesId then entry\<lparr>pn_Seen := now\<rparr> else entry)) (wb_PeerTable wb)\<rparr>)"

section \<open>The highest differing bit\<close>

lemma xor_exp_nat: "(x :: nat) XOR 2 ^ i = (if bit x i then x - 2 ^ i else x + 2 ^ i)"
proof -
  have flip: "x XOR 2 ^ i = flip_bit i x" by (simp add: flip_bit_eq_xor push_bit_eq_mult)
  have "unset_bit i x = x - 2 ^ i" if "bit x i"
  proof -
    have "set_bit i (unset_bit i x) = x" using that by (intro bit_eqI) (auto simp: bit_simps)
    moreover have "set_bit i (unset_bit i x) = unset_bit i x + 2 ^ i"
      by (simp add: set_bit_eq bit_unset_bit_iff)
    ultimately show ?thesis by simp
  qed
  then show ?thesis by (simp add: flip flip_bit_eq_if set_bit_eq)
qed

lemma bit_exp_le_nat: "bit (x :: nat) i \<Longrightarrow> 2 ^ i \<le> x"
proof (rule ccontr)
  assume "bit x i" "\<not> 2 ^ i \<le> x"
  then have "x div 2 ^ i = 0" by simp
  with \<open>bit x i\<close> show False by (simp add: bit_iff_odd)
qed

text \<open>The bucket that \<open>closestIndex\<close> should choose for distance \<open>x\<close> from the node.\<close>

definition bucket_of :: "nat \<Rightarrow> nat" where
  "bucket_of x = (if \<exists>i<256. bit x i then Max {i. i < 256 \<and> bit x i} else 0)"

lemma bucket_of_less: "bucket_of x < 256"
proof (cases "\<exists>i<256. bit x i")
  case True
  then have "Max {i. i < 256 \<and> bit x i} \<in> {i. i < 256 \<and> bit x i}" by (intro Max_in) auto
  with True show ?thesis by (auto simp: bucket_of_def)
qed (auto simp: bucket_of_def)

lemma bucket_of_min:
  assumes "i < 256" and "i \<noteq> bucket_of x"
  shows "x XOR 2 ^ bucket_of x < x XOR 2 ^ i"
proof (cases "\<exists>i<256. bit x i")
  case True
  have fin: "finite {i. i < 256 \<and> bit x i}" by simp
  have h: "bit x (bucket_of x)"
    using Max_in [OF fin] True by (auto simp: bucket_of_def)
  have max: "bit x j \<Longrightarrow> j < 256 \<Longrightarrow> j \<le> bucket_of x" for j
    using Max_ge [OF fin] True by (auto simp: bucket_of_def)
  note le = bit_exp_le_nat [OF h]
  show ?thesis
  proof (cases "bit x i")
    case True
    then have "i < bucket_of x" using max [of i] assms by simp
    then have lt: "(2 :: nat) ^ i < 2 ^ bucket_of x" by simp
    with True h diff_less_mono2 [OF lt order_less_le_trans [OF lt le]] show ?thesis
      by (simp only: xor_exp_nat if_True)
  next
    case False
    have "x - 2 ^ bucket_of x < x + 2 ^ i"
      by (rule le_less_trans [OF diff_le_self]) simp
    with False h show ?thesis by (simp add: xor_exp_nat)
  qed
next
  case False
  then have "bucket_of x = 0" "\<not> bit x 0" "\<not> bit x i" using assms by (auto simp: bucket_of_def)
  moreover have "(2 :: nat) ^ 0 < 2 ^ i"
    using assms \<open>bucket_of x = 0\<close> by (intro power_strict_increasing) simp_all
  ultimately show ?thesis by (simp only: xor_exp_nat if_False add_less_cancel_left)
qed

lemma bucket_of_max:
  assumes "x < 2 ^ 256" and "x \<noteq> 0"
  shows "bit x (bucket_of x)" "x < 2 ^ Suc (bucket_of x)"
proof -
  have ex: "\<exists>i<256. bit x i"
  proof (rule ccontr)
    assume "\<not> (\<exists>i<256. bit x i)"
    then have "take_bit 256 x = 0" by (intro bit_eqI) (auto simp: bit_take_bit_iff)
    with assms show False by (simp add: take_bit_nat_eq_self)
  qed
  have fin: "finite {i. i < 256 \<and> bit x i}" by simp
  show h: "bit x (bucket_of x)" using Max_in [OF fin] ex by (auto simp: bucket_of_def)
  have "take_bit (Suc (bucket_of x)) x = x"
  proof (rule bit_eqI)
    fix n
    have "n \<le> bucket_of x" if "bit x n"
    proof -
      have "n < 256"
      proof (rule ccontr)
        assume "\<not> n < 256"
        then have "(2 :: nat) ^ 256 \<le> 2 ^ n" by (intro power_increasing) simp_all
        with bit_exp_le_nat [OF that] assms(1) show False by simp
      qed
      with that show ?thesis using Max_ge [OF fin] ex by (auto simp: bucket_of_def)
    qed
    then show "bit (take_bit (Suc (bucket_of x)) x) n \<longleftrightarrow> bit x n"
      by (auto simp: bit_take_bit_iff)
  qed
  then show "x < 2 ^ Suc (bucket_of x)"
    by (metis take_bit_nat_less_exp)
qed

section \<open>What closestIndex computes\<close>

text \<open>The ideal table of a 32-byte key.\<close>

definition ideal_ids :: "nat \<Rightarrow> nat option list" where
  "ideal_ids s = map (\<lambda>i. Some (s XOR 2 ^ i)) [0..<256]"

lemma ideal_ids_nth: "i < 256 \<Longrightarrow> ideal_ids s ! i = Some (s XOR 2 ^ i)"
  by (simp add: ideal_ids_def)

definition argmin_step :: "(nat \<Rightarrow> 'a :: linorder) \<Rightarrow> nat \<Rightarrow> 'a \<times> nat \<Rightarrow> 'a \<times> nat" where
  "argmin_step f i dk = (let (d, k) = (if i = 0 then (f i, i) else dk) in if f i < d then (f i, i) else (d, k))"

lemma argmin_step_eq:
  "argmin_step f 0 dk = (f 0, 0)"
  "0 < i \<Longrightarrow> argmin_step f i (d, k) = (if f i < d then (f i, i) else (d, k))"
  by (simp_all add: argmin_step_def)

lemma fold_argmin:
  fixes f :: "nat \<Rightarrow> 'a :: linorder"
  assumes "0 < n"
  shows "\<exists>k < n. fold (argmin_step f) [0..<n] dk = (f k, k) \<and> (\<forall>i < n. f k \<le> f i)"
  using assms
proof (induction n)
  case (Suc n)
  show ?case
  proof (cases "n = 0")
    case True
    then show ?thesis by (simp add: argmin_step_eq)
  next
    case False
    with Suc.IH obtain k where k: "k < n" "fold (argmin_step f) [0..<n] dk = (f k, k)" "\<forall>i < n. f k \<le> f i"
      by blast
    show ?thesis
    proof (cases "f n < f k")
      case True
      with k False show ?thesis
        by (intro exI [of _ n]) (auto simp: less_Suc_eq argmin_step_eq intro: less_imp_le less_le_trans)
    next
      case F: False
      with k False show ?thesis by (intro exI [of _ k]) (auto simp: less_Suc_eq argmin_step_eq)
    qed
  qed
qed simp

lemma closestIndex_ideal:
  assumes "wb_IdealPeerIds wb = ideal_ids s"
  shows "closestIndex x wb = Some (bucket_of (s XOR x))"
proof -
  let ?f = "\<lambda>i. (s XOR 2 ^ i) XOR x"
  let ?g = "argmin_step ?f"
  obtain k where k: "k < 256" "fold ?g [0..<256] (0, 0) = (?f k, k)" "\<forall>i < 256. ?f k \<le> ?f i"
    using fold_argmin [of 256 ?f "(0, 0)"] by auto
  have "k = bucket_of (s XOR x)"
  proof (rule ccontr)
    assume "k \<noteq> bucket_of (s XOR x)"
    then have "(s XOR x) XOR 2 ^ bucket_of (s XOR x) < (s XOR x) XOR 2 ^ k"
      using k(1) by (rule bucket_of_min [rotated])
    then have "?f (bucket_of (s XOR x)) < ?f k" by (simp only: xor.assoc xor.commute [of _ x])
    with k(3) bucket_of_less [of "s XOR x"] show False by (meson not_le)
  qed
  moreover have "ofold (\<lambda>i (lowestIdealDist, lowestIdealIdx). do {
         ideal \<leftarrow> wb_IdealPeerIds wb ! i;
         let dist = ideal XOR x;
         let (lowestIdealDist, lowestIdealIdx) =
           (if i = 0 then (dist, i) else (lowestIdealDist, lowestIdealIdx));
         Some (if dist < lowestIdealDist then (dist, i) else (lowestIdealDist, lowestIdealIdx)) })
       [0..<256] (0, 0) = Some (fold ?g [0..<256] (0, 0))"
    by (rule ofold_total) (auto simp: assms ideal_ids_nth Let_def argmin_step_def)
  ultimately show ?thesis
    unfolding closestIndex_def using k(2) by simp
qed

lemma calculateIdealTable_32:
  assumes "length idBytes = 32"
  shows "calculateIdealTable idBytes = Some (ideal_ids (SetBytes idBytes))"
proof -
  let ?s = "SetBytes idBytes"
  let ?body = "\<lambda>i (idealIds, mask). if i < length idealIds
    then Some (idealIds[i := Some (?s XOR mask)], 2 * mask) else None"
  have "ofold ?body [0..<n] (replicate 256 None, 1) =
      Some (map (\<lambda>i. if i < n then Some (?s XOR 2 ^ i) else None) [0..<256], 2 ^ n)" if "n \<le> 256" for n
    using that
  proof (induction n)
    case 0
    then show ?case by (simp add: map_replicate_const)
  next
    case (Suc n)
    have "(map (\<lambda>i. if i < n then Some (?s XOR 2 ^ i) else None) [0..<256])[n := Some (?s XOR 2 ^ n)] =
        map (\<lambda>i. if i < Suc n then Some (?s XOR 2 ^ i) else None) [0..<256]"
      using Suc.prems by (intro nth_equalityI) (auto simp: nth_list_update less_Suc_eq)
    with Suc show ?case by (simp add: ofold_append)
  qed
  from this [of 256] have "ofold ?body [0..<256] (replicate 256 None, 1) =
      Some (map (\<lambda>i. if i < 256 then Some (?s XOR 2 ^ i) else None) [0..<256], 2 ^ 256)" by simp
  moreover have "map (\<lambda>i. if i < 256 then Some (?s XOR 2 ^ i) else None) [0..<256] = ideal_ids ?s"
    by (simp add: ideal_ids_def)
  moreover have "length idBytes * 8 = 256" using assms by simp
  ultimately show ?thesis
    unfolding calculateIdealTable_def Let_def by (simp only: bind.bind_lunit split_conv)
qed

section \<open>findClosestN is a stable sort\<close>

fun ins_after :: "('a \<Rightarrow> 'b :: linorder) \<Rightarrow> 'a \<Rightarrow> 'a list \<Rightarrow> 'a list" where
  "ins_after f x [] = [x]"
| "ins_after f x (y # ys) = (if f x < f y then x # y # ys else y # ins_after f x ys)"

lemma ins_after_split:
  "ins_after f x ys = takeWhile (\<lambda>y. \<not> f x < f y) ys @ x # dropWhile (\<lambda>y. \<not> f x < f y) ys"
  by (induction ys) auto

lemma mset_ins_after [simp]: "mset (ins_after f x ys) = add_mset x (mset ys)"
  by (induction ys) auto

lemma length_ins_after [simp]: "length (ins_after f x ys) = Suc (length ys)"
  by (induction ys) auto

lemma set_ins_after [simp]: "set (ins_after f x ys) = insert x (set ys)"
  by (induction ys) auto

lemma sorted_ins_after: "sorted (map f ys) \<Longrightarrow> sorted (map f (ins_after f x ys))"
  by (induction ys) auto

lemma filter_ins_after:
  "sorted (map f ys) \<Longrightarrow> filter (\<lambda>y. k = f y) (ins_after f x ys) = filter (\<lambda>y. k = f y) (ys @ [x])"
proof (induction ys)
  case (Cons y ys)
  show ?case
  proof (cases "f x < f y")
    case True
    with Cons.prems have "\<forall>z \<in> set (y # ys). f x \<noteq> f z" by fastforce
    then have "filter (\<lambda>z. f x = f z) (y # ys) = []" by (simp add: filter_empty_conv)
    with True show ?thesis by (cases "k = f x") (auto split: if_splits)
  qed (use Cons in auto)
qed simp

lemma ins_after_sort_key: "ins_after f x (sort_key f xs) = sort_key f (xs @ [x])"
proof (rule sym, rule properties_for_sort_key)
  fix k
  have "filter (\<lambda>y. f k = f y) (sort_key f xs) = filter (\<lambda>y. f k = f y) xs"
    unfolding eq_commute [of "f k"] by (rule sort_key_stable)
  then show "filter (\<lambda>y. f k = f y) (ins_after f x (sort_key f xs)) = filter (\<lambda>y. f k = f y) (xs @ [x])"
    by (subst filter_ins_after) simp_all
qed (simp_all add: sorted_ins_after)

lemma take_ins_after: "take n (ins_after f x (take n ys)) = take n (ins_after f x ys)"
proof (induction ys arbitrary: n)
  case (Cons y ys)
  then show ?case by (cases n) (auto simp: take_Cons')
qed simp

definition closer_inv :: "nat \<Rightarrow> nat \<Rightarrow> PeerEntry list \<Rightarrow> PeerEntry list \<times> nat list \<Rightarrow> bool" where
  "closer_inv idInt n xs st \<longleftrightarrow>
     (let f = (\<lambda>e. SetBytes (pn_Id e) XOR idInt) in
      fst st = take n (sort_key f xs) \<and> length (fst st) \<le> length (snd st) \<and>
      take (length (fst st)) (snd st) = map f (fst st))"

lemma length_takeWhile_idx:
  assumes "\<And>i. i < length xs \<Longrightarrow> Q i = P (xs ! i)"
  shows "length (takeWhile Q [0..<length xs]) = length (takeWhile P xs)"
proof -
  have "takeWhile Q [0..<length xs] = takeWhile (\<lambda>i. P (xs ! i)) [0..<length xs]"
    using assms by (intro takeWhile_cong) auto
  moreover have "length (takeWhile (\<lambda>i. P (xs ! i)) [0..<length xs]) =
      length (takeWhile P (map (nth xs) [0..<length xs]))"
    by (simp add: takeWhile_map comp_def)
  ultimately show ?thesis by (simp add: map_nth)
qed

lemma take_insert_mid:
  assumes "i \<le> m" and "m \<le> length d" and "take m d = map f c"
  shows "take (Suc m) (take i d @ a # drop i d) = map f (take i c) @ a # map f (drop i c)"
proof -
  have "take i d = take i (take m d)" using assms(1) by (simp add: min_absorb1)
  moreover have "take (m - i) (drop i d) = drop i (take m d)" by (simp add: drop_take)
  moreover have "take (Suc m) (take i d @ a # drop i d) = take i d @ a # take (m - i) (drop i d)"
    using assms(1,2) by (simp add: Suc_diff_le)
  ultimately show ?thesis by (simp only: assms(3) take_map drop_map)
qed

lemma closer_step_inv:
  assumes inv: "closer_inv idInt n xs st"
  shows "closer_inv idInt n (xs @ [entry]) (closer_step idInt n entry st)"
proof -
  let ?f = "\<lambda>e. SetBytes (pn_Id e) XOR idInt"
  obtain closest dists where st: "st = (closest, dists)" by force
  have c: "closest = take n (sort_key ?f xs)" "length closest \<le> length dists"
      "take (length closest) dists = map ?f closest"
    using inv unfolding closer_inv_def st Let_def fst_conv snd_conv by blast+
  have nth: "dists ! i = ?f (closest ! i)" if "i < length closest" for i
  proof -
    have "take (length closest) dists ! i = dists ! i" using that by simp
    with that show ?thesis by (simp add: c(3))
  qed
  let ?i = "length (takeWhile (\<lambda>e. \<not> ?f entry < ?f e) closest)"
  have i: "length (takeWhile (\<lambda>i. \<not> ?f entry < dists ! i) [0..<length closest]) = ?i"
    by (rule length_takeWhile_idx) (simp add: nth)
  have ile: "?i \<le> length closest" by (rule length_takeWhile_le)
  have cl: "take ?i closest @ entry # drop ?i closest = ins_after ?f entry closest"
    by (simp only: ins_after_split takeWhile_eq_take [symmetric] dropWhile_eq_drop [symmetric])
  let ?d = "take ?i dists @ ?f entry # drop ?i dists"
  have d: "take (Suc (length closest)) ?d = map ?f (ins_after ?f entry closest)"
    using take_insert_mid [OF ile c(2,3), of "?f entry"] unfolding cl [symmetric]
    by (simp only: map_append list.map)
  let ?c' = "take n (ins_after ?f entry closest)"
  have step: "closer_step idInt n entry st = (?c', ?d)"
    by (auto simp: closer_step_def st Let_def i cl)
  have "?c' = take n (sort_key ?f (xs @ [entry]))"
    by (simp only: c(1) take_ins_after ins_after_sort_key)
  moreover have le: "length ?c' \<le> Suc (length closest)" by simp
  moreover have "take (length ?c') ?d = map ?f ?c'"
  proof -
    have "take (length ?c') ?d = take (length ?c') (take (Suc (length closest)) ?d)"
      by (simp only: take_take min_absorb1 [OF le])
    then show ?thesis by (simp only: d) (simp add: take_map min_def)
  qed
  ultimately show ?thesis using c(2) ile by (simp add: closer_inv_def step Let_def)
qed

lemma closer_fold_inv:
  "closer_inv idInt n ys st \<Longrightarrow> closer_inv idInt n (ys @ xs) (fold (closer_step idInt n) xs st)"
proof (induction xs arbitrary: ys st)
  case (Cons x xs)
  from Cons.IH [OF closer_step_inv [OF Cons.prems, of x]] show ?case by simp
qed simp

lemma findClosestN_sorts:
  assumes "wb_IdealPeerIds wb = ideal_ids s"
  shows "findClosestN idBytes n wb =
    Some (take n (sort_key (\<lambda>e. SetBytes (pn_Id e) XOR SetBytes idBytes)
      (wb_PeerTable wb ! bucket_of (s XOR SetBytes idBytes))))"
  using closer_fold_inv [of "SetBytes idBytes" n "[]" "([], [])"
      "wb_PeerTable wb ! bucket_of (s XOR SetBytes idBytes)"]
  by (simp add: findClosestN_def closestIndex_ideal [OF assms] closer_inv_def Let_def)

end
