(* ===== verification/Paths.thy ===== *)
theory Paths
  imports PL_Prelude
begin

text \<open>
  \<open>path/filepath\<close> of the Go standard library on Unix, as far as the program uses it: \<open>Clean\<close>,
  \<open>Join\<close> and \<open>Dir\<close> (\<open>white-box/files.go\<close> and \<open>white-box/party.go\<close> build the paths of shared and downloaded
  files with them).
\<close>

definition clean_step :: "bool \<Rightarrow> string \<Rightarrow> string list \<Rightarrow> string list" where
  "clean_step rooted c out =
     (if c = [] \<or> c = ''.'' then out
      else if c = ''..'' then
        (if out \<noteq> [] \<and> last out \<noteq> ''..'' then butlast out
         else if rooted then out else out @ [''..''])
      else out @ [c])"

definition clean_parts :: "bool \<Rightarrow> string list \<Rightarrow> string list" where
  "clean_parts rooted cs = fold (clean_step rooted) cs []"

definition path_string :: "bool \<Rightarrow> string list \<Rightarrow> string" where
  "path_string rooted out =
     (if rooted then ''/'' @ join ''/'' out else if out = [] then ''.'' else join ''/'' out)"

definition Clean :: "string \<Rightarrow> string" where
  "Clean path =
     (if path = [] then ''.''
      else let rooted = (hd path = CHR ''/'')
           in path_string rooted (clean_parts rooted (split_on CHR ''/'' path)))"

text \<open>\<open>filepath.Join\<close> of two elements.\<close>

definition Join :: "string \<Rightarrow> string \<Rightarrow> string" where
  "Join a b = (if a \<noteq> [] then Clean (a @ ''/'' @ b) else if b \<noteq> [] then Clean b else [])"

text \<open>\<open>filepath.Dir\<close>: what comes before the last slash, cleaned.\<close>

definition Dir :: "string \<Rightarrow> string" where
  "Dir path = Clean (rev (dropWhile (\<lambda>c. c \<noteq> CHR ''/'') (rev path)))"

text \<open>\<open>strings.TrimLeft(s, "/")\<close>.\<close>

definition TrimLeft :: "string \<Rightarrow> string" where
  "TrimLeft s = dropWhile (\<lambda>c. c = CHR ''/'') s"

lemma Clean_examples:
  "Clean ''a//b/./c/..'' = ''a/b''" "Clean ''/../x'' = ''/x''" "Clean ''../../x/..'' = ''../..''"
  "Join ''/s/p'' ''../q'' = ''/s/q''" "Dir ''/s/p/x.pack'' = ''/s/p''" "Dir ''x'' = ''.''"
  by (simp_all add: Dir_def Clean_def Join_def clean_parts_def clean_step_def path_string_def)

end
