(* ===== verification/Node.thy ===== *)
theory Node
  imports Kad Paths
begin

text \<open>
  Starting a node: \<open>InitFiles\<close> of \<open>white-box/files.go\<close> and \<open>New\<close> of \<open>white-box/white-box.go\<close>. \<open>None\<close> is
  also \<open>log.Fatal\<close>, which ends the process.
\<close>

text \<open>\<open>home\<close> is the user's home directory, if there is one; \<open>mkdir\<close> tells whether the directory can be made.\<close>

definition InitFiles :: "string option \<Rightarrow> (string \<Rightarrow> bool) \<Rightarrow> string \<Rightarrow> WhiteBox \<Rightarrow> WhiteBox go" where
  "InitFiles home mkdir dir wb = do {
     wb \<leftarrow> (if dir = [] then
              (case home of None \<Rightarrow> Panic | Some h \<Rightarrow> Ret (wb\<lparr>wb_SharedDir := Join h ''party-line''\<rparr>))
            else Ret (wb\<lparr>wb_SharedDir := dir\<rparr>));
     if mkdir (wb_SharedDir wb) then Ret wb else Panic }"

definition zero_wb :: "WhiteBox" where
  "zero_wb = \<lparr>wb_BsId = [],
     wb_Self = \<lparr>se_EncPub = None, se_EncPrv = None, se_SignPub = None, se_SignPrv = None, se_Address = []\<rparr>,
     wb_PeerSelf = \<lparr>pe_EncPub = None, pe_SignPub = [], pe_Address = [], pe_Conn = None\<rparr>,
     wb_PeerTable = replicate 256 [], wb_IdealPeerIds = replicate 256 None, wb_EmptyList = False,
     wb_SeenChats = Map.empty, wb_Parties = [], wb_PendingInvites = [], wb_PeerCache = Map.empty,
     wb_SharedDir = [], wb_FreshRequests = Map.empty, wb_RequestChan = [], wb_VerifiedBlockChan = [],
     wb_NoReroute = Map.empty, wb_Files = Map.empty, wb_NextFile = 0, wb_Disk = Map.empty, wb_out = []\<rparr>"

definition New :: "string option \<Rightarrow> (string \<Rightarrow> bool) \<Rightarrow> (bytes \<times> bytes \<times> bytes \<times> bytes) option \<Rightarrow>
    string \<Rightarrow> string \<Rightarrow> string \<Rightarrow> Self \<Rightarrow> WhiteBox go" where
  "New home mkdir fresh dir addr port self = do {
     wb \<leftarrow> InitFiles home mkdir dir (zero_wb\<lparr>wb_Self := self\<rparr>);
     wb \<leftarrow> GetKeys fresh (addr @ '':'' @ port) wb;
     wb \<leftarrow> CalculateIdealTableSelf (slice (se_SignPub (wb_Self wb))) wb;
     wb \<leftarrow> InitTable (slice (se_SignPub (wb_Self wb))) wb;
     let wb = wb\<lparr>wb_BsId := addr @ ''/'' @ port @ ''/'' @ ShortId (wb_PeerSelf wb), wb_EmptyList := True\<rparr>;
     Ret (chatStatus (wb_BsId wb) wb) }"

lemma InitTable_ideal:
  assumes "wb_IdealPeerIds wb = ideal_ids s"
  shows "InitTable idBytes wb = Some (wb\<lparr>wb_PeerTable := replicate 256 []\<rparr>)"
proof -
  have "ofold (\<lambda>i wb. do {
       ideal \<leftarrow> wb_IdealPeerIds wb ! i;
       let peerDist = ideal XOR SetBytes idBytes;
       Some (wb\<lparr>wb_PeerTable := (wb_PeerTable wb)[i := []]\<rparr>) }) xs (wb\<lparr>wb_PeerTable := replicate 256 []\<rparr>) =
      Some (wb\<lparr>wb_PeerTable := replicate 256 []\<rparr>)" if "\<forall>i \<in> set xs. i < 256" for xs
    using that
  proof (induction xs)
    case (Cons i xs)
    have "(replicate 256 [])[i := []] = replicate 256 ([] :: PeerEntry list)"
      using Cons.prems by (intro nth_equalityI) (auto simp: nth_list_update)
    with Cons assms show ?case by (simp add: ideal_ids_nth Let_def)
  qed simp
  then show ?thesis by (simp add: InitTable_def)
qed

end
