(* ===== verification/KadInv.thy ===== *)
theory KadInv
  imports Node
begin

text \<open>
  The invariant of the routing table of \<open>white-box/kad.go\<close> and its preservation by \<open>addPeer\<close>,
  \<open>removePeer\<close>, \<open>removeStalePeers\<close>, \<open>refreshPeer\<close> and \<open>cacheMin\<close>, with what each of them does to the
  table, and the consequences for routing.
\<close>

section \<open>The invariant\<close>

definition entry_key :: "PeerEntry \<Rightarrow> string option" where
  "entry_key entry = Option.bind (pn_Peer entry) Peer_Id"

text \<open>
  An entry of bucket \<open>i\<close>: it has a peer with keys and a connection, sits in the bucket of its key at
  the distance to the ideal id, and the cache says it is connected.
\<close>

definition entry_ok :: "nat \<Rightarrow> (string \<rightharpoonup> PeerCache) \<Rightarrow> nat \<Rightarrow> PeerEntry \<Rightarrow> bool" where
  "entry_ok s cache i entry \<longleftrightarrow>
     bucket_of (s XOR SetBytes (pn_Id entry)) = i \<and>
     pn_Distance entry = (s XOR 2 ^ i) XOR SetBytes (pn_Id entry) \<and>
     (\<exists>peer key c. pn_Peer entry = Some peer \<and> pe_SignPub peer = pn_Id entry \<and> pe_Conn peer \<noteq> None \<and>
        Peer_Id peer = Some key \<and> cache key = Some c \<and> ca_Added c \<and> \<not> ca_Disconnected c)"

definition bucket_ok :: "nat \<Rightarrow> (string \<rightharpoonup> PeerCache) \<Rightarrow> nat \<Rightarrow> PeerEntry list \<Rightarrow> bool" where
  "bucket_ok s cache i bucket \<longleftrightarrow> sorted (map pn_Distance bucket) \<and> distinct (map entry_key bucket) \<and>
     (\<forall>entry \<in> set bucket. entry_ok s cache i entry)"

text \<open>The table of a node whose signing key, as an integer, is \<open>s\<close>.\<close>

definition wf_wb :: "nat \<Rightarrow> WhiteBox \<Rightarrow> bool" where
  "wf_wb s wb \<longleftrightarrow> wb_IdealPeerIds wb = ideal_ids s \<and> length (wb_PeerTable wb) = 256 \<and>
     (\<forall>i < 256. bucket_ok s (wb_PeerCache wb) i (wb_PeerTable wb ! i)) \<and>
     (wb_EmptyList wb \<longleftrightarrow> (\<forall>i < 256. wb_PeerTable wb ! i = []))"

lemma wf_wb_cong:
  assumes "wb_IdealPeerIds wb' = wb_IdealPeerIds wb" and "wb_PeerTable wb' = wb_PeerTable wb"
    and "wb_PeerCache wb' = wb_PeerCache wb" and "wb_EmptyList wb' = wb_EmptyList wb"
  shows "wf_wb s wb' \<longleftrightarrow> wf_wb s wb"
  using assms by (simp add: wf_wb_def)

lemma wf_emit [simp]: "wf_wb s (emit a wb) \<longleftrightarrow> wf_wb s wb"
  by (rule wf_wb_cong) simp_all

lemma wf_status [simp]: "wf_wb s (setStatus m wb) \<longleftrightarrow> wf_wb s wb" "wf_wb s (chatStatus m wb) \<longleftrightarrow> wf_wb s wb"
    "wf_wb s (addChat c wb) \<longleftrightarrow> wf_wb s wb"
  by (simp_all add: setStatus_def chatStatus_def addChat_def)

lemma status_simps [simp]:
  "wb_PeerTable (setStatus m wb) = wb_PeerTable wb" "wb_PeerTable (chatStatus m wb) = wb_PeerTable wb"
  "wb_PeerCache (setStatus m wb) = wb_PeerCache wb" "wb_PeerCache (chatStatus m wb) = wb_PeerCache wb"
  "wb_IdealPeerIds (setStatus m wb) = wb_IdealPeerIds wb" "wb_IdealPeerIds (chatStatus m wb) = wb_IdealPeerIds wb"
  "wb_EmptyList (setStatus m wb) = wb_EmptyList wb" "wb_EmptyList (chatStatus m wb) = wb_EmptyList wb"
  "wb_PeerSelf (setStatus m wb) = wb_PeerSelf wb" "wb_PeerSelf (chatStatus m wb) = wb_PeerSelf wb"
  "wb_Self (setStatus m wb) = wb_Self wb" "wb_Self (chatStatus m wb) = wb_Self wb"
  by (simp_all add: setStatus_def chatStatus_def)

lemma entry_ok_cache_mono:
  assumes "entry_ok s cache i entry"
    and "\<And>key. entry_key entry = Some key \<Longrightarrow> cache' key = cache key"
  shows "entry_ok s cache' i entry"
  using assms by (force simp: entry_ok_def entry_key_def)

lemma entry_ok_key: "entry_ok s cache i entry \<Longrightarrow> \<exists>key c. entry_key entry = Some key \<and> cache key = Some c \<and> ca_Added c \<and> \<not> ca_Disconnected c"
  by (auto simp: entry_ok_def entry_key_def)

lemma Peer_Id_SignPub: "Peer_Id p = Some key \<Longrightarrow> Peer_Id q = Some key \<Longrightarrow> pe_SignPub p = pe_SignPub q"
  by (auto simp: Peer_Id_def id_string_eq split: option.splits)

text \<open>Entries with the same key sit in the same bucket.\<close>

lemma entry_key_bucket:
  assumes "entry_ok s c1 i e1" and "entry_ok s c2 j e2" and "entry_key e1 = entry_key e2"
  shows "pn_Id e1 = pn_Id e2" "i = j"
proof -
  obtain p q key where "pn_Peer e1 = Some p" "pn_Peer e2 = Some q" "Peer_Id p = Some key" "Peer_Id q = Some key"
      "pe_SignPub p = pn_Id e1" "pe_SignPub q = pn_Id e2"
    using assms by (auto simp: entry_ok_def entry_key_def)
  then show "pn_Id e1 = pn_Id e2" using Peer_Id_SignPub by metis
  with assms show "i = j" by (simp add: entry_ok_def)
qed

lemma havePeers_iff:
  assumes "length (wb_PeerTable wb) = 256" and "\<And>i. i < 256 \<Longrightarrow> \<forall>e \<in> set (wb_PeerTable wb ! i). pn_Peer e \<noteq> None"
  shows "havePeers wb \<longleftrightarrow> (\<exists>i < 256. wb_PeerTable wb ! i \<noteq> [])"
proof -
  have "(1 < length b \<or> (case b of [] \<Rightarrow> False | e # _ \<Rightarrow> pn_Peer e \<noteq> None)) \<longleftrightarrow> b \<noteq> []"
    if "b \<in> set (wb_PeerTable wb)" for b
  proof -
    obtain i where "i < 256" "b = wb_PeerTable wb ! i" using \<open>b \<in> _\<close> assms(1) by (metis in_set_conv_nth)
    with assms(2) [of i] have "\<forall>e \<in> set b. pn_Peer e \<noteq> None" by simp
    then show ?thesis by (cases b) simp_all
  qed
  then have "havePeers wb \<longleftrightarrow> (\<exists>b \<in> set (wb_PeerTable wb). b \<noteq> [])"
    by (auto simp: havePeers_def list_ex_iff)
  then show ?thesis by (metis assms(1) in_set_conv_nth)
qed

lemma wf_havePeers: "wf_wb s wb \<Longrightarrow> havePeers wb \<longleftrightarrow> \<not> wb_EmptyList wb"
  by (subst havePeers_iff) (auto simp: wf_wb_def bucket_ok_def entry_ok_def)

lemma wf_closestIndex: "wf_wb s wb \<Longrightarrow> closestIndex x wb = Some (bucket_of (s XOR x))"
  by (simp add: wf_wb_def closestIndex_ideal)

section \<open>addPeer\<close>

lemma ins_after_snoc: "f x < f y \<Longrightarrow> ins_after f x (ys @ [y]) = ins_after f x ys @ [y]"
  by (induction ys) auto

lemma ins_after_last: "\<forall>y \<in> set ys. \<not> f x < f y \<Longrightarrow> ins_after f x ys = ys @ [x]"
  by (induction ys) auto

lemma insertEntry_sorted:
  "sorted (map pn_Distance bucket) \<Longrightarrow> insertEntry entry bucket = ins_after pn_Distance entry bucket"
proof (induction bucket rule: rev_induct)
  case (snoc y ys)
  show ?case
  proof (cases "pn_Distance entry < pn_Distance y")
    case True
    with snoc show ?thesis by (simp add: insertEntry_def ins_after_snoc sorted_append Let_def)
  next
    case False
    with snoc.prems have "\<forall>z \<in> set (ys @ [y]). \<not> pn_Distance entry < pn_Distance z"
      by (auto simp: sorted_append not_less intro: order_trans)
    from ins_after_last [OF this] False show ?thesis by (simp add: insertEntry_def)
  qed
qed (simp add: insertEntry_def)

definition added_entry :: "nat \<Rightarrow> int \<Rightarrow> Peer \<Rightarrow> PeerEntry" where
  "added_entry s now peer = \<lparr>pn_Id = pe_SignPub peer,
     pn_Distance = (s XOR 2 ^ bucket_of (s XOR SetBytes (pe_SignPub peer))) XOR SetBytes (pe_SignPub peer),
     pn_Peer = Some peer, pn_Seen = now\<rparr>"

definition connected :: "WhiteBox \<Rightarrow> string \<Rightarrow> bool" where
  "connected wb key \<longleftrightarrow> (\<exists>c. wb_PeerCache wb key = Some c \<and> ca_Added c \<and> \<not> ca_Disconnected c)"

lemma addPeer_result:
  assumes wf: "wf_wb s wb" and key: "Peer_Id peer = Some key"
  defines "k \<equiv> bucket_of (s XOR SetBytes (pe_SignPub peer))"
  shows "if connected wb key then addPeer now peer seenTime wb = Some wb
    else \<exists>wb' c. addPeer now peer seenTime wb = Some wb' \<and>
      wb_PeerTable wb' = (wb_PeerTable wb)
        [k := ins_after pn_Distance (added_entry s now peer) (wb_PeerTable wb ! k)] \<and>
      wb_PeerCache wb' = (wb_PeerCache wb)(key \<mapsto> c) \<and> ca_Added c \<and> \<not> ca_Disconnected c \<and>
      ca_Time c = seenTime \<and> \<not> wb_EmptyList wb' \<and> wb_IdealPeerIds wb' = wb_IdealPeerIds wb \<and>
      wb_PeerSelf wb' = wb_PeerSelf wb \<and> wb_Self wb' = wb_Self wb"
proof (cases "connected wb key")
  case True
  then show ?thesis using key by (auto simp: addPeer_def connected_def)
next
  case False
  have k: "k < 256" by (simp add: k_def bucket_of_less)
  let ?cache = "case wb_PeerCache wb key of None \<Rightarrow> zeroCache | Some cache \<Rightarrow> cache"
  let ?c = "?cache\<lparr>ca_Added := True, ca_Disconnected := False, ca_Time := seenTime\<rparr>"
  let ?wb = "wb\<lparr>wb_PeerCache := (wb_PeerCache wb)(key \<mapsto> ?c)\<rparr>"
  have ideal: "wb_IdealPeerIds ?wb = ideal_ids s" using wf by (simp add: wf_wb_def)
  have idx: "closestIndex (SetBytes (pe_SignPub peer)) ?wb = Some k"
    by (simp only: closestIndex_ideal [OF ideal] k_def)
  have nc: "\<not> (wb_PeerCache wb key \<noteq> None \<and> ca_Added ?cache \<and> \<not> ca_Disconnected ?cache)"
    using False by (cases "wb_PeerCache wb key") (simp_all add: connected_def)
  have srt: "sorted (map pn_Distance (wb_PeerTable wb ! k))" using wf k by (simp add: wf_wb_def bucket_ok_def)
  have ent: "\<lparr>pn_Id = pe_SignPub peer, pn_Distance = (s XOR 2 ^ k) XOR SetBytes (pe_SignPub peer),
      pn_Peer = Some peer, pn_Seen = now\<rparr> = added_entry s now peer"
    by (simp add: added_entry_def k_def)
  let ?wb1 = "?wb\<lparr>wb_PeerTable := (wb_PeerTable wb)
      [k := ins_after pn_Distance (added_entry s now peer) (wb_PeerTable wb ! k)]\<rparr>"
  let ?wb' = "if wb_EmptyList ?wb1
    then (chatStatus ''peer added, happy chatting!'' ?wb1)\<lparr>wb_EmptyList := False\<rparr> else ?wb1"
  have "addPeer now peer seenTime wb = Some ?wb'"
    using nc idx ideal_ids_nth [OF k, of s] insertEntry_sorted [OF srt, of "added_entry s now peer"]
    unfolding addPeer_def key bind.bind_lunit Let_def
    by (simp only: if_False idx ideal bind.bind_lunit ent WhiteBox.simps) simp
  with False show ?thesis
    by (simp only: if_False) (intro exI [of _ ?wb'] exI [of _ ?c], simp)
qed

lemma addPeer_wf:
  assumes wf: "wf_wb s wb" and r: "addPeer now peer seenTime wb = Some wb'" and conn: "pe_Conn peer \<noteq> None"
  shows "wf_wb s wb'"
proof -
  obtain key where key: "Peer_Id peer = Some key"
    using r by (auto simp: addPeer_def split: Option.bind_splits)
  let ?k = "bucket_of (s XOR SetBytes (pe_SignPub peer))"
  note res = addPeer_result [OF wf key, of now seenTime]
  show ?thesis
  proof (cases "connected wb key")
    case True
    with res r wf show ?thesis by simp
  next
    case False
    with res r obtain c where t: "wb_PeerTable wb' = (wb_PeerTable wb)
          [?k := ins_after pn_Distance (added_entry s now peer) (wb_PeerTable wb ! ?k)]"
        and c: "wb_PeerCache wb' = (wb_PeerCache wb)(key \<mapsto> c)" "ca_Added c" "\<not> ca_Disconnected c"
        and e: "\<not> wb_EmptyList wb'" "wb_IdealPeerIds wb' = wb_IdealPeerIds wb"
      by auto
    have k: "?k < 256" by (rule bucket_of_less)
    have len: "length (wb_PeerTable wb) = 256" using wf by (simp add: wf_wb_def)
    have old: "bucket_ok s (wb_PeerCache wb') i (wb_PeerTable wb ! i)" if "i < 256" for i
    proof -
      have b: "bucket_ok s (wb_PeerCache wb) i (wb_PeerTable wb ! i)" using wf that by (simp add: wf_wb_def)
      have ne: "entry_key e \<noteq> Some key" if "e \<in> set (wb_PeerTable wb ! i)" for e
        using b that False entry_ok_key [of s "wb_PeerCache wb" i e]
        by (auto simp: bucket_ok_def connected_def)
      have "entry_ok s (wb_PeerCache wb') i e" if m: "e \<in> set (wb_PeerTable wb ! i)" for e
      proof (rule entry_ok_cache_mono)
        show "entry_ok s (wb_PeerCache wb) i e" using b m by (simp add: bucket_ok_def)
        show "wb_PeerCache wb' kk = wb_PeerCache wb kk" if "entry_key e = Some kk" for kk
          using that ne [OF m] by (simp add: c(1))
      qed
      with b show ?thesis by (simp add: bucket_ok_def)
    qed
    have ek: "entry_key (added_entry s now peer) = Some key" by (simp add: entry_key_def added_entry_def key)
    have new: "entry_ok s (wb_PeerCache wb') ?k (added_entry s now peer)"
      using conn key c by (simp add: entry_ok_def added_entry_def)
    have "Some key \<notin> entry_key ` set (wb_PeerTable wb ! ?k)"
    proof
      assume "Some key \<in> entry_key ` set (wb_PeerTable wb ! ?k)"
      then obtain e where "e \<in> set (wb_PeerTable wb ! ?k)" "entry_key e = Some key" by (metis imageE)
      then show False using wf k False entry_ok_key [of s "wb_PeerCache wb" ?k e]
        by (auto simp: wf_wb_def bucket_ok_def connected_def)
    qed
    moreover have "mset (map entry_key (ins_after pn_Distance (added_entry s now peer) (wb_PeerTable wb ! ?k))) =
        mset (Some key # map entry_key (wb_PeerTable wb ! ?k))" by (simp add: ek)
    ultimately have "distinct (map entry_key (ins_after pn_Distance (added_entry s now peer) (wb_PeerTable wb ! ?k)))"
      using old [OF k] mset_eq_imp_distinct_iff by (fastforce simp: bucket_ok_def)
    then have "bucket_ok s (wb_PeerCache wb') ?k (ins_after pn_Distance (added_entry s now peer) (wb_PeerTable wb ! ?k))"
      using old [OF k] new by (simp add: bucket_ok_def sorted_ins_after)
    with old have "\<forall>i < 256. bucket_ok s (wb_PeerCache wb') i (wb_PeerTable wb' ! i)"
      using len k by (auto simp: t nth_list_update)
    moreover have "wb_PeerTable wb' ! ?k \<noteq> []"
      using len k by (simp add: t) (metis length_0_conv length_ins_after nat.distinct(1))
    ultimately show ?thesis using wf e k len by (auto simp: wf_wb_def t)
  qed
qed

section \<open>Removing and refreshing\<close>

lemma entry_ok_conn:
  assumes "entry_ok s cache i entry"
    and "\<And>key c. entry_key entry = Some key \<Longrightarrow> cache key = Some c \<Longrightarrow> ca_Added c \<Longrightarrow> \<not> ca_Disconnected c \<Longrightarrow>
      \<exists>c'. cache' key = Some c' \<and> ca_Added c' \<and> \<not> ca_Disconnected c'"
  shows "entry_ok s cache' i entry"
proof -
  obtain peer key c where e: "bucket_of (s XOR SetBytes (pn_Id entry)) = i"
      "pn_Distance entry = (s XOR 2 ^ i) XOR SetBytes (pn_Id entry)"
      "pn_Peer entry = Some peer" "pe_SignPub peer = pn_Id entry" "pe_Conn peer \<noteq> None"
      "Peer_Id peer = Some key" "cache key = Some c" "ca_Added c" "\<not> ca_Disconnected c"
    using assms(1) unfolding entry_ok_def by blast
  moreover have "entry_key entry = Some key" using e by (simp add: entry_key_def)
  ultimately obtain c' where "cache' key = Some c'" "ca_Added c'" "\<not> ca_Disconnected c'"
    using assms(2) by blast
  with e show ?thesis unfolding entry_ok_def by blast
qed

lemma bucket_ok_filter: "bucket_ok s cache i b \<Longrightarrow> bucket_ok s cache i (filter P b)"
  by (auto simp: bucket_ok_def sorted_filter distinct_map_filter)

lemma bucket_ok_Nil [simp]: "bucket_ok s cache i []"
  by (simp add: bucket_ok_def)

lemma removePeer_table:
  assumes wf: "wf_wb s wb" and hex: "hexDecode peerId = Some bytesId"
  defines "k \<equiv> bucket_of (s XOR SetBytes bytesId)"
  shows "\<exists>wb'. removePeer peerId wb = Some wb' \<and> wf_wb s wb' \<and>
    wb_PeerTable wb' = (wb_PeerTable wb)[k := filter (\<lambda>e. pn_Id e \<noteq> bytesId) (wb_PeerTable wb ! k)] \<and>
    wb_PeerCache wb' = wb_PeerCache wb \<and> wb_PeerSelf wb' = wb_PeerSelf wb \<and> wb_Self wb' = wb_Self wb"
proof -
  have k: "k < 256" by (simp add: k_def bucket_of_less)
  have len: "length (wb_PeerTable wb) = 256" using wf by (simp add: wf_wb_def)
  let ?t = "(wb_PeerTable wb)[k := filter (\<lambda>e. pn_Id e \<noteq> bytesId) (wb_PeerTable wb ! k)]"
  let ?wb = "wb\<lparr>wb_PeerTable := ?t\<rparr>"
  have ok: "\<forall>i < 256. bucket_ok s (wb_PeerCache wb) i (?t ! i)"
    using wf k len by (auto simp: wf_wb_def nth_list_update bucket_ok_filter)
  have emp: "wb_EmptyList wb \<Longrightarrow> \<forall>i < 256. ?t ! i = []"
    using wf k len by (auto simp: wf_wb_def nth_list_update)
  have hp: "havePeers ?wb \<longleftrightarrow> \<not> (\<forall>i < 256. ?t ! i = [])"
    using ok len by (subst havePeers_iff) (auto simp: bucket_ok_def entry_ok_def)
  have r: "removePeer peerId wb = Some (if \<not> wb_EmptyList ?wb \<and> \<not> havePeers ?wb
      then (chatStatus ''all friends gone, bootstrap some new ones'' ?wb)\<lparr>wb_EmptyList := True\<rparr> else ?wb)"
    by (simp add: removePeer_def hex wf_closestIndex [OF wf] Let_def k_def)
  show ?thesis
  proof (cases "\<not> wb_EmptyList ?wb \<and> \<not> havePeers ?wb")
    case True
    with r wf ok hp len show ?thesis by (simp add: wf_wb_def)
  next
    case False
    with r wf ok hp len emp show ?thesis by (auto simp: wf_wb_def)
  qed
qed

lemma removePeer_wf:
  assumes "wf_wb s wb"
  shows "\<exists>wb'. removePeer peerId wb = Some wb' \<and> wf_wb s wb'"
  using assms removePeer_table [OF assms, of peerId] by (cases "hexDecode peerId") (auto simp: removePeer_def)

lemma refreshPeer_wf:
  assumes "wf_wb s wb"
  shows "wf_wb s (refreshPeer now peerId wb)"
proof (cases "hexDecode peerId")
  case (Some bytesId)
  let ?f = "\<lambda>entry. if pn_Id entry = bytesId then entry\<lparr>pn_Seen := now\<rparr> else entry"
  have f: "pn_Distance (?f e) = pn_Distance e" "entry_key (?f e) = entry_key e"
      "entry_ok s c i (?f e) = entry_ok s c i e" for e c i
    by (simp_all add: entry_key_def entry_ok_def)
  then have "bucket_ok s c i (map ?f b) = bucket_ok s c i b" for c i b
    unfolding bucket_ok_def map_map comp_def set_map ball_simps(9) by (simp only: f)
  with assms Some show ?thesis by (auto simp: refreshPeer_def wf_wb_def)
qed (use assms in \<open>simp add: refreshPeer_def\<close>)

lemma wf_cache:
  assumes wf: "wf_wb s wb" and "\<And>key c. wb_PeerCache wb key = Some c \<Longrightarrow> ca_Added c \<Longrightarrow> \<not> ca_Disconnected c \<Longrightarrow>
      \<exists>c'. cache' key = Some c' \<and> ca_Added c' \<and> \<not> ca_Disconnected c'"
  shows "wf_wb s (wb\<lparr>wb_PeerCache := cache'\<rparr>)"
proof -
  have "entry_ok s cache' i e" if "entry_ok s (wb_PeerCache wb) i e" for i e
    using that by (rule entry_ok_conn) (rule assms(2))
  then have "bucket_ok s cache' i b" if "bucket_ok s (wb_PeerCache wb) i b" for i b
    using that by (simp add: bucket_ok_def)
  with wf show ?thesis by (simp add: wf_wb_def)
qed

lemma cacheMin_wf:
  assumes "wf_wb s wb" and "cacheMin minp wb = Some wb'"
  shows "wf_wb s wb'"
proof -
  obtain key where "MinPeer_Id minp = Some key" using assms(2) by (auto simp: cacheMin_def split: Option.bind_splits)
  with assms show ?thesis
    by (auto simp: cacheMin_def Let_def intro!: wf_cache split: option.splits)
qed

section \<open>Stale peers\<close>

lemma removeStale_fold:
  assumes "\<forall>e \<in> set l. entry_key e \<noteq> None"
  shows "\<exists>cache' out'. ofold removeStale_entry l wb = Some (wb\<lparr>wb_PeerCache := cache', wb_out := out'\<rparr>) \<and>
    (\<forall>key. Some key \<notin> entry_key ` set l \<longrightarrow> cache' key = wb_PeerCache wb key) \<and>
    (\<forall>key. Some key \<in> entry_key ` set l \<longrightarrow> (\<exists>c. cache' key = Some c \<and> ca_Disconnected c))"
  using assms
proof (induction l arbitrary: wb)
  case Nil
  show ?case by (intro exI [of _ "wb_PeerCache wb"] exI [of _ "wb_out wb"]) simp
next
  case (Cons e l)
  then obtain peer key where e: "pn_Peer e = Some peer" "Peer_Id peer = Some key" "entry_key e = Some key"
    by (auto simp: entry_key_def bind_eq_Some_conv)
  let ?c1 = "case wb_PeerCache wb key of None \<Rightarrow> (wb_PeerCache wb)(key \<mapsto> zeroCache\<lparr>ca_Disconnected := True\<rparr>)
    | Some cache \<Rightarrow> if \<not> ca_Disconnected cache then (wb_PeerCache wb)(key \<mapsto> cache\<lparr>ca_Disconnected := True\<rparr>)
        else wb_PeerCache wb"
  let ?o1 = "wb_out wb @ [StatusOut TONE_LOW (''removed stale peer '' @ take 6 key)]"
  let ?wb1 = "wb\<lparr>wb_PeerCache := ?c1, wb_out := ?o1\<rparr>"
  have step: "removeStale_entry e wb = Some ?wb1"
    by (auto simp: removeStale_entry_def e setStatus_def emit_def split: option.splits)
  have c1: "k \<noteq> key \<Longrightarrow> ?c1 k = wb_PeerCache wb k" "\<exists>c. ?c1 key = Some c \<and> ca_Disconnected c" for k
    by (auto split: option.splits)
  obtain cache' out' where IH: "ofold removeStale_entry l ?wb1 = Some (?wb1\<lparr>wb_PeerCache := cache', wb_out := out'\<rparr>)"
      "\<forall>k. Some k \<notin> entry_key ` set l \<longrightarrow> cache' k = ?c1 k"
      "\<forall>k. Some k \<in> entry_key ` set l \<longrightarrow> (\<exists>c. cache' k = Some c \<and> ca_Disconnected c)"
    using Cons.IH [of ?wb1] Cons.prems by auto
  have "ofold removeStale_entry (e # l) wb = Some (wb\<lparr>wb_PeerCache := cache', wb_out := out'\<rparr>)"
    using IH(1) step by simp
  moreover have "\<exists>c. cache' key = Some c \<and> ca_Disconnected c"
    using IH(2,3) c1(2) by (cases "Some key \<in> entry_key ` set l") auto
  ultimately show ?case using IH(2,3) c1(1) e(3)
    by (intro exI [of _ cache'] exI [of _ out']) auto
qed

definition wf_core :: "nat \<Rightarrow> WhiteBox \<Rightarrow> bool" where
  "wf_core s wb \<longleftrightarrow> wb_IdealPeerIds wb = ideal_ids s \<and> length (wb_PeerTable wb) = 256 \<and>
     (\<forall>i < 256. bucket_ok s (wb_PeerCache wb) i (wb_PeerTable wb ! i))"

lemma wf_wb_core: "wf_wb s wb \<longleftrightarrow> wf_core s wb \<and> (wb_EmptyList wb \<longleftrightarrow> (\<forall>i < 256. wb_PeerTable wb ! i = []))"
  by (auto simp: wf_wb_def wf_core_def)

lemma stale_bucket:
  assumes core: "wf_core s wb" and i: "i < 256"
  defines "b \<equiv> wb_PeerTable wb ! i"
  shows "\<exists>cache' out'. ofold removeStale_entry (filter (stale now) b)
      (wb\<lparr>wb_PeerTable := (wb_PeerTable wb)[i := filter (\<lambda>e. \<not> stale now e) b]\<rparr>) =
      Some (wb\<lparr>wb_PeerTable := (wb_PeerTable wb)[i := filter (\<lambda>e. \<not> stale now e) b],
        wb_PeerCache := cache', wb_out := out'\<rparr>) \<and>
    wf_core s (wb\<lparr>wb_PeerTable := (wb_PeerTable wb)[i := filter (\<lambda>e. \<not> stale now e) b],
        wb_PeerCache := cache', wb_out := out'\<rparr>)"
proof -
  let ?l = "filter (stale now) b" and ?b = "filter (\<lambda>e. \<not> stale now e) b"
  let ?wb = "wb\<lparr>wb_PeerTable := (wb_PeerTable wb)[i := ?b]\<rparr>"
  have bi: "bucket_ok s (wb_PeerCache wb) i b" using core i by (simp add: wf_core_def b_def)
  have "\<forall>e \<in> set ?l. entry_key e \<noteq> None"
    using bi entry_ok_key by (fastforce simp: bucket_ok_def)
  then obtain cache' out' where f: "ofold removeStale_entry ?l ?wb = Some (?wb\<lparr>wb_PeerCache := cache', wb_out := out'\<rparr>)"
      and keep: "\<forall>key. Some key \<notin> entry_key ` set ?l \<longrightarrow> cache' key = wb_PeerCache wb key"
    using removeStale_fold [of ?l ?wb] by auto
  have "bucket_ok s cache' j ((wb_PeerTable wb)[i := ?b] ! j)" if j: "j < 256" for j
  proof -
    let ?bj = "(wb_PeerTable wb)[i := ?b] ! j"
    have bj: "bucket_ok s (wb_PeerCache wb) j ?bj"
      using core i j bi by (auto simp: wf_core_def nth_list_update bucket_ok_filter)
    have ne: "entry_key e \<noteq> entry_key e'" if e: "e \<in> set ?bj" and e': "e' \<in> set ?l" for e e'
    proof
      assume eq: "entry_key e = entry_key e'"
      have oks: "entry_ok s (wb_PeerCache wb) j e" "entry_ok s (wb_PeerCache wb) i e'"
        using bj bi e e' by (auto simp: bucket_ok_def)
      have "j = i" by (rule entry_key_bucket(2) [OF oks eq])
      then have "e \<in> set b" "\<not> stale now e" "e' \<in> set b" "stale now e'"
        using e e' core i by (auto simp: wf_core_def)
      moreover have "inj_on entry_key (set b)" using bi by (simp add: bucket_ok_def distinct_map)
      ultimately show False using eq by (metis inj_onD)
    qed
    have "entry_ok s cache' j e" if e: "e \<in> set ?bj" for e
    proof (rule entry_ok_cache_mono)
      show "entry_ok s (wb_PeerCache wb) j e" using bj e by (simp add: bucket_ok_def)
      fix key assume "entry_key e = Some key"
      then have "Some key \<notin> entry_key ` set ?l" using ne [OF e] by (metis imageE)
      then show "cache' key = wb_PeerCache wb key" using keep by blast
    qed
    with bj show ?thesis by (simp add: bucket_ok_def)
  qed
  then have "wf_core s (?wb\<lparr>wb_PeerCache := cache', wb_out := out'\<rparr>)"
    using core by (simp add: wf_core_def)
  with f show ?thesis by auto
qed

lemma removeStalePeers_table:
  assumes wf: "wf_wb s wb"
  shows "\<exists>wb'. removeStalePeers now wb = Some wb' \<and> wf_wb s wb' \<and>
    wb_PeerTable wb' = map (filter (\<lambda>e. \<not> stale now e)) (wb_PeerTable wb) \<and>
    wb_PeerSelf wb' = wb_PeerSelf wb \<and> wb_Self wb' = wb_Self wb"
proof -
  let ?t = "wb_PeerTable wb" and ?keep = "filter (\<lambda>e. \<not> stale now e)"
  let ?body = "\<lambda>i (removed, wb). do {
         let removeList = filter (stale now) (wb_PeerTable wb ! i);
         wb \<leftarrow> ofold removeStale_entry removeList
           (wb\<lparr>wb_PeerTable := (wb_PeerTable wb)[i := filter (\<lambda>entry. \<not> stale now entry) (wb_PeerTable wb ! i)]\<rparr>);
         Some (removed \<or> removeList \<noteq> [], wb) }"
  have len: "length ?t = 256" using wf by (simp add: wf_wb_def)
  have loop: "\<exists>removed w. ofold ?body [0..<n] (False, wb) = Some (removed, w) \<and> wf_core s w \<and>
      wb_EmptyList w = wb_EmptyList wb \<and> wb_PeerSelf w = wb_PeerSelf wb \<and> wb_Self w = wb_Self wb \<and>
      (\<forall>j < 256. wb_PeerTable w ! j = (if j < n then ?keep (?t ! j) else ?t ! j)) \<and>
      (\<not> removed \<longrightarrow> wb_PeerTable w = ?t)" if "n \<le> 256" for n
    using that
  proof (induction n)
    case 0
    from wf show ?case by (intro exI [of _ False] exI [of _ wb]) (simp add: wf_wb_core)
  next
    case (Suc n)
    then obtain removed w where IH: "ofold ?body [0..<n] (False, wb) = Some (removed, w)" "wf_core s w"
        "wb_EmptyList w = wb_EmptyList wb" "wb_PeerSelf w = wb_PeerSelf wb" "wb_Self w = wb_Self wb"
        "\<forall>j < 256. wb_PeerTable w ! j = (if j < n then ?keep (?t ! j) else ?t ! j)"
        "\<not> removed \<longrightarrow> wb_PeerTable w = ?t" by auto
    have n: "n < 256" using Suc.prems by simp
    have wlen: "length (wb_PeerTable w) = 256" using IH(2) by (simp add: wf_core_def)
    have bn: "wb_PeerTable w ! n = ?t ! n" using IH(6) n by simp
    obtain cache' out' where st: "ofold removeStale_entry (filter (stale now) (wb_PeerTable w ! n))
          (w\<lparr>wb_PeerTable := (wb_PeerTable w)[n := ?keep (wb_PeerTable w ! n)]\<rparr>) =
        Some (w\<lparr>wb_PeerTable := (wb_PeerTable w)[n := ?keep (wb_PeerTable w ! n)],
          wb_PeerCache := cache', wb_out := out'\<rparr>)"
        "wf_core s (w\<lparr>wb_PeerTable := (wb_PeerTable w)[n := ?keep (wb_PeerTable w ! n)],
          wb_PeerCache := cache', wb_out := out'\<rparr>)"
      using stale_bucket [OF IH(2) n, of now] by blast
    let ?w = "w\<lparr>wb_PeerTable := (wb_PeerTable w)[n := ?keep (wb_PeerTable w ! n)],
          wb_PeerCache := cache', wb_out := out'\<rparr>"
    let ?r = "removed \<or> filter (stale now) (wb_PeerTable w ! n) \<noteq> []"
    have "ofold ?body [0..<Suc n] (False, wb) = Some (?r, ?w)"
      using IH(1) st(1) by (simp add: ofold_append Let_def)
    moreover have "\<forall>j < 256. wb_PeerTable ?w ! j = (if j < Suc n then ?keep (?t ! j) else ?t ! j)"
      using IH(6) n wlen bn by (auto simp: nth_list_update less_Suc_eq)
    moreover have "\<not> ?r \<longrightarrow> wb_PeerTable ?w = ?t"
    proof
      assume r: "\<not> ?r"
      then have "?keep (wb_PeerTable w ! n) = wb_PeerTable w ! n"
        by (auto simp: filter_empty_conv filter_id_conv)
      with r IH(7) show "wb_PeerTable ?w = ?t" by simp
    qed
    ultimately show ?case using st(2) IH(3-5) by (intro exI [of _ ?r] exI [of _ ?w]) simp
  qed
  obtain removed w where w: "ofold ?body [0..<256] (False, wb) = Some (removed, w)" "wf_core s w"
      "wb_EmptyList w = wb_EmptyList wb" "wb_PeerSelf w = wb_PeerSelf wb" "wb_Self w = wb_Self wb"
      "\<forall>j < 256. wb_PeerTable w ! j = ?keep (?t ! j)" "\<not> removed \<longrightarrow> wb_PeerTable w = ?t"
    using loop [of 256] by auto
  have tab: "wb_PeerTable w = map ?keep ?t"
    using w(2,6) len by (intro nth_equalityI) (auto simp: wf_core_def)
  have hp: "havePeers w \<longleftrightarrow> \<not> (\<forall>i < 256. wb_PeerTable w ! i = [])"
    using w(2) by (subst havePeers_iff) (auto simp: wf_core_def bucket_ok_def entry_ok_def)
  have e0: "wb_EmptyList wb \<longleftrightarrow> (\<forall>i < 256. ?t ! i = [])" using wf by (simp add: wf_wb_def)
  let ?msg = "''all friends gone, bootstrap some new ones''"
  let ?w' = "if removed \<and> \<not> havePeers w \<and> \<not> wb_EmptyList w then (chatStatus ?msg w)\<lparr>wb_EmptyList := True\<rparr> else w"
  have r: "removeStalePeers now wb = Some ?w'"
    unfolding removeStalePeers_def using w(1) by simp
  have "wf_wb s ?w'"
  proof (cases "removed \<and> \<not> havePeers w \<and> \<not> wb_EmptyList w")
    case True
    with hp w(2) show ?thesis by (simp add: wf_wb_def wf_core_def)
  next
    case False
    have "wb_EmptyList w \<longleftrightarrow> (\<forall>i < 256. wb_PeerTable w ! i = [])"
      using False hp e0 w(3,6,7) by (cases "wb_EmptyList wb") auto
    with w(2) have "wf_wb s w" by (simp add: wf_wb_core)
    then show ?thesis unfolding if_not_P [OF False] .
  qed
  moreover have "wb_PeerTable ?w' = map ?keep ?t" "wb_PeerSelf ?w' = wb_PeerSelf wb" "wb_Self ?w' = wb_Self wb"
    using tab w(4,5) by simp_all
  ultimately show ?thesis using r by blast
qed

lemma removeStalePeers_filter:
  assumes "wf_wb s wb"
  shows "\<exists>wb'. removeStalePeers now wb = Some wb' \<and> wf_wb s wb' \<and>
      wb_PeerTable wb' = map (filter (\<lambda>e. \<not> now - pn_Seen e > 60 * 10 ^ 9)) (wb_PeerTable wb)"
proof -
  have len: "length (wb_PeerTable wb) = 256" using assms by (simp add: wf_wb_def)
  have "filter (\<lambda>e. \<not> stale now e) b = filter (\<lambda>e. \<not> now - pn_Seen e > 60 * 10 ^ 9) b"
    if bin: "b \<in> set (wb_PeerTable wb)" for b
  proof (rule filter_cong [OF refl])
    fix e assume "e \<in> set b"
    moreover obtain i where "i < 256" "b = wb_PeerTable wb ! i"
      using bin len by (metis in_set_conv_nth)
    ultimately have "entry_ok s (wb_PeerCache wb) i e"
      using assms unfolding wf_wb_def bucket_ok_def by blast
    then have "pn_Peer e \<noteq> None" unfolding entry_ok_def by blast
    then show "(\<not> stale now e) = (\<not> now - pn_Seen e > 60 * 10 ^ 9)" by (simp add: stale_def)
  qed
  then have "map (filter (\<lambda>e. \<not> stale now e)) (wb_PeerTable wb) =
      map (filter (\<lambda>e. \<not> now - pn_Seen e > 60 * 10 ^ 9)) (wb_PeerTable wb)" by simp
  with removeStalePeers_table [OF assms, of now] show ?thesis by metis
qed

lemma removePeer_filter:
  assumes "wf_wb s wb"
  shows "\<exists>wb'. removePeer (hexEncode signPub) wb = Some wb' \<and> wf_wb s wb' \<and>
      wb_PeerTable wb' = map (filter (\<lambda>e. pn_Id e \<noteq> signPub)) (wb_PeerTable wb)"
proof -
  let ?k = "bucket_of (s XOR SetBytes signPub)" and ?f = "filter (\<lambda>e. pn_Id e \<noteq> signPub)"
  have "?f (wb_PeerTable wb ! i) = wb_PeerTable wb ! i" if i: "i < 256" "i \<noteq> ?k" for i
  proof (rule filter_True, rule ballI)
    fix e assume "e \<in> set (wb_PeerTable wb ! i)"
    then have "entry_ok s (wb_PeerCache wb) i e" using assms i(1) by (simp add: wf_wb_def bucket_ok_def)
    with i(2) show "pn_Id e \<noteq> signPub" by (auto simp: entry_ok_def)
  qed
  then have same: "?f (wb_PeerTable wb ! i) = wb_PeerTable wb ! i" if "i < 256" "i \<noteq> ?k" for i
    using that by blast
  have len: "length (wb_PeerTable wb) = 256" using assms by (simp add: wf_wb_def)
  have "(wb_PeerTable wb)[?k := ?f (wb_PeerTable wb ! ?k)] = map ?f (wb_PeerTable wb)"
  proof (rule nth_equalityI)
    fix i assume "i < length ((wb_PeerTable wb)[?k := ?f (wb_PeerTable wb ! ?k)])"
    then have i: "i < 256" using len by simp
    show "(wb_PeerTable wb)[?k := ?f (wb_PeerTable wb ! ?k)] ! i = map ?f (wb_PeerTable wb) ! i"
      using same [OF i] i len by (cases "i = ?k") (simp_all only: nth_map nth_list_update_eq nth_list_update_neq not_False_eq_True)
  qed simp
  with removePeer_table [OF assms hexDecode_hexEncode, of signPub] show ?thesis by auto
qed

section \<open>Closer to the target\<close>

lemma xor_xor_cancel: "(a XOR b) XOR (a XOR c) = (b :: nat) XOR c"
  by (metis xor.assoc xor.commute xor.left_neutral xor_self_eq)

lemma xor_less_exp: "a < 2 ^ n \<Longrightarrow> b < 2 ^ n \<Longrightarrow> (a :: nat) XOR b < 2 ^ n"
  by (metis take_bit_nat_eq_self take_bit_nat_less_exp take_bit_xor)

lemma xor_eq_0_nat: "(a :: nat) XOR b = 0 \<longleftrightarrow> a = b"
  by (metis xor.assoc xor.left_neutral xor_self_eq)

lemma same_top_bit_less:
  assumes "bit (a :: nat) k" and "a < 2 ^ Suc k" and "bit b k" and "b < 2 ^ Suc k"
  shows "a XOR b < 2 ^ k"
proof -
  have "a XOR b < 2 ^ Suc k" using assms xor_less_exp by blast
  then have "take_bit (Suc k) (a XOR b) = a XOR b" by (rule take_bit_nat_eq_self)
  moreover have "take_bit (Suc k) (a XOR b) = take_bit k (a XOR b)"
    using assms by (intro bit_eqI) (auto simp: bit_take_bit_iff bit_xor_iff less_Suc_eq)
  ultimately show ?thesis by (metis take_bit_nat_less_exp)
qed

lemma bucket_near:
  assumes "s < 2 ^ 256" and "t < 2 ^ 256" and "e < 2 ^ 256" and "s \<noteq> t" and "s \<noteq> e"
    and "bucket_of (s XOR e) = bucket_of (s XOR t)"
  shows "e XOR t < 2 ^ bucket_of (s XOR t)" "2 ^ bucket_of (s XOR t) \<le> s XOR t"
proof -
  let ?k = "bucket_of (s XOR t)"
  have se: "s XOR e < 2 ^ 256" "s XOR e \<noteq> 0" and st: "s XOR t < 2 ^ 256" "s XOR t \<noteq> 0"
    using assms xor_less_exp by (simp_all only: xor_eq_0_nat not_False_eq_True)
  have "(s XOR e) XOR (s XOR t) < 2 ^ ?k"
    by (rule same_top_bit_less [OF bucket_of_max [OF se, unfolded assms(6)] bucket_of_max [OF st]])
  then show "e XOR t < 2 ^ ?k" by (simp only: xor_xor_cancel)
  show "2 ^ ?k \<le> s XOR t" by (rule bit_exp_le_nat [OF bucket_of_max(1) [OF st]])
qed

lemma bucket_closer:
  assumes "s < 2 ^ 256" and "t < 2 ^ 256" and "e < 2 ^ 256" and "s \<noteq> t" and "s \<noteq> e"
    and "bucket_of (s XOR e) = bucket_of (s XOR t)"
  shows "e XOR t < s XOR t"
  using bucket_near [OF assms] by (rule less_le_trans)

text \<open>A node with an empty table, for concrete instances.\<close>

definition empty_wb :: "nat \<Rightarrow> WhiteBox" where
  "empty_wb s = zero_wb\<lparr>wb_IdealPeerIds := ideal_ids s, wb_EmptyList := True\<rparr>"

lemma empty_wb_wf [simp]: "wf_wb s (empty_wb s)"
  by (simp add: wf_wb_def empty_wb_def zero_wb_def)

definition some_peer :: "string \<Rightarrow> Peer" where
  "some_peer pub = \<lparr>pe_EncPub = Some ''e'', pe_SignPub = pub, pe_Address = ''a'', pe_Conn = Some ''a''\<rparr>"

lemma some_peer_id: "Peer_Id (some_peer pub) = Some (hexEncode pub @ ''.'' @ hexEncode ''e'')"
  by (simp add: Peer_Id_def some_peer_def)

section \<open>A new node\<close>

lemma New_runs:
  assumes "dir \<noteq> []" and "mkdir dir" and "fresh = Some (pub, prv, encPub, encPrv)" and "length pub = 32"
    and "\<not> selfZero self \<Longrightarrow> length (slice (se_SignPub self)) = 32"
  shows "\<exists>wb. New home mkdir fresh dir addr port self = Some wb \<and>
    wf_wb (SetBytes (pe_SignPub (wb_PeerSelf wb))) wb \<and> wb_EmptyList wb \<and>
    pe_SignPub (wb_PeerSelf wb) = (if selfZero self then pub else slice (se_SignPub self)) \<and>
    wb_SharedDir wb = dir \<and> pe_EncPub (wb_PeerSelf wb) = (if selfZero self then Some encPub else se_EncPub self)"
proof -
  let ?wb0 = "zero_wb\<lparr>wb_Self := self, wb_SharedDir := dir\<rparr>"
  have files: "InitFiles home mkdir dir (zero_wb\<lparr>wb_Self := self\<rparr>) = Some ?wb0"
    using assms(1,2) by (simp add: InitFiles_def zero_wb_def)
  let ?pub = "if selfZero self then pub else slice (se_SignPub self)"
  have "\<exists>wb1. GetKeys fresh (addr @ '':'' @ port) ?wb0 = Some wb1 \<and> slice (se_SignPub (wb_Self wb1)) = ?pub \<and>
      pe_SignPub (wb_PeerSelf wb1) = ?pub \<and> wb_PeerTable wb1 = replicate 256 [] \<and> wb_SharedDir wb1 = dir \<and>
      pe_EncPub (wb_PeerSelf wb1) = (if selfZero self then Some encPub else se_EncPub self)"
    using assms(3)
    by (auto simp: GetKeys_def SetSelf_def selfZero_def Peer_Id_def zero_wb_def slice_def Let_def)
  then obtain wb1 where wb1: "GetKeys fresh (addr @ '':'' @ port) ?wb0 = Some wb1"
      "slice (se_SignPub (wb_Self wb1)) = ?pub" "pe_SignPub (wb_PeerSelf wb1) = ?pub"
      "wb_PeerTable wb1 = replicate 256 []" "wb_SharedDir wb1 = dir"
      "pe_EncPub (wb_PeerSelf wb1) = (if selfZero self then Some encPub else se_EncPub self)" by blast
  let ?s = "SetBytes ?pub" and ?wb2 = "wb1\<lparr>wb_IdealPeerIds := ideal_ids (SetBytes ?pub)\<rparr>"
  have "length ?pub = 32" using assms(4,5) by simp
  then have ideal: "CalculateIdealTableSelf ?pub wb1 = Some ?wb2"
    by (simp add: CalculateIdealTableSelf_def calculateIdealTable_32)
  have table: "InitTable ?pub ?wb2 = Some (?wb2\<lparr>wb_PeerTable := replicate 256 []\<rparr>)"
    by (rule InitTable_ideal) simp
  have self2: "wb_Self ?wb2 = wb_Self wb1" by simp
  let ?wb3 = "?wb2\<lparr>wb_PeerTable := replicate 256 [],
      wb_BsId := addr @ ''/'' @ port @ ''/'' @ ShortId (wb_PeerSelf wb1), wb_EmptyList := True\<rparr>"
  have "New home mkdir fresh dir addr port self = Some (chatStatus (wb_BsId ?wb3) ?wb3)"
    unfolding New_def files bind.bind_lunit wb1(1) wb1(2) ideal self2 table Let_def by simp
  moreover have "wf_wb ?s ?wb3" by (simp add: wf_wb_def)
  ultimately show ?thesis using wb1(3,5,6) by (simp add: chatStatus_def)
qed

section \<open>Properties\<close>

text \<open>
  A new node. With 32-byte keys, given or generated, and a usable shared directory, \<open>New\<close> returns a
  node whose routing table is well-formed for its own key and empty.
\<close>

theorem new_node_wf:
  assumes "dir \<noteq> []" and "mkdir dir" and "fresh = Some (pub, prv, encPub, encPrv)" and "length pub = 32"
    and "\<not> selfZero self \<Longrightarrow> length (slice (se_SignPub self)) = 32"
  shows "\<exists>wb. New home mkdir fresh dir addr port self = Some wb \<and>
    wf_wb (SetBytes (pe_SignPub (wb_PeerSelf wb))) wb \<and> wb_EmptyList wb \<and>
    pe_SignPub (wb_PeerSelf wb) = (if selfZero self then pub else slice (se_SignPub self)) \<and>
    wb_SharedDir wb = dir"
  using New_runs [where ?dir = dir and ?mkdir = mkdir, OF assms(1-3)] assms(4,5) by blast

theorem new_node_wf_witness:
  "\<exists>wb. New None (\<lambda>_. True) (Some (replicate 32 CHR ''k'', ''p'', ''e'', ''q'')) ''d'' ''localhost'' ''3499''
      (wb_Self zero_wb) = Some wb \<and> wf_wb (SetBytes (replicate 32 CHR ''k'')) wb"
  using new_node_wf [of "''d''" "\<lambda>_. True" "Some (replicate 32 CHR ''k'', ''p'', ''e'', ''q'')"
      "replicate 32 CHR ''k''" "''p''" "''e''" "''q''" "wb_Self zero_wb" None "''localhost''" "''3499''"]
  by (auto simp: zero_wb_def selfZero_def)

text \<open>
  C23: The bucket of a key. In a node with a 32-byte key, \<open>closestIndex\<close> of another 32-byte key is the
  position of the highest bit in which the two keys differ, as integers: the exclusive or lies
  between that power of two and the next.
\<close>

theorem closest_index_spec:
  assumes "length signPub = 32" and "calculateIdealTable signPub = Some (wb_IdealPeerIds wb)"
    and "x < 2 ^ 256" and "x \<noteq> SetBytes signPub"
  shows "\<exists>k < 256. closestIndex x wb = Some k \<and> 2 ^ k \<le> SetBytes signPub XOR x \<and> SetBytes signPub XOR x < 2 ^ Suc k"
proof -
  let ?s = "SetBytes signPub"
  have ideal: "wb_IdealPeerIds wb = ideal_ids ?s" using assms(1,2) calculateIdealTable_32 by simp
  have "?s < 2 ^ 256" using SetBytes_less [of signPub] assms(1) by simp
  from xor_less_exp [OF this assms(3)] have d: "?s XOR x < 2 ^ 256" "?s XOR x \<noteq> 0"
    using assms(4) by (simp_all only: xor_eq_0_nat not_False_eq_True)
  show ?thesis
    using closestIndex_ideal [OF ideal] bucket_of_less bucket_of_max [OF d] bit_exp_le_nat by blast
qed

lemma SetBytes_zeros: "SetBytes (replicate n (char_of (0 :: nat))) = 0"
proof (induction n)
  case (Suc n)
  have "replicate (Suc n) (char_of (0 :: nat)) = replicate n (char_of (0 :: nat)) @ [char_of (0 :: nat)]"
    by (simp only: replicate_Suc replicate_append_same)
  then show ?case using Suc by (simp only: SetBytes_snoc) (simp add: of_char_of)
qed simp

theorem closest_index_spec_witness:
  "\<exists>k. closestIndex 5 (empty_wb 0) = Some k \<and> 2 ^ k \<le> (5 :: nat) \<and> (5 :: nat) < 2 ^ Suc k"
proof -
  note z = SetBytes_zeros [of 32]
  have "calculateIdealTable (replicate 32 (char_of (0 :: nat))) = Some (wb_IdealPeerIds (empty_wb 0))"
    by (subst calculateIdealTable_32) (simp_all only: length_replicate z, simp add: empty_wb_def)
  from closest_index_spec [OF length_replicate this, of 5] show ?thesis unfolding z by auto
qed

text \<open>
  The closest peers. On a well-formed table \<open>findClosestN\<close> returns the first \<open>n\<close> entries of the
  bucket of the id, sorted by their distance to the id, entries at equal distance in bucket order;
  it never looks at another bucket.
\<close>

theorem find_closest_n_spec:
  assumes "wf_wb s wb"
  shows "findClosestN idBytes n wb =
    Some (take n (sort_key (\<lambda>entry. SetBytes (pn_Id entry) XOR SetBytes idBytes)
      (wb_PeerTable wb ! bucket_of (s XOR SetBytes idBytes))))"
  using findClosestN_sorts [of wb s] assms by (simp add: wf_wb_def)

theorem find_closest_n_spec_witness: "findClosestN ''ab'' 3 (empty_wb 0) = Some []"
  using find_closest_n_spec [OF empty_wb_wf, of "''ab''" 3 0] bucket_of_less
  by (simp add: empty_wb_def zero_wb_def)

text \<open>
  C6: Adding a peer. On a well-formed table \<open>addPeer\<close> of a peer with keys and a connection changes
  nothing if the cache says the peer is connected; otherwise the peer's bucket, and no other, gains
  exactly that entry (whatever its size: the bound of 20 that \<open>wouldAddPeer\<close> tests is not enforced),
  and the cache says it is connected. The table stays well-formed: buckets sorted by distance, no
  peer twice, every entry with keys, connection and cache entry, and \<open>EmptyList\<close> true exactly when the
  table is empty.
\<close>

theorem add_peer_spec:
  assumes "wf_wb s wb" and "Peer_Id peer = Some key" and "pe_Conn peer \<noteq> None"
  shows "\<exists>wb'. addPeer now peer seenTime wb = Some wb' \<and> wf_wb s wb' \<and> connected wb' key \<and>
    (connected wb key \<longrightarrow> wb' = wb) \<and>
    (\<not> connected wb key \<longrightarrow>
      (\<forall>i < 256. mset (wb_PeerTable wb' ! i) =
        (if i = bucket_of (s XOR SetBytes (pe_SignPub peer))
         then add_mset (added_entry s now peer) (mset (wb_PeerTable wb ! i)) else mset (wb_PeerTable wb ! i))))"
proof (cases "connected wb key")
  case True
  with addPeer_result [OF assms(1,2), of now seenTime] assms(1) show ?thesis by simp
next
  case False
  let ?k = "bucket_of (s XOR SetBytes (pe_SignPub peer))"
  obtain wb' c where r: "addPeer now peer seenTime wb = Some wb'" "wb_PeerTable wb' = (wb_PeerTable wb)
        [?k := ins_after pn_Distance (added_entry s now peer) (wb_PeerTable wb ! ?k)]"
      "wb_PeerCache wb' = (wb_PeerCache wb)(key \<mapsto> c)" "ca_Added c" "\<not> ca_Disconnected c"
    using addPeer_result [OF assms(1,2), of now seenTime] False by auto
  have "length (wb_PeerTable wb) = 256" using assms(1) by (simp add: wf_wb_def)
  then have "\<forall>i < 256. mset (wb_PeerTable wb' ! i) =
      (if i = ?k then add_mset (added_entry s now peer) (mset (wb_PeerTable wb ! i)) else mset (wb_PeerTable wb ! i))"
    by (auto simp: r(2) nth_list_update)
  moreover have "connected wb' key" using r by (simp add: connected_def)
  ultimately show ?thesis using r(1) addPeer_wf [OF assms(1) r(1) assms(3)] False by blast
qed

theorem add_peer_spec_witness:
  "\<exists>wb'. addPeer 0 (some_peer ''k'') 0 (empty_wb 0) = Some wb' \<and> wf_wb 0 wb' \<and>
    connected wb' (hexEncode ''k'' @ ''.'' @ hexEncode ''e'') \<and> size (mset (wb_PeerTable wb' ! bucket_of (SetBytes ''k''))) = 1"
proof -
  have "\<not> connected (empty_wb 0) (hexEncode ''k'' @ ''.'' @ hexEncode ''e'')"
    by (simp add: connected_def empty_wb_def zero_wb_def)
  moreover have "wb_PeerTable (empty_wb 0) ! bucket_of (SetBytes ''k'') = []"
    using bucket_of_less by (simp add: empty_wb_def zero_wb_def)
  ultimately show ?thesis
    using add_peer_spec [OF empty_wb_wf some_peer_id, of "''k''" 0 0 0] bucket_of_less [of "SetBytes ''k''"]
    by (fastforce simp: some_peer_def)
qed

text \<open>
  C24: Removing peers. \<open>removePeer\<close> and \<open>removeStalePeers\<close> never panic on a well-formed table and keep
  it well-formed; \<open>removeStalePeers\<close> removes exactly the entries not seen for more than 60 seconds, and
  \<open>removePeer\<close> exactly the entries with the given signing key.
\<close>

theorem remove_peers_spec:
  assumes "wf_wb s wb"
  shows "(\<exists>wb'. removeStalePeers now wb = Some wb' \<and> wf_wb s wb' \<and>
      wb_PeerTable wb' = map (filter (\<lambda>e. \<not> now - pn_Seen e > 60 * 10 ^ 9)) (wb_PeerTable wb)) \<and>
    (\<exists>wb'. removePeer (hexEncode signPub) wb = Some wb' \<and> wf_wb s wb' \<and>
      wb_PeerTable wb' = map (filter (\<lambda>e. pn_Id e \<noteq> signPub)) (wb_PeerTable wb))"
  using removeStalePeers_filter [OF assms] removePeer_filter [OF assms] by blast

theorem remove_peers_spec_witness:
  "(\<exists>wb'. removeStalePeers 0 (empty_wb 0) = Some wb' \<and> wf_wb 0 wb') \<and>
    (\<exists>wb'. removePeer (hexEncode ''k'') (empty_wb 0) = Some wb' \<and> wf_wb 0 wb')"
  using remove_peers_spec [OF empty_wb_wf, of 0 0 "''k''"] by blast

text \<open>
  A peer that shares its signing key is lost. \<open>removePeer\<close> removes every entry with the signing key
  but marks none in the cache, and a disconnect marks only the id it came from; a peer with the same
  signing key and another encryption key is then out of the table for good, since \<open>addPeer\<close> still takes
  it for connected.
\<close>

theorem removed_peer_not_readded:
  assumes "wf_wb s wb" and "Peer_Id peer = Some key" and "connected wb key"
  shows "\<exists>wb'. removePeer (ShortId peer) wb = Some wb' \<and>
    (\<forall>i < 256. \<forall>e \<in> set (wb_PeerTable wb' ! i). pn_Id e \<noteq> pe_SignPub peer) \<and>
    addPeer now peer seenTime wb' = Some wb'"
proof -
  have hex: "hexDecode (ShortId peer) = Some (pe_SignPub peer)" by (simp add: ShortId_def)
  obtain wb' where r: "removePeer (ShortId peer) wb = Some wb'" "wf_wb s wb'"
      "wb_PeerTable wb' = (wb_PeerTable wb)[bucket_of (s XOR SetBytes (pe_SignPub peer)) :=
        filter (\<lambda>e. pn_Id e \<noteq> pe_SignPub peer) (wb_PeerTable wb ! bucket_of (s XOR SetBytes (pe_SignPub peer)))]"
      "wb_PeerCache wb' = wb_PeerCache wb"
    using removePeer_table [OF assms(1) hex] by blast
  have "pn_Id e \<noteq> pe_SignPub peer" if i: "i < 256" and e: "e \<in> set (wb_PeerTable wb' ! i)" for i e
  proof
    assume eq: "pn_Id e = pe_SignPub peer"
    have "entry_ok s (wb_PeerCache wb') i e" using r(2) i e by (simp add: wf_wb_def bucket_ok_def)
    then have "i = bucket_of (s XOR SetBytes (pe_SignPub peer))" by (simp add: entry_ok_def eq)
    with e eq i assms(1) show False by (simp add: r(3) wf_wb_def)
  qed
  moreover have "connected wb' key" using assms(3) r(4) by (simp add: connected_def)
  ultimately show ?thesis using r(1) addPeer_result [OF r(2) assms(2), of now seenTime] by auto
qed

theorem removed_peer_not_readded_witness:
  "\<exists>wb wb'. addPeer 0 (some_peer ''k'') 0 (empty_wb 0) = Some wb \<and>
    removePeer (hexEncode ''k'') wb = Some wb' \<and> addPeer 0 (some_peer ''k'') 0 wb' = Some wb'"
proof -
  obtain wb c where wb: "addPeer 0 (some_peer ''k'') 0 (empty_wb 0) = Some wb"
      "wb_PeerCache wb = [hexEncode ''k'' @ ''.'' @ hexEncode ''e'' \<mapsto> c]" "ca_Added c" "\<not> ca_Disconnected c"
    using addPeer_result [OF empty_wb_wf some_peer_id, of 0 "''k''" 0 0]
    by (auto simp: connected_def empty_wb_def zero_wb_def)
  have "wf_wb 0 wb" by (rule addPeer_wf [OF empty_wb_wf wb(1)]) (simp add: some_peer_def)
  moreover have "connected wb (hexEncode ''k'' @ ''.'' @ hexEncode ''e'')" using wb by (simp add: connected_def)
  moreover have "ShortId (some_peer ''k'') = hexEncode ''k''" by (simp add: ShortId_def some_peer_def)
  ultimately show ?thesis
    using removed_peer_not_readded [OF _ some_peer_id, of 0 wb "''k''" 0 0] wb(1) by auto
qed

end
