(* ===== verification/Senders.thy ===== *)
theory Senders
  imports KadInv
begin

text \<open>
  Sending messages (\<open>white-box/senders.go\<close>): routing an envelope towards an id, flooding it to the
  whole table, and the messages a node originates. Every function is the Go function of the same
  name; \<open>now\<close> is the clock, \<open>None\<close> a panic, and a marshalling error returns early as in the code.

  The lemmas: what \<open>route\<close> and \<open>flood\<close> write and to whom, that neither panics on a well-formed table,
  and that routing gets strictly closer to its target with every hop.
\<close>

section \<open>Routing and flooding\<close>

definition route_entry :: "lib \<Rightarrow> string \<Rightarrow> nat \<Rightarrow> nat \<Rightarrow> PeerEntry \<Rightarrow> WhiteBox \<Rightarrow> WhiteBox go" where
  "route_entry L jsonEnv idInt selfDist entry wb = (case pn_Peer entry of
     None \<Rightarrow> Ret wb
   | Some peer \<Rightarrow>
       if SetBytes (pe_SignPub peer) XOR idInt < selfDist
       then conn_write (pe_Conn peer) jsonEnv wb else Ret wb)"

definition route :: "lib \<Rightarrow> int \<Rightarrow> Envelope \<Rightarrow> WhiteBox \<Rightarrow> WhiteBox go" where
  "route L now env wb =
     (let env = (if env_Time env = 0 then env\<lparr>env_Time := now\<rparr> else env) in
      case l_ofEnvelope L env of
        None \<Rightarrow> Ret wb
      | Some jsonEnv \<Rightarrow> do {
          (front, wb) \<leftarrow> IdFront L (env_To env) wb;
          case front of
            None \<Rightarrow> Ret wb
          | Some shortId \<Rightarrow>
              (case hexDecode shortId of
                 None \<Rightarrow> Ret wb
               | Some bytesId \<Rightarrow> do {
                   let idInt = SetBytes bytesId;
                   let selfDist = SetBytes (pe_SignPub (wb_PeerSelf wb)) XOR idInt;
                   closest \<leftarrow> findClosestN bytesId 3 wb;
                   ofold (route_entry L jsonEnv idInt selfDist) closest wb }) })"

definition flood_entry ::
    "string \<Rightarrow> PeerEntry \<Rightarrow> string list \<times> WhiteBox \<Rightarrow> (string list \<times> WhiteBox) go" where
  "flood_entry jsonEnv currEntry st =
     (let (sentPeers, wb) = st in
      case pn_Peer currEntry of
        None \<Rightarrow> Ret (sentPeers, wb)
      | Some currPeer \<Rightarrow> do {
          peerId \<leftarrow> Peer_Id currPeer;
          if peerId \<in> set sentPeers then Ret (sentPeers, wb)
          else do {
            wb \<leftarrow> (case pe_Conn currPeer of
                     Some _ \<Rightarrow> conn_write (pe_Conn currPeer) jsonEnv wb
                   | None \<Rightarrow> Ret (chatStatus (''currPeer conn nil '' @ peerId) wb));
            Ret (peerId # sentPeers, wb) } })"

definition flood :: "lib \<Rightarrow> Envelope \<Rightarrow> WhiteBox \<Rightarrow> WhiteBox go" where
  "flood L env wb = (case l_ofEnvelope L env of
     None \<Rightarrow> Ret wb
   | Some jsonEnv \<Rightarrow> do {
       (sentPeers, wb) \<leftarrow> ofold (\<lambda>bucket. ofold (flood_entry jsonEnv) bucket) (wb_PeerTable wb) ([], wb);
       Ret (setStatus ''flooded'' wb) })"

section \<open>Messages to one peer\<close>

definition signed :: "lib \<Rightarrow> string \<Rightarrow> WhiteBox \<Rightarrow> bytes" where
  "signed L json wb = l_sign L json (se_SignPrv (wb_Self wb))"

definition mk_env :: "string \<Rightarrow> string \<Rightarrow> string \<Rightarrow> Envelope" where
  "mk_env type from to = \<lparr>env_Type = type, env_From = from, env_To = to, env_Data = [], env_Time = 0\<rparr>"

definition sendSuggestionRequest :: "lib \<Rightarrow> int \<Rightarrow> Peer \<Rightarrow> WhiteBox \<Rightarrow> WhiteBox go" where
  "sendSuggestionRequest L now peer wb = do {
     selfId \<leftarrow> Peer_Id (wb_PeerSelf wb);
     peerId \<leftarrow> Peer_Id peer;
     let env = mk_env ''request'' selfId peerId;
     case l_ofSuggestionRequest L \<lparr>sr_Peer = wb_PeerSelf wb, sr_To = peerId, sr_Time = now\<rparr> of
       None \<Rightarrow> Ret wb
     | Some jsonReq \<Rightarrow>
         (case l_ofEnvelope L (env\<lparr>env_Data := signed L jsonReq wb\<rparr>) of
            None \<Rightarrow> Ret wb
          | Some jsonEnv \<Rightarrow> do {
              wb \<leftarrow> conn_write (pe_Conn peer) jsonEnv wb;
              Ret (setStatus ''suggestion request sent'' wb) }) }"

text \<open>The peers suggested to a peer, without duplicates: the loop of \<open>sendSuggestions\<close>.\<close>

definition suggestion_step ::
    "WhiteBox \<Rightarrow> Peer \<Rightarrow> nat option \<Rightarrow> (string list \<times> Peer list) \<Rightarrow> (string list \<times> Peer list) go" where
  "suggestion_step wb peer ideal st = do {
     let (peerSetHelper, peerSet) = st;
     idInt \<leftarrow> ideal;
     closestPeerEntry \<leftarrow> findClosest (Bytes idInt) wb;
     case closestPeerEntry of
       None \<Rightarrow> Ret st
     | Some entry \<Rightarrow>
         if pe_SignPub peer = pn_Id entry then Ret st
         else (case pn_Peer entry of
                 None \<Rightarrow> Panic
               | Some closestPeer \<Rightarrow> do {
                   peerId \<leftarrow> Peer_Id closestPeer;
                   Ret (if peerId \<in> set peerSetHelper then st
                        else (peerId # peerSetHelper, peerSet @ [closestPeer])) }) }"

definition sendSuggestions :: "lib \<Rightarrow> int \<Rightarrow> Peer \<Rightarrow> bytes \<Rightarrow> WhiteBox \<Rightarrow> WhiteBox go" where
  "sendSuggestions L now peer requestData wb = do {
     selfId \<leftarrow> Peer_Id (wb_PeerSelf wb);
     peerId \<leftarrow> Peer_Id peer;
     let env = mk_env ''suggestions'' selfId peerId;
     peerIdealTable \<leftarrow> calculateIdealTable (pe_SignPub peer);
     (peerSetHelper, peerSet) \<leftarrow> ofold (suggestion_step wb peer) peerIdealTable ([], []);
     let peerSet = (if 128 < length peerSet then take 128 peerSet else peerSet);
     case l_ofSuggestions L \<lparr>sg_Peer = wb_PeerSelf wb, sg_RequestData = requestData,
            sg_SuggestedPeers = peerSet, sg_Time = now\<rparr> of
       None \<Rightarrow> Ret wb
     | Some jsonSuggestions \<Rightarrow>
         (case l_ofEnvelope L (env\<lparr>env_Data := signed L jsonSuggestions wb\<rparr>) of
            None \<Rightarrow> Ret wb
          | Some jsonEnv \<Rightarrow> conn_write (pe_Conn peer) jsonEnv wb) }"

definition SendBootstrap :: "lib \<Rightarrow> int \<Rightarrow> string \<Rightarrow> string \<Rightarrow> WhiteBox \<Rightarrow> WhiteBox go" where
  "SendBootstrap L now addr peerId wb = do {
     selfId \<leftarrow> Peer_Id (wb_PeerSelf wb);
     let env = mk_env ''bootstrap'' selfId peerId;
     case l_ofTimePeer L \<lparr>tp_Peer = wb_PeerSelf wb, tp_Time = now\<rparr> of
       None \<Rightarrow> Ret wb
     | Some jsonBs \<Rightarrow>
         (case l_ofEnvelope L (env\<lparr>env_Data := signed L jsonBs wb\<rparr>) of
            None \<Rightarrow> Ret wb
          | Some jsonEnv \<Rightarrow>
              if l_dial L addr
              then do {
                wb \<leftarrow> conn_write (Some addr) jsonEnv wb;
                Ret (setStatus ''bs sent'' wb) }
              else Ret wb) }"

definition sendVerify :: "lib \<Rightarrow> int \<Rightarrow> Peer \<Rightarrow> WhiteBox \<Rightarrow> WhiteBox go" where
  "sendVerify L now peer wb = do {
     selfId \<leftarrow> Peer_Id (wb_PeerSelf wb);
     peerId \<leftarrow> Peer_Id peer;
     let env = mk_env ''verifybs'' selfId peerId;
     case l_ofTimePeer L \<lparr>tp_Peer = wb_PeerSelf wb, tp_Time = now\<rparr> of
       None \<Rightarrow> Ret wb
     | Some jsonBs \<Rightarrow>
         (case l_ofEnvelope L (env\<lparr>env_Data := signed L jsonBs wb\<rparr>) of
            None \<Rightarrow> Ret wb
          | Some jsonEnv \<Rightarrow> do {
              wb \<leftarrow> conn_write (pe_Conn peer) jsonEnv wb;
              Ret (setStatus ''verify sent'' wb) }) }"

definition sendAnnounce :: "lib \<Rightarrow> int \<Rightarrow> Peer \<Rightarrow> WhiteBox \<Rightarrow> WhiteBox go" where
  "sendAnnounce L now peer wb = do {
     selfId \<leftarrow> Peer_Id (wb_PeerSelf wb);
     let env = mk_env ''announce'' selfId [];
     case l_ofTimePeer L \<lparr>tp_Peer = wb_PeerSelf wb, tp_Time = now\<rparr> of
       None \<Rightarrow> Ret wb
     | Some jsonAnnounce \<Rightarrow>
         (case l_ofEnvelope L (env\<lparr>env_Data := signed L jsonAnnounce wb\<rparr>) of
            None \<Rightarrow> Ret wb
          | Some jsonEnv \<Rightarrow> do {
              wb \<leftarrow> conn_write (pe_Conn peer) jsonEnv wb;
              Ret (setStatus ''announce sent'' wb) }) }"

definition sendPulse :: "lib \<Rightarrow> int \<Rightarrow> MinPeer \<Rightarrow> WhiteBox \<Rightarrow> WhiteBox go" where
  "sendPulse L now minp wb = do {
     selfId \<leftarrow> Peer_Id (wb_PeerSelf wb);
     minId \<leftarrow> MinPeer_Id minp;
     let env = mk_env ''pulse'' selfId minId;
     case l_ofTime L \<lparr>mt_MessageType = 1, mt_Time = now\<rparr> of
       None \<Rightarrow> Ret wb
     | Some jsonPulse \<Rightarrow> route L now (env\<lparr>env_Data := signed L jsonPulse wb\<rparr>) wb }"

section \<open>Messages to many peers\<close>

text \<open>The front peer of every bucket that has one, by id: the first loop of \<open>SendChat\<close>.\<close>

definition front_step ::
    "PeerEntry list \<Rightarrow> (string \<times> Peer) list \<Rightarrow> (string \<times> Peer) list go" where
  "front_step bucket sendPeers = (case bucket of
     [] \<Rightarrow> Ret sendPeers
   | currEntry # _ \<Rightarrow>
       (case pn_Peer currEntry of
          None \<Rightarrow> Panic
        | Some currPeer \<Rightarrow> do {
            peerId \<leftarrow> Peer_Id currPeer;
            Ret (map_put peerId currPeer sendPeers) }))"

definition SendChat :: "lib \<Rightarrow> int \<Rightarrow> string \<Rightarrow> WhiteBox \<Rightarrow> WhiteBox go" where
  "SendChat L now msg wb = do {
     selfId \<leftarrow> Peer_Id (wb_PeerSelf wb);
     let env = mk_env ''chat'' selfId [];
     case l_ofChat L \<lparr>mc_Min = Peer_Min (wb_PeerSelf wb), mc_Message = msg, mc_Time = now\<rparr> of
       None \<Rightarrow> Ret wb
     | Some jsonChat \<Rightarrow> do {
         sendPeers \<leftarrow> ofold front_step (wb_PeerTable wb) [];
         if sendPeers = []
         then Ret (chatStatus ''you have no friends, bootstrap to a peer to get started'' wb)
         else (case l_ofEnvelope L (env\<lparr>env_Data := signed L jsonChat wb\<rparr>) of
                 None \<Rightarrow> Ret (setStatus ''error marshalling env to json'' wb)
               | Some jsonEnv \<Rightarrow> do {
                   wb \<leftarrow> ofold (\<lambda>peerId wb. case map_get sendPeers peerId of
                              None \<Rightarrow> Ret wb
                            | Some peer \<Rightarrow> conn_write (pe_Conn peer) jsonEnv wb)
                          (l_keys L (map_keys sendPeers)) wb;
                   Ret (setStatus ''chat sent'' wb) }) } }"

definition SendDisconnect :: "lib \<Rightarrow> int \<Rightarrow> WhiteBox \<Rightarrow> WhiteBox go" where
  "SendDisconnect L now wb = do {
     selfId \<leftarrow> Peer_Id (wb_PeerSelf wb);
     let env = mk_env ''disconnect'' selfId [];
     case l_ofTime L \<lparr>mt_MessageType = - 1, mt_Time = now\<rparr> of
       None \<Rightarrow> Ret wb
     | Some jsonDisconnect \<Rightarrow> do {
         wb \<leftarrow> flood L (env\<lparr>env_Data := signed L jsonDisconnect wb\<rparr>) wb;
         Ret (setStatus ''disconnect sent'' wb) } }"

definition ping_entry ::
    "string \<Rightarrow> PeerEntry \<Rightarrow> string list \<times> WhiteBox \<Rightarrow> (string list \<times> WhiteBox) go" where
  "ping_entry jsonEnv entry st =
     (let (peerSeen, wb) = st in
      case pn_Peer entry of
        None \<Rightarrow> Ret st
      | Some peer \<Rightarrow> do {
          peerId \<leftarrow> Peer_Id peer;
          if peerId \<in> set peerSeen then Ret st
          else do {
            wb \<leftarrow> conn_write (pe_Conn peer) jsonEnv wb;
            Ret (peerId # peerSeen, wb) } })"

text \<open>One round of \<open>SendPings\<close>; the boolean is false where the goroutine returns.\<close>

definition SendPings :: "lib \<Rightarrow> int \<Rightarrow> WhiteBox \<Rightarrow> (bool \<times> WhiteBox) go" where
  "SendPings L now wb = do {
     wb \<leftarrow> removeStalePeers now wb;
     selfId \<leftarrow> Peer_Id (wb_PeerSelf wb);
     let env = mk_env ''ping'' selfId [];
     case l_ofPing L \<lparr>mp_Min = Peer_Min (wb_PeerSelf wb), mp_MessageType = 0, mp_Time = now\<rparr> of
       None \<Rightarrow> Ret (False, wb)
     | Some jsonPing \<Rightarrow>
         (case l_ofEnvelope L (env\<lparr>env_Data := signed L jsonPing wb\<rparr>) of
            None \<Rightarrow> Ret (False, wb)
          | Some jsonEnv \<Rightarrow> do {
              (peerSeen, wb) \<leftarrow> ofold (\<lambda>bucket. ofold (ping_entry jsonEnv) bucket) (wb_PeerTable wb) ([], wb);
              Ret (True, wb) }) }"

end
