(* ===== verification/SendFacts.thy ===== *)
theory SendFacts
  imports Senders
begin

text \<open>
  What sending does to a node. \<open>quiet wb wb'\<close>: the step from \<open>wb\<close> to \<open>wb'\<close> only emitted status lines
  and datagrams; every function of \<open>Senders\<close> is quiet, so it keeps the routing table, the cache, the
  parties and the chats shown.
\<close>

section \<open>Quiet steps\<close>

lemma bindE:
  assumes "Option.bind r f = Some y"
  obtains x where "r = Some x" and "f x = Some y"
  using assms by (auto simp: bind_eq_Some_conv)

lemmas go_splits = option.splits sum.splits prod.splits if_splits

fun chats_of :: "action list \<Rightarrow> Chat list" where
  "chats_of [] = []"
| "chats_of (ChatOut c # acts) = c # chats_of acts"
| "chats_of (StatusOut t m # acts) = chats_of acts"
| "chats_of (WriteOut a d # acts) = chats_of acts"

lemma chats_of_append [simp]: "chats_of (xs @ ys) = chats_of xs @ chats_of ys"
  by (induction xs rule: chats_of.induct) simp_all

definition quiet :: "WhiteBox \<Rightarrow> WhiteBox \<Rightarrow> bool" where
  "quiet wb wb' \<longleftrightarrow> (\<exists>acts. wb' = wb\<lparr>wb_out := wb_out wb @ acts\<rparr> \<and> chats_of acts = [])"

named_theorems quiet_dests "operations that only emit status lines and datagrams"

lemma quiet_refl [simp, intro!]: "quiet wb wb"
  by (auto simp: quiet_def intro: exI [of _ "[]"])

lemma quiet_trans [trans]: "quiet a b \<Longrightarrow> quiet b c \<Longrightarrow> quiet a c"
  by (auto simp: quiet_def)

lemma quiet_fields:
  assumes "quiet wb wb'"
  shows "wb_PeerTable wb' = wb_PeerTable wb" "wb_PeerCache wb' = wb_PeerCache wb"
    "wb_IdealPeerIds wb' = wb_IdealPeerIds wb" "wb_EmptyList wb' = wb_EmptyList wb"
    "wb_PeerSelf wb' = wb_PeerSelf wb" "wb_Self wb' = wb_Self wb" "wb_SeenChats wb' = wb_SeenChats wb"
    "wb_Parties wb' = wb_Parties wb" "wb_PendingInvites wb' = wb_PendingInvites wb"
    "wb_NoReroute wb' = wb_NoReroute wb" "wb_Files wb' = wb_Files wb" "wb_Disk wb' = wb_Disk wb"
    "wb_FreshRequests wb' = wb_FreshRequests wb" "wb_RequestChan wb' = wb_RequestChan wb"
    "wb_VerifiedBlockChan wb' = wb_VerifiedBlockChan wb" "wb_NextFile wb' = wb_NextFile wb"
    "wb_SharedDir wb' = wb_SharedDir wb" "chats_of (wb_out wb') = chats_of (wb_out wb)"
  using assms by (auto simp: quiet_def)

lemma quiet_wf: "quiet wb wb' \<Longrightarrow> wf_wb s wb' \<longleftrightarrow> wf_wb s wb"
  by (rule wf_wb_cong) (simp_all add: quiet_fields)

lemma quiet_emits [intro!]:
  "quiet a wb \<Longrightarrow> quiet a (setStatus m wb)" "quiet a wb \<Longrightarrow> quiet a (chatStatus m wb)"
  "quiet a wb \<Longrightarrow> quiet a (emit (WriteOut addr d) wb)"
  by (auto simp: quiet_def setStatus_def chatStatus_def emit_def)

lemma quiet_conn_write [quiet_dests]: "conn_write conn json wb = Ret wb' \<Longrightarrow> quiet wb wb'"
  by (auto simp: conn_write_def split: option.splits)

lemma quiet_ofold:
  assumes "ofold f xs wb = Ret wb'" and "\<And>x a b. f x a = Ret b \<Longrightarrow> quiet a b"
  shows "quiet wb wb'"
  using assms(1) quiet_refl by (rule ofold_invariant) (blast intro: quiet_trans assms(2))

lemma quiet_ofold_snd:
  assumes "ofold f xs st = Ret st'" and "\<And>x a b. f x a = Ret b \<Longrightarrow> quiet (snd a) (snd b)"
  shows "quiet (snd st) (snd st')"
  using assms(1) quiet_refl by (rule ofold_invariant) (blast intro: quiet_trans assms(2))

lemma quiet_IdFront [quiet_dests]: "IdFront L i wb = Ret (r, wb') \<Longrightarrow> quiet wb wb'"
  by (auto simp: IdFront_def elim!: bindE split: sum.splits)

lemma quiet_route_entry [quiet_dests]: "route_entry L j i d e wb = Ret wb' \<Longrightarrow> quiet wb wb'"
  by (auto simp: route_entry_def dest: quiet_dests split: go_splits)

lemma quiet_route [quiet_dests]: "route L now env wb = Ret wb' \<Longrightarrow> quiet wb wb'"
  unfolding route_def Let_def
  by (auto elim!: bindE split: option.splits
      dest!: quiet_IdFront quiet_ofold [OF _ quiet_route_entry] intro: quiet_trans)

lemma quiet_flood_entry: "flood_entry j e st = Ret st' \<Longrightarrow> quiet (snd st) (snd st')"
  by (auto simp: flood_entry_def Let_def elim!: bindE dest!: quiet_dests split: go_splits)

lemma quiet_flood [quiet_dests]:
  assumes "flood L env wb = Ret wb'"
  shows "quiet wb wb'"
proof (cases "l_ofEnvelope L env")
  case (Some j)
  with assms obtain st where "ofold (\<lambda>bucket. ofold (flood_entry j) bucket) (wb_PeerTable wb) ([], wb) = Ret st"
      "wb' = setStatus ''flooded'' (snd st)"
    by (auto simp: flood_def elim!: bindE)
  moreover from this(1) have "quiet (snd ([] :: string list, wb)) (snd st)"
    by (rule quiet_ofold_snd) (rule quiet_ofold_snd, assumption, rule quiet_flood_entry)
  ultimately show ?thesis by auto
qed (use assms in \<open>simp add: flood_def\<close>)

lemma quiet_sendSuggestionRequest [quiet_dests]: "sendSuggestionRequest L now peer wb = Ret wb' \<Longrightarrow> quiet wb wb'"
  by (auto simp: sendSuggestionRequest_def Let_def elim!: bindE dest!: quiet_dests split: go_splits)

lemma quiet_sendSuggestions [quiet_dests]: "sendSuggestions L now peer dat wb = Ret wb' \<Longrightarrow> quiet wb wb'"
  by (auto simp: sendSuggestions_def Let_def elim!: bindE dest!: quiet_dests split: go_splits)

lemma quiet_SendBootstrap [quiet_dests]: "SendBootstrap L now addr peerId wb = Ret wb' \<Longrightarrow> quiet wb wb'"
  by (auto simp: SendBootstrap_def Let_def elim!: bindE dest!: quiet_dests split: go_splits)

lemma quiet_sendVerify [quiet_dests]: "sendVerify L now peer wb = Ret wb' \<Longrightarrow> quiet wb wb'"
  by (auto simp: sendVerify_def Let_def elim!: bindE dest!: quiet_dests split: go_splits)

lemma quiet_sendAnnounce [quiet_dests]: "sendAnnounce L now peer wb = Ret wb' \<Longrightarrow> quiet wb wb'"
  by (auto simp: sendAnnounce_def Let_def elim!: bindE dest!: quiet_dests split: go_splits)

lemma quiet_sendPulse [quiet_dests]: "sendPulse L now minp wb = Ret wb' \<Longrightarrow> quiet wb wb'"
  by (auto simp: sendPulse_def Let_def elim!: bindE dest!: quiet_dests split: go_splits)

lemma quiet_chat_write:
  "(case map_get sendPeers peerId of None \<Rightarrow> Ret wb | Some peer \<Rightarrow> conn_write (pe_Conn peer) j wb) = Ret wb' \<Longrightarrow> quiet wb wb'"
  by (auto dest!: quiet_dests split: option.splits)

lemma quiet_SendChat [quiet_dests]: "SendChat L now msg wb = Ret wb' \<Longrightarrow> quiet wb wb'"
  by (auto simp: SendChat_def Let_def elim!: bindE dest!: quiet_ofold [OF _ quiet_chat_write] split: go_splits)

lemma quiet_SendDisconnect [quiet_dests]: "SendDisconnect L now wb = Ret wb' \<Longrightarrow> quiet wb wb'"
  by (auto simp: SendDisconnect_def Let_def elim!: bindE dest!: quiet_dests split: go_splits)

lemma quiet_ping_entry: "ping_entry j e st = Ret st' \<Longrightarrow> quiet (snd st) (snd st')"
  by (auto simp: ping_entry_def Let_def elim!: bindE dest!: quiet_dests split: go_splits)

end
