(* ===== verification/Routing.thy ===== *)
theory Routing
  imports SendFacts
begin

text \<open>
  Routing of an envelope towards an id: what \<open>route\<close> of \<open>white-box/senders.go\<close> writes and when it
  panics at a node with a well-formed table, and that in a network of well-formed nodes every hop gets closer to
  the target, so that routes have no loops and at most 256 hops.
\<close>

section \<open>What route writes\<close>

text \<open>The entries \<open>route\<close> writes to, at a node with key \<open>s\<close>, for a target with key \<open>t\<close>.\<close>

definition next_entries :: "nat \<Rightarrow> nat \<Rightarrow> WhiteBox \<Rightarrow> PeerEntry list" where
  "next_entries s t wb = filter (\<lambda>e. SetBytes (pn_Id e) XOR t < s XOR t)
     (take 3 (sort_key (\<lambda>e. SetBytes (pn_Id e) XOR t) (wb_PeerTable wb ! bucket_of (s XOR t))))"

definition entry_addr :: "PeerEntry \<Rightarrow> string" where
  "entry_addr e = the (Option.bind (pn_Peer e) pe_Conn)"

definition line :: "string \<Rightarrow> string" where
  "line j = j @ [char_of (10 :: nat)]"

text \<open>All peers of a table.\<close>

definition all_entries :: "WhiteBox \<Rightarrow> PeerEntry list" where
  "all_entries wb = concat (wb_PeerTable wb)"

lemma next_entries_bucket:
  assumes "e \<in> set (next_entries s t wb)"
  shows "e \<in> set (wb_PeerTable wb ! bucket_of (s XOR t))" "SetBytes (pn_Id e) XOR t < s XOR t"
  using assms by (auto simp: next_entries_def dest: in_set_takeD)

lemma route_entries:
  assumes "\<forall>e \<in> set es. \<exists>peer addr. pn_Peer e = Some peer \<and> pe_SignPub peer = pn_Id e \<and> pe_Conn peer = Some addr"
  shows "ofold (route_entry L j t d) es wb =
    Ret (wb\<lparr>wb_out := wb_out wb @ map (\<lambda>e. WriteOut (entry_addr e) (line j))
      (filter (\<lambda>e. SetBytes (pn_Id e) XOR t < d) es)\<rparr>)"
  using assms
proof (induction es arbitrary: wb)
  case (Cons e es)
  then obtain peer addr where e: "pn_Peer e = Some peer" "pe_SignPub peer = pn_Id e" "pe_Conn peer = Some addr"
    by auto
  then have "entry_addr e = addr" by (simp add: entry_addr_def)
  moreover have "\<forall>e \<in> set es. \<exists>peer addr. pn_Peer e = Some peer \<and> pe_SignPub peer = pn_Id e \<and> pe_Conn peer = Some addr"
    using Cons.prems by simp
  note IH = Cons.IH [OF this]
  ultimately show ?case using e by (simp add: route_entry_def conn_write_def emit_def IH line_def)
qed simp

definition timed :: "int \<Rightarrow> Envelope \<Rightarrow> Envelope" where
  "timed now env = (if env_Time env = 0 then env\<lparr>env_Time := now\<rparr> else env)"

lemma route_run:
  assumes wf: "wf_wb s wb" and s: "SetBytes (pe_SignPub (wb_PeerSelf wb)) = s"
    and j: "l_ofEnvelope L (timed now env) = Some j"
    and i: "IdToMin (l_spare L) (env_To env) = Ret (Inr minp)"
  shows "route L now env wb = Ret (wb\<lparr>wb_out := wb_out wb @
    map (\<lambda>e. WriteOut (entry_addr e) (line j)) (next_entries s (SetBytes (mi_SignPub minp)) wb)\<rparr>)"
proof -
  let ?t = "SetBytes (mi_SignPub minp)"
  let ?es = "take 3 (sort_key (\<lambda>e. SetBytes (pn_Id e) XOR ?t) (wb_PeerTable wb ! bucket_of (s XOR ?t)))"
  have f: "findClosestN (mi_SignPub minp) 3 wb = Some ?es"
    using findClosestN_sorts [of wb s] wf by (simp add: wf_wb_def)
  have "\<forall>e \<in> set ?es. \<exists>peer addr. pn_Peer e = Some peer \<and> pe_SignPub peer = pn_Id e \<and> pe_Conn peer = Some addr"
    using wf bucket_of_less by (fastforce simp: wf_wb_def bucket_ok_def entry_ok_def dest: in_set_takeD)
  note run = route_entries [OF this]
  have to: "env_To (timed now env) = env_To env" by (simp add: timed_def)
  show ?thesis
    unfolding route_def Let_def timed_def [symmetric] j option.case to IdFront_def i bind.bind_lunit sum.case
      prod.case hexDecode_hexEncode s f run next_entries_def by simp
qed

lemma IdToMin_panics:
  "IdToMin spare i = Panic \<longleftrightarrow> (\<exists>signHex encHex encBytes. split_on CHR ''.'' i = [signHex, encHex] \<and>
    hexDecode signHex \<noteq> None \<and> hexDecode encHex = Some encBytes \<and> length (encBytes @ spare encHex) < 32)"
  unfolding IdToMin_def by (auto simp: Let_def split: list.split option.split)

lemma route_bad_id:
  assumes "l_ofEnvelope L (timed now env) = Some j"
  shows "IdToMin (l_spare L) (env_To env) = Panic \<Longrightarrow> route L now env wb = Panic"
    "IdToMin (l_spare L) (env_To env) = Ret (Inl err) \<Longrightarrow> route L now env wb = Ret (setStatus err wb)"
proof -
  have to: "env_To (timed now env) = env_To env" by (simp add: timed_def)
  show "IdToMin (l_spare L) (env_To env) = Panic \<Longrightarrow> route L now env wb = Panic"
      "IdToMin (l_spare L) (env_To env) = Ret (Inl err) \<Longrightarrow> route L now env wb = Ret (setStatus err wb)"
    unfolding route_def Let_def timed_def [symmetric] assms option.case to by (simp_all add: IdFront_def)
qed

lemma route_panics:
  assumes "wf_wb s wb" and "SetBytes (pe_SignPub (wb_PeerSelf wb)) = s" and "l_ofEnvelope L (timed now env) = Some j"
  shows "route L now env wb = Panic \<longleftrightarrow> IdToMin (l_spare L) (env_To env) = Panic"
proof (cases "IdToMin (l_spare L) (env_To env)")
  case None
  with route_bad_id(1) [OF assms(3)] show ?thesis by simp
next
  case (Some r)
  with route_bad_id(2) [OF assms(3)] route_run [OF assms] show ?thesis by (cases r) simp_all
qed

lemma route_returns:
  assumes "wf_wb (SetBytes (pe_SignPub (wb_PeerSelf wb))) wb" and "IdToMin (l_spare L) (env_To env) \<noteq> Panic"
  shows "\<exists>wb'. route L now env wb = Ret wb'"
proof (cases "l_ofEnvelope L (timed now env)")
  case None
  then show ?thesis by (simp add: route_def Let_def flip: timed_def)
next
  case (Some j)
  from route_panics [OF assms(1) refl Some] assms(2) show ?thesis by auto
qed

text \<open>
  C17: Routing. At a node with a well-formed table, \<open>route\<close> of an envelope, stamped with the time if it had none:
  sends nothing when the envelope cannot be marshalled; sends nothing and reports when the target's id
  is malformed; panics exactly when the id has two hexadecimal halves of which the second, with the spare
  capacity of its buffer, is shorter than a key; and otherwise only writes, namely the envelope to those of
  the three peers of the target's bucket closest to the target that are closer to it than the node
  itself, closest first.
\<close>

theorem route_spec:
  assumes "wf_wb (SetBytes (pe_SignPub (wb_PeerSelf wb))) wb"
  shows "(case l_ofEnvelope L (if env_Time env = 0 then env\<lparr>env_Time := now\<rparr> else env) of
      None \<Rightarrow> route L now env wb = Ret wb
    | Some j \<Rightarrow>
        (route L now env wb = Panic \<longleftrightarrow> (\<exists>signHex encHex encBytes. split_on CHR ''.'' (env_To env) = [signHex, encHex] \<and>
          hexDecode signHex \<noteq> None \<and> hexDecode encHex = Some encBytes \<and> length (encBytes @ l_spare L encHex) < 32)) \<and>
        (\<forall>err. IdToMin (l_spare L) (env_To env) = Ret (Inl err) \<longrightarrow> route L now env wb = Ret (setStatus err wb)) \<and>
        (\<forall>minp. IdToMin (l_spare L) (env_To env) = Ret (Inr minp) \<longrightarrow>
          (let t = SetBytes (mi_SignPub minp); s = SetBytes (pe_SignPub (wb_PeerSelf wb));
             hops = filter (\<lambda>e. SetBytes (pn_Id e) XOR t < s XOR t)
               (take 3 (sort_key (\<lambda>e. SetBytes (pn_Id e) XOR t) (wb_PeerTable wb ! bucket_of (s XOR t))))
           in route L now env wb = Ret (wb\<lparr>wb_out := wb_out wb @ map (\<lambda>e. WriteOut (entry_addr e) (line j)) hops\<rparr>))))"
proof (cases "l_ofEnvelope L (timed now env)")
  case None
  then show ?thesis by (simp add: route_def Let_def flip: timed_def)
next
  case (Some j)
  note bad = route_bad_id [OF Some]
  note good = route_run [OF assms refl Some, unfolded next_entries_def]
  have "route L now env wb = Panic \<longleftrightarrow> IdToMin (l_spare L) (env_To env) = Panic"
    by (rule route_panics [OF assms refl Some])
  then have "route L now env wb = Panic \<longleftrightarrow> (\<exists>signHex encHex encBytes. split_on CHR ''.'' (env_To env) = [signHex, encHex] \<and>
      hexDecode signHex \<noteq> None \<and> hexDecode encHex = Some encBytes \<and> length (encBytes @ l_spare L encHex) < 32)"
    unfolding IdToMin_panics .
  moreover have "l_ofEnvelope L (if env_Time env = 0 then env\<lparr>env_Time := now\<rparr> else env) = Some j"
    using Some by (simp add: timed_def)
  ultimately show ?thesis unfolding Let_def by (simp only: option.case) (blast intro: bad(2) good)
qed

section \<open>Hops\<close>

text \<open>A relation whose every step lowers a rank: the contract of a routing algorithm.\<close>

locale routing =
  fixes hop :: "'n \<Rightarrow> 'n \<Rightarrow> bool" and rank :: "'n \<Rightarrow> nat"
  assumes hop_rank: "hop n m \<Longrightarrow> rank m < rank n"
begin

lemma path_rank: "(hop ^^ k) n m \<Longrightarrow> k + rank m \<le> rank n"
proof (induction k arbitrary: m)
  case (Suc k)
  then obtain l where "(hop ^^ k) n l" "hop l m" by auto
  with Suc.IH [of l] hop_rank [of l m] show ?case by simp
qed simp

lemma no_loop: "(hop ^^ k) n n \<Longrightarrow> k = 0"
  using path_rank [of k n n] by simp

end

text \<open>
  A network gives every address the state of the node there. \<open>hop L net env a b\<close>: \<open>route\<close>, run for the
  envelope at the node at \<open>a\<close>, writes to the address \<open>b\<close>.
\<close>

definition hop :: "lib \<Rightarrow> (string \<Rightarrow> WhiteBox) \<Rightarrow> Envelope \<Rightarrow> string \<Rightarrow> string \<Rightarrow> bool" where
  "hop L net env a b \<longleftrightarrow> (\<exists>now wb' d. route L now env (net a) = Ret wb' \<and>
     WriteOut b d \<in> set (drop (length (wb_out (net a))) (wb_out wb')))"

definition node_key :: "(string \<Rightarrow> WhiteBox) \<Rightarrow> string \<Rightarrow> nat" where
  "node_key net a = SetBytes (pe_SignPub (wb_PeerSelf (net a)))"

text \<open>
  Every node has a well-formed table and a 32-byte key, and the peers in its table are at the addresses that
  their entries give.
\<close>

definition wf_net :: "(string \<Rightarrow> WhiteBox) \<Rightarrow> bool" where
  "wf_net net \<longleftrightarrow> (\<forall>a. wf_wb (node_key net a) (net a) \<and> length (pe_SignPub (wb_PeerSelf (net a))) = 32 \<and>
     (\<forall>e \<in> set (all_entries (net a)). pe_SignPub (wb_PeerSelf (net (entry_addr e))) = pn_Id e))"

definition wf_hop :: "lib \<Rightarrow> (string \<Rightarrow> WhiteBox) \<Rightarrow> Envelope \<Rightarrow> nat \<Rightarrow> string \<Rightarrow> string \<Rightarrow> bool" where
  "wf_hop L net env t a b \<longleftrightarrow> wf_net net \<and> t < 2 ^ 256 \<and>
     (\<exists>minp. IdToMin (l_spare L) (env_To env) = Ret (Inr minp) \<and> SetBytes (mi_SignPub minp) = t) \<and> hop L net env a b"

definition hop_rank :: "nat \<Rightarrow> nat \<Rightarrow> nat" where
  "hop_rank t n = (if n = t then 0 else Suc (bucket_of (n XOR t)))"

lemma node_key_less: "wf_net net \<Longrightarrow> node_key net a < 2 ^ 256"
  using SetBytes_less [of "pe_SignPub (wb_PeerSelf (net a))"] by (simp add: wf_net_def node_key_def)

text \<open>What a hop means in the tables: the next node is one of the entries that \<open>route\<close> writes to.\<close>

lemma wf_hop_entry:
  assumes "wf_hop L net env t a b"
  shows "\<exists>e \<in> set (next_entries (node_key net a) t (net a)). node_key net b = SetBytes (pn_Id e)"
proof -
  from assms obtain minp now wb' d where net: "wf_net net"
      and i: "IdToMin (l_spare L) (env_To env) = Ret (Inr minp)" and t: "SetBytes (mi_SignPub minp) = t"
      and r: "route L now env (net a) = Ret wb'" and w: "WriteOut b d \<in> set (drop (length (wb_out (net a))) (wb_out wb'))"
    by (auto simp: wf_hop_def hop_def)
  have wf: "wf_wb (node_key net a) (net a)" using net by (simp add: wf_net_def)
  show ?thesis
  proof (cases "l_ofEnvelope L (timed now env)")
    case None
    then have "wb' = net a" using r by (simp add: route_def timed_def Let_def)
    with w show ?thesis by simp
  next
    case (Some j)
    from route_run [OF wf _ Some i] r t have "wb_out wb' = wb_out (net a) @
        map (\<lambda>e. WriteOut (entry_addr e) (line j)) (next_entries (node_key net a) t (net a))"
      by (simp add: node_key_def)
    with w obtain e where e: "e \<in> set (next_entries (node_key net a) t (net a))" "entry_addr e = b" by auto
    have "bucket_of (node_key net a XOR t) < length (wb_PeerTable (net a))"
      using wf bucket_of_less by (simp add: wf_wb_def)
    then have "e \<in> set (all_entries (net a))"
      using next_entries_bucket(1) [OF e(1)] by (auto simp: all_entries_def)
    with net e(2) have "pe_SignPub (wb_PeerSelf (net b)) = pn_Id e" by (auto simp: wf_net_def)
    with e(1) show ?thesis by (auto simp: node_key_def)
  qed
qed

lemma bucket_of_below:
  assumes "x < 2 ^ k" and "x \<noteq> 0" and "x < 2 ^ 256"
  shows "bucket_of x < k"
proof -
  have "2 ^ bucket_of x \<le> x" by (rule bit_exp_le_nat [OF bucket_of_max(1) [OF assms(3,2)]])
  then have "(2 :: nat) ^ bucket_of x < 2 ^ k" using assms(1) by (rule le_less_trans)
  then show ?thesis by simp
qed

lemma wf_hop_rank:
  assumes "wf_hop L net env t a b"
  shows "hop_rank t (node_key net b) < hop_rank t (node_key net a)"
    "node_key net b XOR t < node_key net a XOR t"
proof -
  let ?n = "node_key net a" and ?m = "node_key net b"
  let ?k = "bucket_of (?n XOR t)"
  have net: "wf_net net" and t: "t < 2 ^ 256" using assms by (simp_all add: wf_hop_def)
  note n = node_key_less [OF net, of a] and m = node_key_less [OF net, of b]
  from wf_hop_entry [OF assms] obtain e where e: "e \<in> set (next_entries ?n t (net a))" "?m = SetBytes (pn_Id e)" by blast
  note b = next_entries_bucket [OF e(1)]
  show closer: "?m XOR t < ?n XOR t" using b(2) e(2) by simp
  have "wf_wb ?n (net a)" using net by (simp add: wf_net_def)
  then have nm: "bucket_of (?n XOR ?m) = ?k"
    using b(1) e(2) bucket_of_less by (auto simp: wf_wb_def bucket_ok_def entry_ok_def)
  have nt: "?n \<noteq> t" and "?n \<noteq> ?m" using closer by auto
  then have near: "?m XOR t < 2 ^ ?k" using bucket_near(1) [OF n t m _ _ nm] by simp
  show "hop_rank t ?m < hop_rank t ?n"
  proof (cases "?m = t")
    case True
    with nt show ?thesis by (simp add: hop_rank_def)
  next
    case False
    then have "bucket_of (?m XOR t) < ?k"
      using bucket_of_below [OF near] xor_less_exp [OF m t] by (simp add: xor_eq_0_nat)
    with nt False show ?thesis by (simp add: hop_rank_def)
  qed
qed

interpretation route_dist: routing "wf_hop L net env t" "\<lambda>a. node_key net a XOR t" for L net env t
  by unfold_locales (rule wf_hop_rank)

interpretation route_bucket: routing "wf_hop L net env t" "\<lambda>a. hop_rank t (node_key net a)" for L net env t
  by unfold_locales (rule wf_hop_rank)

lemma hop_path_wf:
  assumes "wf_net net" and "IdToMin (l_spare L) (env_To env) = Ret (Inr minp)" and "length (mi_SignPub minp) = 32"
    and "(hop L net env ^^ k) a b"
  shows "(wf_hop L net env (SetBytes (mi_SignPub minp)) ^^ k) a b"
proof -
  have "SetBytes (mi_SignPub minp) < 2 ^ 256" using SetBytes_less [of "mi_SignPub minp"] assms(3) by simp
  then have "hop L net env \<le> wf_hop L net env (SetBytes (mi_SignPub minp))"
    using assms(1,2) by (auto simp: wf_hop_def)
  from relpowp_mono [of "hop L net env" "wf_hop L net env (SetBytes (mi_SignPub minp))"] this assms(4)
  show ?thesis by blast
qed

text \<open>
  C4: Routes end. In a network of well-formed nodes with 32-byte keys that know their peers' addresses, every
  chain of hops that \<open>route\<close> makes for an envelope to a 32-byte key gets closer to the key with every hop,
  never comes back to a node, and has at most 256 hops, whatever the tables hold.
\<close>

theorem route_hops_bounded:
  assumes "wf_net net" and "IdToMin (l_spare L) (env_To env) = Ret (Inr minp)" and "length (mi_SignPub minp) = 32"
    and "(hop L net env ^^ k) a b"
  defines "t \<equiv> SetBytes (mi_SignPub minp)"
  shows "k \<le> 256 \<and> k + (node_key net b XOR t) \<le> node_key net a XOR t \<and> (a = b \<longrightarrow> k = 0)"
proof (intro conjI impI)
  note path = hop_path_wf [OF assms(1-4), folded t_def]
  have "k + hop_rank t (node_key net b) \<le> hop_rank t (node_key net a)" by (rule route_bucket.path_rank [OF path])
  moreover have "hop_rank t (node_key net a) \<le> 256"
    using bucket_of_less [of "node_key net a XOR t"] by (simp add: hop_rank_def)
  ultimately show "k \<le> 256" by simp
  show "k + (node_key net b XOR t) \<le> node_key net a XOR t" by (rule route_dist.path_rank [OF path])
  show "k = 0" if "a = b" using route_dist.no_loop path that by blast
qed

text \<open>A node with the key 0 and one peer.\<close>

lemma one_peer:
  assumes "length pub = 32"
  shows "\<exists>wb. wf_wb 0 wb \<and> wb_PeerTable wb = (replicate 256 [])
    [bucket_of (SetBytes pub) := [added_entry 0 0 (some_peer pub)]] \<and> pe_SignPub (wb_PeerSelf wb) = []"
proof -
  have nc: "\<not> connected (empty_wb 0) (hexEncode pub @ ''.'' @ hexEncode ''e'')"
    by (simp add: connected_def empty_wb_def zero_wb_def)
  have "wb_PeerTable (empty_wb 0) = replicate 256 []" "pe_SignPub (wb_PeerSelf (empty_wb 0)) = []"
    by (simp_all add: empty_wb_def zero_wb_def)
  with addPeer_result [OF empty_wb_wf some_peer_id, of 0 pub 0 0] nc
  obtain wb where "addPeer 0 (some_peer pub) 0 (empty_wb 0) = Some wb"
      "wb_PeerTable wb = (replicate 256 [])[bucket_of (SetBytes pub) := [added_entry 0 0 (some_peer pub)]]"
      "pe_SignPub (wb_PeerSelf wb) = []"
    using bucket_of_less [of "SetBytes pub"] by (auto simp: some_peer_def)
  with addPeer_wf [OF empty_wb_wf] show ?thesis by (fastforce simp: some_peer_def)
qed

definition key_one :: bytes where
  "key_one = replicate 31 (char_of (0 :: nat)) @ [char_of (1 :: nat)]"

lemma key_one_simps: "length key_one = 32" "SetBytes key_one = 1"
  by (simp_all add: key_one_def SetBytes_zeros of_char_of)

text \<open>Two nodes, with the keys 0 and 1; the first knows the second, which is at \<open>a\<close>.\<close>

definition at_key :: "bytes \<Rightarrow> WhiteBox \<Rightarrow> WhiteBox" where
  "at_key pub wb = wb\<lparr>wb_PeerSelf := (wb_PeerSelf wb)\<lparr>pe_SignPub := pub\<rparr>\<rparr>"

definition to_one :: Envelope where
  "to_one = mk_env ''pulse'' [] (hexEncode key_one @ ''.'' @ hexEncode key_one)"

lemma at_key_simps [simp]: "wb_PeerTable (at_key pub wb) = wb_PeerTable wb" "pe_SignPub (wb_PeerSelf (at_key pub wb)) = pub"
    "wf_wb s (at_key pub wb) \<longleftrightarrow> wf_wb s wb" "all_entries (at_key pub wb) = all_entries wb"
  by (simp_all add: at_key_def all_entries_def) (rule wf_wb_cong, simp_all)

lemma to_one_id: "IdToMin spare (env_To to_one) = Ret (Inr \<lparr>mi_EncPub = Some key_one, mi_SignPub = key_one\<rparr>)"
  using IdToMin_of_hex [OF key_one_simps(1), of spare key_one] by (simp add: to_one_def mk_env_def)

lemma one_hop: "\<exists>net. wf_net net \<and> hop (L\<lparr>l_ofEnvelope := \<lambda>_. Some ''{}''\<rparr>) net to_one ''b'' ''a''"
proof -
  let ?L = "L\<lparr>l_ofEnvelope := \<lambda>_. Some ''{}''\<rparr>" and ?e = "added_entry 0 0 (some_peer key_one)"
  obtain wb where wb: "wf_wb 0 wb" "wb_PeerTable wb = (replicate 256 []) [bucket_of (SetBytes key_one) := [?e]]"
    using one_peer [OF key_one_simps(1)] by blast
  let ?zero = "at_key (replicate 32 (char_of (0 :: nat))) wb"
  let ?net = "\<lambda>x. if x = ''a'' then at_key key_one (empty_wb 1) else ?zero"
  have e: "pn_Id ?e = key_one" "entry_addr ?e = ''a''" by (simp_all add: added_entry_def some_peer_def entry_addr_def)
  have "set (all_entries wb) \<subseteq> {?e}"
    unfolding all_entries_def wb(2) using set_update_subset_insert [of "replicate 256 []" _ "[?e]"] by fastforce
  moreover have "all_entries (empty_wb 1) = []" by (simp add: all_entries_def empty_wb_def zero_wb_def)
  ultimately have net: "wf_net ?net"
    using wb(1) key_one_simps by (auto simp: wf_net_def node_key_def SetBytes_zeros e)
  have zero: "wf_wb 0 ?zero" "SetBytes (pe_SignPub (wb_PeerSelf ?zero)) = 0"
    using wb(1) by (simp_all add: SetBytes_zeros)
  have "next_entries 0 1 ?zero = [?e]"
    using bucket_of_less [of 1] by (simp add: next_entries_def wb(2) key_one_simps e(1))
  with route_run [OF zero, of ?L 7 to_one "''{}''"] to_one_id
  have "route ?L 7 to_one ?zero = Ret (?zero\<lparr>wb_out := wb_out ?zero @ [WriteOut ''a'' (line ''{}'')]\<rparr>)"
    by (simp add: key_one_simps e(2))
  then have "hop ?L ?net to_one ''b'' ''a''" unfolding hop_def
    by (intro exI [of _ 7] exI [of _ "?zero\<lparr>wb_out := wb_out ?zero @ [WriteOut ''a'' (line ''{}'')]\<rparr>"]
        exI [of _ "line ''{}''"]) simp
  with net show ?thesis by blast
qed

theorem route_hops_bounded_witness:
  "\<forall>L. \<exists>net. (hop (L\<lparr>l_ofEnvelope := \<lambda>_. Some ''{}''\<rparr>) net to_one ^^ 1) ''b'' ''a'' \<and>
    1 + (node_key net ''a'' XOR 1) \<le> node_key net ''b'' XOR 1"
proof
  fix L :: lib
  obtain net where "wf_net net" "hop (L\<lparr>l_ofEnvelope := \<lambda>_. Some ''{}''\<rparr>) net to_one ''b'' ''a''" using one_hop by blast
  with route_hops_bounded [of net "L\<lparr>l_ofEnvelope := \<lambda>_. Some ''{}''\<rparr>" to_one _ 1 "''b''" "''a''"] to_one_id
  show "\<exists>net. (hop (L\<lparr>l_ofEnvelope := \<lambda>_. Some ''{}''\<rparr>) net to_one ^^ 1) ''b'' ''a'' \<and>
      1 + (node_key net ''a'' XOR 1) \<le> node_key net ''b'' XOR 1"
    by (auto simp: key_one_simps)
qed

section \<open>The closest peer of the whole table\<close>

lemma other_bucket_far:
  assumes "s < 2 ^ 256" and "t < 2 ^ 256" and "x < 2 ^ 256" and "s \<noteq> t" and "s \<noteq> x"
    and "bucket_of (s XOR x) \<noteq> bucket_of (s XOR t)"
  shows "2 ^ bucket_of (s XOR t) \<le> x XOR t"
proof -
  let ?k = "bucket_of (s XOR t)" and ?j = "bucket_of (s XOR x)"
  have sx: "s XOR x < 2 ^ 256" "s XOR x \<noteq> 0" and st: "s XOR t < 2 ^ 256" "s XOR t \<noteq> 0"
    using assms xor_less_exp by (simp_all only: xor_eq_0_nat not_False_eq_True)
  note X = bucket_of_max [OF sx] and T = bucket_of_max [OF st]
  have eq: "x XOR t = (s XOR x) XOR (s XOR t)" by (simp only: xor_xor_cancel)
  have high: "\<not> bit y i" if "y < 2 ^ Suc b" "b < i" for y b i :: nat
    using that bit_exp_le_nat [of y i] by (metis Suc_leI less_le_trans linorder_not_less one_less_numeral_iff
        power_increasing_iff semiring_norm(76))
  show ?thesis
  proof (cases "?j < ?k")
    case True
    then have "bit (x XOR t) ?k" using high [OF X(2) True] T(1) unfolding eq by (simp add: bit_xor_iff)
    then show ?thesis by (rule bit_exp_le_nat)
  next
    case False
    then have lt: "?k < ?j" using assms(6) by simp
    then have "bit (x XOR t) ?j" using high [OF T(2) lt] X(1) unfolding eq by (simp add: bit_xor_iff)
    then have "2 ^ ?j \<le> x XOR t" by (rule bit_exp_le_nat)
    moreover have "(2 :: nat) ^ ?k \<le> 2 ^ ?j" using lt by simp
    ultimately show ?thesis by (rule order_trans [rotated])
  qed
qed

text \<open>
  C22: One bucket is enough. \<open>findClosest\<close> searches only the bucket of the id, but when that bucket is not
  empty the entry it returns is a closest one of the whole table (with 32-byte keys, for an id that is
  not the node's own).
\<close>

theorem find_closest_global:
  assumes "wf_wb s wb" and "s < 2 ^ 256" and "length idBytes = 32" and "s \<noteq> SetBytes idBytes"
    and "\<forall>e \<in> set (all_entries wb). length (pn_Id e) = 32 \<and> SetBytes (pn_Id e) \<noteq> s"
    and "wb_PeerTable wb ! bucket_of (s XOR SetBytes idBytes) \<noteq> []"
  shows "\<exists>e \<in> set (all_entries wb). findClosest idBytes wb = Some (Some e) \<and>
    (\<forall>x \<in> set (all_entries wb). SetBytes (pn_Id e) XOR SetBytes idBytes \<le> SetBytes (pn_Id x) XOR SetBytes idBytes)"
proof -
  let ?t = "SetBytes idBytes" and ?d = "\<lambda>e. SetBytes (pn_Id e) XOR SetBytes idBytes"
  let ?k = "bucket_of (s XOR ?t)"
  let ?b = "wb_PeerTable wb ! ?k"
  have k: "?k < length (wb_PeerTable wb)" using assms(1) bucket_of_less by (simp add: wf_wb_def)
  have t: "?t < 2 ^ 256" using SetBytes_less [of idBytes] assms(3) by simp
  obtain e es where es: "sort_key ?d ?b = e # es"
    using assms(6) by (metis length_0_conv length_sort list.exhaust)
  have srt: "sorted (map ?d (e # es))" using sorted_sort_key [of ?d ?b] unfolding es .
  have seteq: "set ?b = set (e # es)" using set_sort [of ?d ?b] unfolding es by simp
  have fc: "findClosest idBytes wb = Some (Some e)"
    using findClosestN_sorts [of wb s idBytes 1] assms(1) es by (simp add: findClosest_def wf_wb_def)
  have e: "e \<in> set (all_entries wb)" "e \<in> set ?b" using seteq k by (auto simp: all_entries_def)
  have bk: "bucket_of (s XOR SetBytes (pn_Id x)) = i" if "x \<in> set (wb_PeerTable wb ! i)" "i < 256" for x i
    using that assms(1) by (auto simp: wf_wb_def bucket_ok_def entry_ok_def)
  have kb: "SetBytes (pn_Id x) < 2 ^ 256" "s \<noteq> SetBytes (pn_Id x)" if "x \<in> set (all_entries wb)" for x
    using assms(5) that SetBytes_less [of "pn_Id x"] by auto
  have near: "?d e < 2 ^ ?k"
    using bucket_near(1) [OF assms(2) t kb(1) [OF e(1)] assms(4) kb(2) [OF e(1)] bk [OF e(2) bucket_of_less]] .
  have "?d e \<le> ?d x" if x: "x \<in> set (all_entries wb)" for x
  proof -
    obtain b where b: "b \<in> set (wb_PeerTable wb)" "x \<in> set b" using x by (auto simp: all_entries_def)
    then obtain i where i: "i < 256" "x \<in> set (wb_PeerTable wb ! i)"
      using assms(1) unfolding wf_wb_def by (metis in_set_conv_nth)
    show ?thesis
    proof (cases "i = ?k")
      case True
      with i seteq srt show ?thesis by auto
    next
      case False
      then have "bucket_of (s XOR SetBytes (pn_Id x)) \<noteq> ?k" using bk [OF i(2,1)] by simp
      from other_bucket_far [OF assms(2) t kb(1) [OF x] assms(4) kb(2) [OF x] this] near
      show ?thesis by simp
    qed
  qed
  with fc e(1) show ?thesis by blast
qed


theorem find_closest_global_witness:
  "\<exists>wb e. wf_wb 0 wb \<and> findClosest key_one wb = Some (Some e) \<and> SetBytes (pn_Id e) XOR SetBytes key_one = 0"
proof -
  obtain wb where wb: "wf_wb 0 wb" "wb_PeerTable wb = (replicate 256 [])
      [bucket_of (SetBytes key_one) := [added_entry 0 0 (some_peer key_one)]]"
    using one_peer [OF key_one_simps(1)] by blast
  have b: "bucket_of (Suc 0) < 256" by (rule bucket_of_less)
  have all: "set (all_entries wb) = {added_entry 0 0 (some_peer key_one)}"
    using b by (simp add: all_entries_def wb(2) key_one_simps set_update_distinct)
      (simp add: upd_conv_take_nth_drop)
  have id: "pn_Id (added_entry 0 0 (some_peer key_one)) = key_one" by (simp add: added_entry_def some_peer_def)
  have "\<exists>e \<in> set (all_entries wb). findClosest key_one wb = Some (Some e) \<and>
      (\<forall>x \<in> set (all_entries wb). SetBytes (pn_Id e) XOR SetBytes key_one \<le> SetBytes (pn_Id x) XOR SetBytes key_one)"
    by (rule find_closest_global [OF wb(1)]) (simp_all add: all id key_one_simps wb(2) b)
  with wb(1) show ?thesis by (auto simp: all id)
qed

theorem route_spec_witness:
  "\<exists>wb. wf_wb 0 wb \<and> (\<forall>L. route (L\<lparr>l_ofEnvelope := \<lambda>_. Some ''{}''\<rparr>) 7
      (mk_env ''pulse'' [] (hexEncode key_one @ ''.'' @ hexEncode key_one)) wb =
    Ret (wb\<lparr>wb_out := wb_out wb @ [WriteOut ''a'' (line ''{}'')]\<rparr>)) \<and>
    (\<forall>L. route (L\<lparr>l_ofEnvelope := \<lambda>_. Some ''{}'', l_spare := \<lambda>_. []\<rparr>) 7 (mk_env ''pulse'' [] ''.'') wb = Panic)"
proof -
  obtain wb where wb: "wf_wb 0 wb" "wb_PeerTable wb = (replicate 256 [])
      [bucket_of (SetBytes key_one) := [added_entry 0 0 (some_peer key_one)]]" "pe_SignPub (wb_PeerSelf wb) = []"
    using one_peer [OF key_one_simps(1)] by blast
  then have wf: "wf_wb (SetBytes (pe_SignPub (wb_PeerSelf wb))) wb" by simp
  let ?to = "hexEncode key_one @ ''.'' @ hexEncode key_one"
  have "route (L\<lparr>l_ofEnvelope := \<lambda>_. Some ''{}''\<rparr>) 7 (mk_env ''pulse'' [] ?to) wb =
    Ret (wb\<lparr>wb_out := wb_out wb @ [WriteOut ''a'' (line ''{}'')]\<rparr>)" for L :: lib
    using route_spec [OF wf, where L = "L\<lparr>l_ofEnvelope := \<lambda>_. Some ''{}''\<rparr>" and env = "mk_env ''pulse'' [] ?to" and now = 7] bucket_of_less [of 1]
      IdToMin_of_hex [OF key_one_simps(1), of "l_spare L" key_one]
    by (simp add: wb(2,3) mk_env_def key_one_simps added_entry_def some_peer_def entry_addr_def)
  moreover have "route (L\<lparr>l_ofEnvelope := \<lambda>_. Some ''{}'', l_spare := \<lambda>_. []\<rparr>) 7 (mk_env ''pulse'' [] ''.'') wb = Panic" for L :: lib
    using route_spec [OF wf, where L = "L\<lparr>l_ofEnvelope := \<lambda>_. Some ''{}'', l_spare := \<lambda>_. []\<rparr>" and
        env = "mk_env ''pulse'' [] ''.''" and now = 7]
    by (simp add: mk_env_def)
  ultimately show ?thesis using wb(1) by blast
qed

end
