(* ===== verification/TableSpec.thy ===== *)
theory TableSpec
  imports Routing
begin

text \<open>
  The abstract specification of the routing table of \<open>white-box/kad.go\<close>: a bag of peers with the times
  they were last seen. Buckets, distances, the order of entries and the cache disappear; \<open>peer_bag\<close> is the
  contract, and the operations of the code are shown to refine it.
\<close>

locale peer_bag =
  fixes inv :: "'s \<Rightarrow> bool" and bag :: "'s \<Rightarrow> ('k \<times> 'p \<times> int) multiset" and known :: "'s \<Rightarrow> 'p \<Rightarrow> bool"
    and ok :: "'p \<Rightarrow> bool" and key :: "'p \<Rightarrow> 'k"
    and add :: "int \<Rightarrow> 'p \<Rightarrow> 's \<Rightarrow> 's option" and rm :: "'k \<Rightarrow> 's \<Rightarrow> 's option"
    and expire :: "int \<Rightarrow> 's \<Rightarrow> 's option" and refresh :: "int \<Rightarrow> 'k \<Rightarrow> 's \<Rightarrow> 's"
  assumes add_law: "inv s \<Longrightarrow> ok p \<Longrightarrow> \<exists>s'. add now p s = Some s' \<and> inv s' \<and> known s' p \<and>
      bag s' = (if known s p then bag s else add_mset (key p, p, now) (bag s))"
    and rm_law: "inv s \<Longrightarrow> \<exists>s'. rm k s = Some s' \<and> inv s' \<and> bag s' = filter_mset (\<lambda>(k', p, t). k' \<noteq> k) (bag s)"
    and expire_law: "inv s \<Longrightarrow> \<exists>s'. expire now s = Some s' \<and> inv s' \<and>
      bag s' = filter_mset (\<lambda>(k, p, t). \<not> now - t > 60 * 10 ^ 9) (bag s)"
    and refresh_law: "inv s \<Longrightarrow> inv (refresh now k s) \<and>
      bag (refresh now k s) = image_mset (\<lambda>(k', p, t). (k', p, if k' = k then now else t)) (bag s)"
begin

lemma add_twice:
  assumes "inv s" and "ok p" and "add now p s = Some s'"
  shows "\<exists>s''. add now' p s' = Some s'' \<and> bag s'' = bag s'"
proof -
  have "inv s'" "known s' p" using add_law [OF assms(1,2), of now] assms(3) by auto
  with add_law [OF this(1) assms(2), of now'] show ?thesis by auto
qed

lemma alive:
  assumes "inv s" and "(k, p, t) \<in># bag s" and "now' - now \<le> 60 * 10 ^ 9"
  shows "\<exists>s'. expire now' (refresh now k s) = Some s' \<and> inv s' \<and> (k, p, now) \<in># bag s'"
proof -
  have "(k, p, now) \<in># bag (refresh now k s)"
    using refresh_law [OF assms(1), of now k] assms(2) by force
  with expire_law [of "refresh now k s" now'] refresh_law [OF assms(1), of now k] assms(3) show ?thesis
    by fastforce
qed

lemma silent:
  assumes "inv s" and "now - t > 60 * 10 ^ 9"
  shows "\<exists>s'. expire now s = Some s' \<and> (k, p, t) \<notin># bag s'"
  using expire_law [OF assms(1), of now] assms(2) by fastforce

end

section \<open>The routing table refines it\<close>

definition bag_of :: "WhiteBox \<Rightarrow> (bytes \<times> Peer option \<times> int) multiset" where
  "bag_of wb = image_mset (\<lambda>e. (pn_Id e, pn_Peer e, pn_Seen e)) (mset (all_entries wb))"

definition is_connected :: "WhiteBox \<Rightarrow> Peer option \<Rightarrow> bool" where
  "is_connected wb p \<longleftrightarrow> (\<exists>key. Option.bind p Peer_Id = Some key \<and> connected wb key)"

definition peer_ok :: "Peer option \<Rightarrow> bool" where
  "peer_ok p \<longleftrightarrow> (\<exists>peer. p = Some peer \<and> Peer_Id peer \<noteq> None \<and> pe_Conn peer \<noteq> None)"

lemma mset_concat_update:
  assumes "k < length t"
  shows "mset (concat (t[k := b])) + mset (t ! k) = mset (concat t) + mset b"
proof -
  have "t = take k t @ t ! k # drop (Suc k) t" by (rule id_take_nth_drop [OF assms])
  then have "mset (concat t) = mset (concat (take k t)) + mset (t ! k) + mset (concat (drop (Suc k) t))"
    by (metis concat.simps(2) concat_append mset_append union_assoc)
  then show ?thesis by (simp add: upd_conv_take_nth_drop [OF assms])
qed

lemma bag_filter:
  assumes "wb_PeerTable wb' = map (filter P) (wb_PeerTable wb)" and "\<And>e. P e \<longleftrightarrow> Q (pn_Id e, pn_Peer e, pn_Seen e)"
  shows "bag_of wb' = filter_mset Q (bag_of wb)"
proof -
  have "all_entries wb' = filter P (all_entries wb)" by (simp add: all_entries_def assms(1) filter_concat)
  then show ?thesis by (simp add: bag_of_def filter_mset_image_mset assms(2))
qed

lemma addPeer_bag:
  assumes wf: "wf_wb s wb" and ok: "peer_ok (Some peer)"
  shows "\<exists>wb'. addPeer now peer t wb = Some wb' \<and> wf_wb s wb' \<and> is_connected wb' (Some peer) \<and>
    bag_of wb' = (if is_connected wb (Some peer) then bag_of wb
      else add_mset (pe_SignPub peer, Some peer, now) (bag_of wb))"
proof -
  obtain key where key: "Peer_Id peer = Some key" and conn: "pe_Conn peer \<noteq> None" using ok by (auto simp: peer_ok_def)
  let ?k = "bucket_of (s XOR SetBytes (pe_SignPub peer))"
  have k: "?k < length (wb_PeerTable wb)" using wf bucket_of_less by (simp add: wf_wb_def)
  note res = addPeer_result [OF wf key, of now t]
  show ?thesis
  proof (cases "connected wb key")
    case True
    with res wf key show ?thesis by (simp add: is_connected_def)
  next
    case False
    with res obtain wb' c where r: "addPeer now peer t wb = Some wb'" "wb_PeerTable wb' = (wb_PeerTable wb)
          [?k := ins_after pn_Distance (added_entry s now peer) (wb_PeerTable wb ! ?k)]"
        "wb_PeerCache wb' = (wb_PeerCache wb)(key \<mapsto> c)" "ca_Added c" "\<not> ca_Disconnected c" by auto
    have "mset (all_entries wb') = add_mset (added_entry s now peer) (mset (all_entries wb))"
      using mset_concat_update [OF k, of "ins_after pn_Distance (added_entry s now peer) (wb_PeerTable wb ! ?k)"]
      by (simp add: all_entries_def r(2))
    then have "bag_of wb' = add_mset (pe_SignPub peer, Some peer, now) (bag_of wb)"
      by (simp add: bag_of_def added_entry_def)
    moreover have "is_connected wb' (Some peer)" using r key by (simp add: is_connected_def connected_def)
    ultimately show ?thesis using r(1) addPeer_wf [OF wf r(1) conn] False key by (simp add: is_connected_def)
  qed
qed

lemma refreshPeer_bag:
  "bag_of (refreshPeer now (hexEncode signPub) wb) =
    image_mset (\<lambda>(k, p, t). (k, p, if k = signPub then now else t)) (bag_of wb)"
proof -
  let ?f = "\<lambda>e. if pn_Id e = signPub then e\<lparr>pn_Seen := now\<rparr> else e"
  have "all_entries (refreshPeer now (hexEncode signPub) wb) = map ?f (all_entries wb)"
    by (simp add: all_entries_def refreshPeer_def map_concat)
  then have "bag_of (refreshPeer now (hexEncode signPub) wb) =
      image_mset (\<lambda>e. (pn_Id (?f e), pn_Peer (?f e), pn_Seen (?f e))) (mset (all_entries wb))"
    by (simp add: bag_of_def image_mset.compositionality comp_def)
  also have "\<dots> = image_mset (\<lambda>e. (pn_Id e, pn_Peer e, if pn_Id e = signPub then now else pn_Seen e)) (mset (all_entries wb))"
    by (rule image_mset_cong) simp
  finally show ?thesis by (simp add: bag_of_def image_mset.compositionality comp_def)
qed

text \<open>Adding \<open>None\<close>, the nil pointer, is not an operation of the interface; \<open>peer_ok\<close> excludes it.\<close>

definition add_peer :: "int \<Rightarrow> int \<Rightarrow> Peer option \<Rightarrow> WhiteBox \<Rightarrow> WhiteBox go" where
  "add_peer t now p wb = Option.bind p (\<lambda>peer. addPeer now peer t wb)"

definition peer_key :: "Peer option \<Rightarrow> bytes" where
  "peer_key p = (case p of None \<Rightarrow> [] | Some peer \<Rightarrow> pe_SignPub peer)"

interpretation table: peer_bag "wf_wb s" bag_of is_connected peer_ok peer_key "add_peer t"
    "\<lambda>k. removePeer (hexEncode k)" removeStalePeers "\<lambda>now k. refreshPeer now (hexEncode k)" for s t
proof
  fix wb p now assume wf: "wf_wb s wb" and ok: "peer_ok p"
  from ok obtain peer where p: "p = Some peer" by (auto simp: peer_ok_def)
  from addPeer_bag [OF wf ok [unfolded p], of now t] show "\<exists>wb'. add_peer t now p wb = Some wb' \<and> wf_wb s wb' \<and> is_connected wb' p \<and>
      bag_of wb' = (if is_connected wb p then bag_of wb else add_mset (peer_key p, p, now) (bag_of wb))"
    unfolding p add_peer_def peer_key_def bind.bind_lunit option.case .
next
  fix wb k assume wf: "wf_wb s wb"
  from removePeer_filter [OF wf, of k] obtain wb' where r: "removePeer (hexEncode k) wb = Some wb'" "wf_wb s wb'"
      "wb_PeerTable wb' = map (filter (\<lambda>e. pn_Id e \<noteq> k)) (wb_PeerTable wb)" by blast
  have "bag_of wb' = filter_mset (\<lambda>(k', p, t). k' \<noteq> k) (bag_of wb)" by (rule bag_filter [OF r(3)]) simp
  with r show "\<exists>wb'. removePeer (hexEncode k) wb = Some wb' \<and> wf_wb s wb' \<and>
      bag_of wb' = filter_mset (\<lambda>(k', p, t). k' \<noteq> k) (bag_of wb)" by blast
next
  fix wb now assume wf: "wf_wb s wb"
  from removeStalePeers_filter [OF wf, of now] obtain wb' where r: "removeStalePeers now wb = Some wb'" "wf_wb s wb'"
      "wb_PeerTable wb' = map (filter (\<lambda>e. \<not> now - pn_Seen e > 60 * 10 ^ 9)) (wb_PeerTable wb)" by blast
  have "bag_of wb' = filter_mset (\<lambda>(k, p, t). \<not> now - t > 60 * 10 ^ 9) (bag_of wb)" by (rule bag_filter [OF r(3)]) simp
  with r show "\<exists>wb'. removeStalePeers now wb = Some wb' \<and> wf_wb s wb' \<and>
      bag_of wb' = filter_mset (\<lambda>(k, p, t). \<not> now - t > 60 * 10 ^ 9) (bag_of wb)" by blast
next
  fix wb now k assume "wf_wb s wb"
  then show "wf_wb s (refreshPeer now (hexEncode k) wb) \<and> bag_of (refreshPeer now (hexEncode k) wb) =
      image_mset (\<lambda>(k', p, t). (k', p, if k' = k then now else t)) (bag_of wb)"
    using refreshPeer_wf refreshPeer_bag by blast
qed

section \<open>Properties\<close>

text \<open>
  C7: The routing table refines a bag of peers. On a well-formed table \<open>addPeer\<close>, \<open>removePeer\<close>,
  \<open>removeStalePeers\<close> and \<open>refreshPeer\<close> return, keep the table well-formed, and act on the bag of (signing
  key, peer, last seen) as insertion of a peer that is not connected, removal of a key, removal of what was
  not seen for 60 seconds, and update of a key's times.
\<close>

theorem table_refines_bag:
  assumes "wf_wb s wb" and "Peer_Id peer \<noteq> None" and "pe_Conn peer \<noteq> None"
  shows "(\<exists>wb'. addPeer now peer t wb = Ret wb' \<and> wf_wb s wb' \<and> bag_of wb' =
      (if is_connected wb (Some peer) then bag_of wb else add_mset (pe_SignPub peer, Some peer, now) (bag_of wb))) \<and>
    (\<exists>wb'. removePeer (hexEncode key) wb = Ret wb' \<and> wf_wb s wb' \<and> bag_of wb' = {# x \<in># bag_of wb. fst x \<noteq> key #}) \<and>
    (\<exists>wb'. removeStalePeers now wb = Ret wb' \<and> wf_wb s wb' \<and>
      bag_of wb' = {# x \<in># bag_of wb. now - snd (snd x) \<le> 60 * 10 ^ 9 #}) \<and>
    wf_wb s (refreshPeer now (hexEncode key) wb) \<and> bag_of (refreshPeer now (hexEncode key) wb) =
      {# (fst x, fst (snd x), if fst x = key then now else snd (snd x)). x \<in># bag_of wb #}"
proof (intro conjI)
  have "peer_ok (Some peer)" using assms(2,3) by (simp add: peer_ok_def)
  from table.add_law [OF assms(1) this, of t now]
  show "\<exists>wb'. addPeer now peer t wb = Ret wb' \<and> wf_wb s wb' \<and> bag_of wb' =
      (if is_connected wb (Some peer) then bag_of wb else add_mset (pe_SignPub peer, Some peer, now) (bag_of wb))"
    by (auto simp: add_peer_def peer_key_def)
  show "\<exists>wb'. removePeer (hexEncode key) wb = Ret wb' \<and> wf_wb s wb' \<and> bag_of wb' = {# x \<in># bag_of wb. fst x \<noteq> key #}"
    using table.rm_law [OF assms(1), of key] by (simp only: case_prod_unfold)
  show "\<exists>wb'. removeStalePeers now wb = Ret wb' \<and> wf_wb s wb' \<and>
      bag_of wb' = {# x \<in># bag_of wb. now - snd (snd x) \<le> 60 * 10 ^ 9 #}"
    using table.expire_law [OF assms(1), of now] by (simp only: case_prod_unfold not_less)
qed (use table.refresh_law [OF assms(1), of now key] in \<open>simp_all only: case_prod_unfold\<close>)

text \<open>
  C25: Peers that answer stay, peers that do not go. A peer whose pulse refreshed it is still in the table
  after the removal of stale peers up to 60 seconds later, and an entry last seen more than 60 seconds ago is
  gone after it.
\<close>

theorem pulse_keeps_peer:
  assumes "wf_wb s wb" and "(key, p, t) \<in># bag_of wb"
  shows "(\<forall>now'. now' - now \<le> 60 * 10 ^ 9 \<longrightarrow> (\<exists>wb'. removeStalePeers now' (refreshPeer now (hexEncode key) wb) = Ret wb' \<and>
      (key, p, now) \<in># bag_of wb')) \<and>
    (now - t > 60 * 10 ^ 9 \<longrightarrow> (\<exists>wb'. removeStalePeers now wb = Ret wb' \<and> (key, p, t) \<notin># bag_of wb'))"
  using table.alive [OF assms(1,2)] table.silent [OF assms(1)] by blast

lemma one_peer_bag:
  assumes "length pub = 32"
  shows "\<exists>wb. wf_wb 0 wb \<and> bag_of wb = {# (pub, Some (some_peer pub), 0) #}"
proof -
  have "peer_ok (Some (some_peer pub))" by (simp add: peer_ok_def some_peer_id) (simp add: some_peer_def)
  from addPeer_bag [OF empty_wb_wf this, of 0 0 0]
  have "\<exists>wb. wf_wb 0 wb \<and> bag_of wb = add_mset (pub, Some (some_peer pub), 0) (bag_of (empty_wb 0))"
    by (auto simp: is_connected_def connected_def empty_wb_def zero_wb_def some_peer_def)
  moreover have "bag_of (empty_wb 0) = {#}" by (simp add: bag_of_def all_entries_def empty_wb_def zero_wb_def)
  ultimately show ?thesis by simp
qed

theorem table_refines_bag_witness:
  "\<exists>wb wb'. bag_of wb = {# (key_one, Some (some_peer key_one), 0) #} \<and> removePeer (hexEncode key_one) wb = Ret wb' \<and>
    bag_of wb' = {#}"
proof -
  obtain wb where wb: "wf_wb 0 wb" "bag_of wb = {# (key_one, Some (some_peer key_one), 0) #}"
    using one_peer_bag [OF key_one_simps(1)] by blast
  have "Peer_Id (some_peer key_one) \<noteq> None" "pe_Conn (some_peer key_one) \<noteq> None"
    by (simp_all add: some_peer_id) (simp add: some_peer_def)
  from table_refines_bag [OF wb(1) this, of 0 0 key_one] wb(2) show ?thesis by auto
qed

theorem pulse_keeps_peer_witness:
  "\<exists>wb. (\<exists>wb'. removeStalePeers (130 * 10 ^ 9) (refreshPeer (70 * 10 ^ 9) (hexEncode key_one) wb) = Ret wb' \<and>
      (key_one, Some (some_peer key_one), 70 * 10 ^ 9) \<in># bag_of wb') \<and>
    (\<exists>wb'. removeStalePeers (70 * 10 ^ 9) wb = Ret wb' \<and> (key_one, Some (some_peer key_one), 0) \<notin># bag_of wb')"
proof -
  obtain wb where wb: "wf_wb 0 wb" "bag_of wb = {# (key_one, Some (some_peer key_one), 0) #}"
    using one_peer_bag [OF key_one_simps(1)] by blast
  from pulse_keeps_peer [OF wb(1), of key_one "Some (some_peer key_one)" 0 "70 * 10 ^ 9"] wb(2) show ?thesis
    by (intro exI [of _ wb]) auto
qed

end
