(* ===== verification/Processors.thy ===== *)
theory Processors
  imports Senders
begin

text \<open>
  The handlers of messages between peers (\<open>white-box/processors.go\<close>): each checks the signature of its
  envelope, decodes the message, and updates the routing table, the cache and what is sent. The
  party handlers and the dispatch \<open>processMessage\<close> are in \<open>Party\<close> and \<open>Messages\<close>.
\<close>

text \<open>
  \<open>verifyEnvelope\<close>: \<open>Inl\<close> is the error; the slice after verification panics on data shorter than a
  signature.
\<close>

definition verifyEnvelope :: "lib \<Rightarrow> Envelope \<Rightarrow> string \<Rightarrow> (string + bytes) go" where
  "verifyEnvelope L env caller = do {
     r \<leftarrow> IdToMin (l_spare L) (env_From env);
     case r of
       Inl err \<Rightarrow> Ret (Inl (''error bad id ('' @ caller @ '':from)''))
     | Inr minp \<Rightarrow>
         if \<not> l_verify L (env_Data env) (mi_SignPub minp)
         then Ret (Inl (''questionable message integrity discarding ('' @ caller @ '')''))
         else if length (env_Data env) < l_sigSize L then Panic
         else Ret (Inr (drop (l_sigSize L) (env_Data env))) }"

text \<open>
  What the handlers start with: verification, then decoding with \<open>decode\<close>; the continuation gets
  the message.
\<close>

definition with_message ::
    "lib \<Rightarrow> Envelope \<Rightarrow> string \<Rightarrow> (string \<Rightarrow> 'm option) \<Rightarrow> WhiteBox \<Rightarrow> ('m \<Rightarrow> WhiteBox go) \<Rightarrow> WhiteBox go" where
  "with_message L env caller decode wb k = do {
     r \<leftarrow> verifyEnvelope L env caller;
     case r of
       Inl err \<Rightarrow> Ret (setStatus err wb)
     | Inr jsonData \<Rightarrow>
         (case decode jsonData of
            None \<Rightarrow> Ret (setStatus (''error invalid json ('' @ caller @ '')'') wb)
          | Some m \<Rightarrow> k m) }"

definition cache_get :: "string \<Rightarrow> WhiteBox \<Rightarrow> PeerCache" where
  "cache_get key wb = (case wb_PeerCache wb key of None \<Rightarrow> zeroCache | Some cache \<Rightarrow> cache)"

text \<open>\<open>!seen || !cache.Added || reconnecting\<close>, the test before a peer is added.\<close>

definition should_add :: "string \<Rightarrow> int \<Rightarrow> WhiteBox \<Rightarrow> bool" where
  "should_add key time wb \<longleftrightarrow>
     (let cache = cache_get key wb; reconnecting = (ca_Disconnected cache \<and> ca_Time cache < time)
      in wb_PeerCache wb key = None \<or> \<not> ca_Added cache \<or> reconnecting)"

definition processChat :: "lib \<Rightarrow> int \<Rightarrow> Envelope \<Rightarrow> WhiteBox \<Rightarrow> WhiteBox go" where
  "processChat L now env wb = with_message L env ''chat'' (l_toChat L) wb (\<lambda>msgChat. do {
     minId \<leftarrow> MinPeer_Id (mc_Min msgChat);
     if minId \<noteq> env_From env then Ret (setStatus ''error invalid peer (chat)'' wb)
     else do {
       let uniqueId = env_From env @ ''.'' @ l_timeString L (mc_Time msgChat);
       wb \<leftarrow> (if wb_SeenChats wb uniqueId = None
               then do {
                 let wb = addChat \<lparr>ch_Time = now, ch_Id = env_From env, ch_Channel = ''mainline'',
                       ch_Message = mc_Message msgChat\<rparr> wb;
                 wb \<leftarrow> flood L env wb;
                 Ret (wb\<lparr>wb_SeenChats := (wb_SeenChats wb)(uniqueId \<mapsto> True)\<rparr>) }
               else Ret wb);
       cacheMin (mc_Min msgChat) wb } })"

definition processBootstrap :: "lib \<Rightarrow> int \<Rightarrow> Envelope \<Rightarrow> WhiteBox \<Rightarrow> WhiteBox go" where
  "processBootstrap L now env wb = with_message L env ''bs'' (l_toTimePeer L) wb (\<lambda>timePeer. do {
     let peer = tp_Peer timePeer;
     peerId \<leftarrow> Peer_Id peer;
     if env_From env \<noteq> peerId then Ret (setStatus ''id does not match from (bs)'' wb)
     else if \<not> l_dial L (pe_Address peer) then Ret (setStatus ''could not connect to peer (bs)'' wb)
     else do {
       let peer = peer\<lparr>pe_Conn := Some (pe_Address peer)\<rparr>;
       wb \<leftarrow> sendVerify L now peer wb;
       if should_add peerId (tp_Time timePeer) wb then addPeer now peer (tp_Time timePeer) wb
       else Ret wb } })"

definition processVerify :: "lib \<Rightarrow> int \<Rightarrow> Envelope \<Rightarrow> WhiteBox \<Rightarrow> WhiteBox go" where
  "processVerify L now env wb = with_message L env ''bsverify'' (l_toTimePeer L) wb (\<lambda>timePeer. do {
     let peer = tp_Peer timePeer;
     peerId \<leftarrow> Peer_Id peer;
     if env_From env \<noteq> peerId then Ret (setStatus ''id does not match from (bsverify)'' wb)
     else if \<not> l_dial L (pe_Address peer)
     then Ret (setStatus ''could not connect to peer (bsverify)'' wb)
     else do {
       let peer = peer\<lparr>pe_Conn := Some (pe_Address peer)\<rparr>;
       wb \<leftarrow> (if should_add peerId (tp_Time timePeer) wb then addPeer now peer (tp_Time timePeer) wb
               else Ret wb);
       let wb = setStatus ''verified'' wb;
       wb \<leftarrow> sendAnnounce L now peer wb;
       sendSuggestionRequest L now peer wb } })"

definition processAnnounce :: "lib \<Rightarrow> int \<Rightarrow> Envelope \<Rightarrow> WhiteBox \<Rightarrow> WhiteBox go" where
  "processAnnounce L now env wb = with_message L env ''announce'' (l_toTimePeer L) wb (\<lambda>announce. do {
     let peer = tp_Peer announce;
     peerId \<leftarrow> Peer_Id peer;
     selfId \<leftarrow> Peer_Id (wb_PeerSelf wb);
     if peerId = selfId then Ret wb
     else do {
       let cached = wb_PeerCache wb peerId;
       let cache = cache_get peerId wb;
       let reconnecting = (ca_Disconnected cache \<and> ca_Time cache < tp_Time announce);
       if (cached = None \<or> \<not> ca_Added cache \<or> reconnecting) \<and> \<not> l_dial L (pe_Address peer)
       then Ret (setStatus ''could not connect to peer (bsverify)'' wb)
       else do {
         wb \<leftarrow> (if cached = None \<or> \<not> ca_Added cache \<or> reconnecting
                 then addPeer now (peer\<lparr>pe_Conn := Some (pe_Address peer)\<rparr>) (tp_Time announce) wb
                 else Ret wb);
         if cached = None \<or> \<not> ca_Announced cache \<or> reconnecting
         then do {
           wb \<leftarrow> flood L env wb;
           Ret (wb\<lparr>wb_PeerCache := (wb_PeerCache wb)
             (peerId \<mapsto> (cache_get peerId wb)\<lparr>ca_Announced := True\<rparr>)\<rparr>) }
         else Ret wb } } })"

definition processSuggestionRequest :: "lib \<Rightarrow> int \<Rightarrow> Envelope \<Rightarrow> WhiteBox \<Rightarrow> WhiteBox go" where
  "processSuggestionRequest L now env wb =
     with_message L env ''request'' (l_toSuggestionRequest L) wb (\<lambda>request. do {
       selfId \<leftarrow> Peer_Id (wb_PeerSelf wb);
       if sr_To request \<noteq> selfId then Ret wb
       else do {
         let peer = sr_Peer request;
         if \<not> l_dial L (pe_Address peer)
         then Ret (setStatus ''could not connect to peer (request)'' wb)
         else do {
           let peer = peer\<lparr>pe_Conn := Some (pe_Address peer)\<rparr>;
           wb \<leftarrow> sendSuggestions L now peer (env_Data env) wb;
           peerId \<leftarrow> Peer_Id peer;
           if should_add peerId (sr_Time request) wb then addPeer now peer (sr_Time request) wb
           else Ret wb } } })"

text \<open>One suggested peer: the body of the loop of \<open>processSuggestions\<close>.\<close>

definition consider_peer :: "lib \<Rightarrow> int \<Rightarrow> Peer \<Rightarrow> WhiteBox \<Rightarrow> WhiteBox go" where
  "consider_peer L now newPeer wb = do {
     peerId \<leftarrow> Peer_Id newPeer;
     if wb_PeerCache wb peerId = None \<and> \<not> ca_Added (cache_get peerId wb)
     then do {
       would \<leftarrow> wouldAddPeer newPeer wb;
       if would
       then if l_dial L (pe_Address newPeer)
            then sendSuggestionRequest L now (newPeer\<lparr>pe_Conn := Some (pe_Address newPeer)\<rparr>) wb
            else Ret (setStatus ''could not connect to new peer (suggestions)'' wb)
       else Ret wb }
     else Ret wb }"

definition processSuggestions :: "lib \<Rightarrow> int \<Rightarrow> Envelope \<Rightarrow> WhiteBox \<Rightarrow> WhiteBox go" where
  "processSuggestions L now env wb =
     with_message L env ''suggestions'' (l_toSuggestions L) wb (\<lambda>suggestions.
       if \<not> l_verify L (sg_RequestData suggestions) (slice (se_SignPub (wb_Self wb)))
       then Ret (setStatus ''error originating req not signed self (suggestions)'' wb)
       else do {
         let peer = sg_Peer suggestions;
         peerId \<leftarrow> Peer_Id peer;
         if should_add peerId (sg_Time suggestions) wb \<and> \<not> l_dial L (pe_Address peer)
         then Ret (setStatus ''could not connect to peer (suggestions)'' wb)
         else do {
           wb \<leftarrow> (if should_add peerId (sg_Time suggestions) wb
                   then addPeer now (peer\<lparr>pe_Conn := Some (pe_Address peer)\<rparr>) (sg_Time suggestions) wb
                   else Ret wb);
           ofold (consider_peer L now) (sg_SuggestedPeers suggestions) wb } })"

definition processDisconnect :: "lib \<Rightarrow> Envelope \<Rightarrow> WhiteBox \<Rightarrow> WhiteBox go" where
  "processDisconnect L env wb = with_message L env ''disconnect'' (l_toTime L) wb (\<lambda>messageTime.
     if mt_MessageType messageTime \<noteq> - 1
     then Ret (setStatus ''error invalid message type (disconnect)'' wb)
     else do {
       (front, wb) \<leftarrow> IdFront L (env_From env) wb;
       case front of
         None \<Rightarrow> Ret (setStatus ''error bad id (disconnect)'' wb)
       | Some idShort \<Rightarrow> do {
           wb \<leftarrow> removePeer idShort wb;
           if wb_PeerCache wb (env_From env) = None \<or> \<not> ca_Disconnected (cache_get (env_From env) wb)
           then flood L env (wb\<lparr>wb_PeerCache := (wb_PeerCache wb)
                  (env_From env \<mapsto> (cache_get (env_From env) wb)\<lparr>ca_Disconnected := True\<rparr>)\<rparr>)
           else Ret wb } })"

definition processPing :: "lib \<Rightarrow> int \<Rightarrow> Envelope \<Rightarrow> WhiteBox \<Rightarrow> WhiteBox go" where
  "processPing L now env wb = with_message L env ''ping'' (l_toPing L) wb (\<lambda>messagePing.
     if mp_MessageType messagePing \<noteq> 0
     then Ret (setStatus ''error invalid message type (ping)'' wb)
     else sendPulse L now (mp_Min messagePing) wb)"

definition processPulse :: "lib \<Rightarrow> int \<Rightarrow> Envelope \<Rightarrow> WhiteBox \<Rightarrow> WhiteBox go" where
  "processPulse L now env wb = with_message L env ''pulse'' (l_toTime L) wb (\<lambda>messageTime.
     if mt_MessageType messageTime \<noteq> 1
     then Ret (setStatus ''error invalid message type (pulse)'' wb)
     else do {
       (front, wb) \<leftarrow> IdFront L (env_From env) wb;
       case front of
         None \<Rightarrow> Ret (setStatus ''error bad id (disconnect)'' wb)
       | Some idShort \<Rightarrow> Ret (refreshPeer now idShort wb) })"

end
