(* ===== verification/Packs.thy ===== *)
theory Packs
  imports Node
begin

text \<open>
  Packs of files (\<open>white-box/files.go\<close>, lines 62-127 and 199-233): looking up a file, the hash of a
  pack, the paths of its files and its serialized form. A pack lists heap addresses of its
  \<open>PackFileInfo\<close>s; dereferencing a nil pointer panics.
\<close>

type_synonym pf_heap = "nat \<rightharpoonup> PackFileInfo"

definition deref :: "pf_heap \<Rightarrow> nat option \<Rightarrow> PackFileInfo go" where
  "deref heap p = Option.bind p heap"

fun GetFileInfo :: "pf_heap \<Rightarrow> nat option list \<Rightarrow> string \<Rightarrow> nat option go" where
  "GetFileInfo heap [] fileHash = Ret None"
| "GetFileInfo heap (p # ps) fileHash = do {
     packFileInfo \<leftarrow> deref heap p;
     if pf_Hash packFileInfo = fileHash then Ret p else GetFileInfo heap ps fileHash }"

fun deref_all :: "pf_heap \<Rightarrow> nat option list \<Rightarrow> PackFileInfo list go" where
  "deref_all heap [] = Ret []"
| "deref_all heap (p # ps) = do {
     packFileInfo \<leftarrow> deref heap p;
     rest \<leftarrow> deref_all heap ps;
     Ret (packFileInfo # rest) }"

text \<open>\<open>sort.Sort(ByFileName(files))\<close>; \<open>Less\<close> dereferences every pointer of a list of two or more.\<close>

definition sortFiles :: "lib \<Rightarrow> pf_heap \<Rightarrow> nat option list \<Rightarrow> nat option list go" where
  "sortFiles L heap files =
     (if length files < 2 then Ret files
      else do {
        infos \<leftarrow> deref_all heap files;
        Ret (map (\<lambda>i. files ! i) (l_sortNames L (map pf_Name infos))) })"

text \<open>The bytes \<open>sha256Pack\<close> hashes: nothing separates the fields.\<close>

definition pack_preimage :: "string \<Rightarrow> PackFileInfo list \<Rightarrow> bytes" where
  "pack_preimage name infos =
     name @ concat (map (\<lambda>f. pf_Name f @ pf_Hash f @ pf_FirstBlockHash f @ FormatInt (pf_Size f)) infos)"

text \<open>\<open>sha256Pack\<close> of a pack (callers never pass nil); it leaves the pack's files sorted.\<close>

definition sha256Pack :: "lib \<Rightarrow> pf_heap \<Rightarrow> Pack \<Rightarrow> (Pack \<times> string) go" where
  "sha256Pack L heap pack = do {
     files \<leftarrow> sortFiles L heap (pk_Files pack);
     infos \<leftarrow> deref_all heap files;
     Ret (pack\<lparr>pk_Files := files\<rparr>, hexEncode (l_sha L (pack_preimage (pk_Name pack) infos))) }"

definition SetPaths :: "string \<Rightarrow> nat option list \<Rightarrow> pf_heap \<Rightarrow> pf_heap go" where
  "SetPaths baseDir files heap = ofold (\<lambda>p heap. do {
       a \<leftarrow> p;
       file \<leftarrow> heap a;
       let path = Join baseDir (pf_Name file);
       Ret (if prefix baseDir path then heap(a \<mapsto> file\<lparr>pf_Path := path\<rparr>) else heap) }) files heap"

definition ToPendingPack :: "lib \<Rightarrow> pf_heap \<Rightarrow> Pack \<Rightarrow> (Pack \<times> PendingPack) go" where
  "ToPendingPack L heap pack = do {
     (pack, hash) \<leftarrow> sha256Pack L heap pack;
     infos \<leftarrow> deref_all heap (pk_Files pack);
     Ret (pack, \<lparr>pp_Name = pk_Name pack, pp_Hash = hash, pp_Files = infos\<rparr>) }"

section \<open>Lookup\<close>

lemma deref_Some: "deref heap p = Some f \<longleftrightarrow> (\<exists>a. p = Some a \<and> heap a = Some f)"
  by (auto simp: deref_def bind_eq_Some_conv)

lemma deref_all_conv: "deref_all heap ps = Some fs \<longleftrightarrow> list_all2 (\<lambda>p f. deref heap p = Some f) ps fs"
  by (induction ps arbitrary: fs) (auto simp: bind_eq_Some_conv list_all2_Cons1)

lemma GetFileInfo_None:
  "GetFileInfo heap ps h = Some None \<longleftrightarrow> (\<exists>fs. deref_all heap ps = Some fs \<and> h \<notin> pf_Hash ` set fs)"
  by (induction ps) (auto simp: bind_eq_Some_conv deref_Some split: if_splits)

lemma GetFileInfo_Some:
  assumes "GetFileInfo heap ps h = Some (Some a)"
  shows "\<exists>f. heap a = Some f \<and> pf_Hash f = h \<and> Some a \<in> set ps"
  using assms by (induction ps) (auto simp: deref_Some bind_eq_Some_conv split: if_splits)

text \<open>Finding a file: nil exactly when no file has the hash, else a pointer of the pack to such a file.\<close>

lemma get_file_info_spec:
  assumes "deref_all heap ps = Some fs"
  shows "\<exists>r. GetFileInfo heap ps h = Some r \<and> (r = None \<longleftrightarrow> h \<notin> pf_Hash ` set fs) \<and>
    (\<forall>a. r = Some a \<longrightarrow> Some a \<in> set ps \<and> (\<exists>f \<in> set fs. heap a = Some f \<and> pf_Hash f = h))"
  using assms
proof (induction ps arbitrary: fs)
  case (Cons p ps)
  then obtain f fs' where f: "deref heap p = Some f" "deref_all heap ps = Some fs'" "fs = f # fs'"
    by (auto simp: bind_eq_Some_conv)
  show ?case
  proof (cases "pf_Hash f = h")
    case True
    obtain a where "p = Some a" "heap a = Some f" using f(1) by (auto simp: deref_Some)
    with True f show ?thesis by simp
  next
    case False
    with Cons.IH [OF f(2)] f(1,3) show ?thesis by auto
  qed
qed simp

section \<open>Paths and hashes\<close>

text \<open>
  The pack hash does not determine the pack. The hashed bytes are the pack's name followed by the
  fields of its files with nothing in between, so moving the head of a file name into the pack name
  changes the pack but, whatever the digest, not its hash.
\<close>

theorem pack_hash_ambiguous:
  assumes "heap a = Some f" and "pf_Name f = u @ v" and "heap b = Some (f\<lparr>pf_Name := v\<rparr>)"
  shows "map_option snd (sha256Pack L heap (pack\<lparr>pk_Name := n, pk_Files := [Some a]\<rparr>)) =
      map_option snd (sha256Pack L heap (pack\<lparr>pk_Name := n @ u, pk_Files := [Some b]\<rparr>)) \<and>
    sha256Pack L heap (pack\<lparr>pk_Name := n, pk_Files := [Some a]\<rparr>) \<noteq> None"
  using assms by (simp add: sha256Pack_def sortFiles_def deref_def pack_preimage_def)

definition pack_heap :: pf_heap where
  "pack_heap = [0 \<mapsto> abc_shared\<lparr>pf_Name := ''bc''\<rparr>, 1 \<mapsto> abc_shared\<lparr>pf_Name := ''c''\<rparr>]"

definition pack_a :: Pack where
  "pack_a = \<lparr>pk_Name = ''a'', pk_Files = [Some 0], pk_State = AVAILABLE, pk_Peers = Map.empty\<rparr>"

theorem pack_hash_ambiguous_witness:
  "\<forall>L. map_option snd (sha256Pack L pack_heap (pack_a\<lparr>pk_Name := ''a'', pk_Files := [Some 0]\<rparr>)) =
    map_option snd (sha256Pack L pack_heap (pack_a\<lparr>pk_Name := ''a'' @ ''b'', pk_Files := [Some 1]\<rparr>))"
  using pack_hash_ambiguous [of pack_heap 0 "abc_shared\<lparr>pf_Name := ''bc''\<rparr>" "''b''" "''c''" 1]
  by (simp add: pack_heap_def)

end
