(* ===== verification/Party.thy ===== *)
theory Party
  imports Processors Packs
begin

text \<open>
  Parties (\<open>white-box/party.go\<close>, lines 36-744): the list of members, the ring of neighbours, the
  messages a member sends, and the handlers of party messages. A method of a party takes the party
  and the node and returns them both where it changes both; the caller stores the party back.
\<close>

section \<open>The member list\<close>

definition MinList_Len :: "LockingMinList \<Rightarrow> nat go" where
  "MinList_Len lml = (if ml_Mutex lml
     then Ret (length (case ml_Map lml of None \<Rightarrow> [] | Some m \<Rightarrow> m)) else Panic)"

definition MinList_Set :: "string \<Rightarrow> int \<Rightarrow> LockingMinList \<Rightarrow> LockingMinList go" where
  "MinList_Set key val lml = (if ml_Mutex lml
     then (case ml_Map lml of None \<Rightarrow> Panic | Some m \<Rightarrow> Ret (lml\<lparr>ml_Map := Some (map_put key val m)\<rparr>))
     else Panic)"

definition MinList_Get :: "string \<Rightarrow> LockingMinList \<Rightarrow> int option go" where
  "MinList_Get key lml = (if ml_Mutex lml
     then Ret (case ml_Map lml of None \<Rightarrow> None | Some m \<Rightarrow> map_get m key) else Panic)"

text \<open>The ids in the list, in the order in which the code ranges over the map after locking.\<close>

definition minlist_ids :: "lib \<Rightarrow> LockingMinList \<Rightarrow> string list go" where
  "minlist_ids L lml = (if ml_Mutex lml
     then Ret (l_keys L (case ml_Map lml of None \<Rightarrow> [] | Some m \<Rightarrow> map_keys m)) else Panic)"

section \<open>Neighbours\<close>

text \<open>Go's \<open>%\<close> truncates towards zero.\<close>

definition go_rem :: "int \<Rightarrow> int \<Rightarrow> int" where
  "go_rem a b = sgn a * (\<bar>a\<bar> mod \<bar>b\<bar>)"

definition modFloor :: "int \<Rightarrow> int \<Rightarrow> int" where
  "modFloor i m = go_rem (go_rem i m + m) m"

text \<open>The index of the first element equal to \<open>x\<close>.\<close>

fun find_index :: "'a \<Rightarrow> 'a list \<Rightarrow> nat option" where
  "find_index x [] = None"
| "find_index x (y # ys) = (if y = x then Some 0 else map_option Suc (find_index x ys))"

definition getNeighbors :: "lib \<Rightarrow> PartyLine \<Rightarrow> WhiteBox \<Rightarrow> ((string \<times> bool) list \<times> WhiteBox) go" where
  "getNeighbors L party wb = do {
     _ \<leftarrow> MinList_Len (pl_MinList party);
     ids \<leftarrow> minlist_ids L (pl_MinList party);
     let sortedIds = sort ids;
     selfId \<leftarrow> Peer_Id (wb_PeerSelf wb);
     case find_index selfId sortedIds of
       None \<Rightarrow> Ret ([], setStatus ''error could not find self in min list'' wb)
     | Some idx \<Rightarrow> do {
         let n = int (length sortedIds);
         let n1 = modFloor (int idx - 1) n;
         let n2 = modFloor (int idx + 1) n;
         let n3 = modFloor (int idx + 2) n;
         Ret (map_put (sortedIds ! nat n3) True (map_put (sortedIds ! nat n2) True
               (map_put (sortedIds ! nat n1) True [])), wb) } }"

section \<open>Sending to members\<close>

text \<open>Seal a party envelope for one member and route it; a bad id is reported and skipped.\<close>

definition send_sealed :: "lib \<Rightarrow> int \<Rightarrow> Envelope \<Rightarrow> string \<Rightarrow> string \<Rightarrow> WhiteBox \<Rightarrow> WhiteBox go" where
  "send_sealed L now env jsonPartyEnv idMin wb = do {
     r \<leftarrow> IdToMin (l_spare L) idMin;
     case r of
       Inl err \<Rightarrow> Ret (setStatus err wb)
     | Inr minp \<Rightarrow>
         route L now (env\<lparr>env_Data := l_seal L jsonPartyEnv (mi_EncPub minp) (se_EncPrv (wb_Self wb)),
           env_To := idMin\<rparr>) wb }"

definition sendToNeighbors :: "lib \<Rightarrow> int \<Rightarrow> PartyLine \<Rightarrow> string \<Rightarrow> bytes \<Rightarrow> WhiteBox \<Rightarrow> WhiteBox go" where
  "sendToNeighbors L now party msgType signedPartyData wb = do {
     selfId \<leftarrow> Peer_Id (wb_PeerSelf wb);
     let env = mk_env ''party'' selfId [];
     case l_ofPartyEnvelope L \<lparr>pv_Type = msgType, pv_From = selfId, pv_PartyId = pl_Id party,
            pv_Data = signedPartyData\<rparr> of
       None \<Rightarrow> Ret wb
     | Some jsonPartyEnv \<Rightarrow> do {
         (neighbors, wb) \<leftarrow> getNeighbors L party wb;
         ofold (send_sealed L now env jsonPartyEnv) (l_keys L (map_keys neighbors)) wb } }"

definition zero_minlist :: LockingMinList where
  "zero_minlist = \<lparr>ml_Map = None, ml_Mutex = False\<rparr>"

text \<open>
  \<open>SendInvite\<close>: a party of more than 20 members is cut to 21 ids in a fresh \<open>PartyLine\<close>, whose map and
  mutex are nil.
\<close>

definition SendInvite :: "lib \<Rightarrow> int \<Rightarrow> PartyLine \<Rightarrow> MinPeer \<Rightarrow> WhiteBox \<Rightarrow> WhiteBox go" where
  "SendInvite L now party minp wb = do {
     selfId \<leftarrow> Peer_Id (wb_PeerSelf wb);
     minId \<leftarrow> MinPeer_Id minp;
     let env = mk_env ''invite'' selfId minId;
     n \<leftarrow> MinList_Len (pl_MinList party);
     sendParty \<leftarrow> (if 20 < n
       then do {
         ids \<leftarrow> minlist_ids L (pl_MinList party);
         ml \<leftarrow> ofold (\<lambda>peerId. MinList_Set peerId 0) (take 21 ids) zero_minlist;
         Ret \<lparr>pl_MinList = ml, pl_Id = pl_Id party, pl_SeenChats = Map.empty, pl_Packs = []\<rparr> }
       else Ret party);
     case l_ofParty L sendParty of
       None \<Rightarrow> Ret wb
     | Some jsonInvite \<Rightarrow> do {
         wb \<leftarrow> route L now (env\<lparr>env_Data :=
           l_seal L jsonInvite (mi_EncPub minp) (se_EncPrv (wb_Self wb))\<rparr>) wb;
         Ret (setStatus ''invite sent'' wb) } }"

definition Party_SendAnnounce :: "lib \<Rightarrow> int \<Rightarrow> PartyLine \<Rightarrow> WhiteBox \<Rightarrow> WhiteBox go" where
  "Party_SendAnnounce L now party wb = do {
     selfId \<leftarrow> Peer_Id (wb_PeerSelf wb);
     let env = mk_env ''party'' selfId [];
     case l_ofPartyAnnounce L \<lparr>pa_PeerId = selfId, pa_PartyId = pl_Id party\<rparr> of
       None \<Rightarrow> Ret wb
     | Some jsonPartyAnnounce \<Rightarrow>
         (case l_ofPartyEnvelope L \<lparr>pv_Type = ''announce'', pv_From = selfId, pv_PartyId = pl_Id party,
                pv_Data = signed L jsonPartyAnnounce wb\<rparr> of
            None \<Rightarrow> Ret wb
          | Some jsonPartyEnv \<Rightarrow> do {
              ids \<leftarrow> minlist_ids L (pl_MinList party);
              ofold (send_sealed L now env jsonPartyEnv) ids wb }) }"

definition Party_SendChat :: "lib \<Rightarrow> int \<Rightarrow> PartyLine \<Rightarrow> string \<Rightarrow> WhiteBox \<Rightarrow> WhiteBox go" where
  "Party_SendChat L now party message wb = do {
     selfId \<leftarrow> Peer_Id (wb_PeerSelf wb);
     case l_ofPartyChat L \<lparr>pc_PeerId = selfId, pc_PartyId = pl_Id party, pc_Message = message, pc_Time = now\<rparr> of
       None \<Rightarrow> Ret wb
     | Some jsonPartyChat \<Rightarrow> sendToNeighbors L now party ''chat'' (signed L jsonPartyChat wb) wb }"

definition Party_SendDisconnect :: "lib \<Rightarrow> int \<Rightarrow> PartyLine \<Rightarrow> WhiteBox \<Rightarrow> WhiteBox go" where
  "Party_SendDisconnect L now party wb = do {
     selfId \<leftarrow> Peer_Id (wb_PeerSelf wb);
     case l_ofPartyDisconnect L \<lparr>pd_PeerId = selfId, pd_PartyId = pl_Id party, pd_Time = now\<rparr> of
       None \<Rightarrow> Ret wb
     | Some jsonPartyDisconnect \<Rightarrow> do {
         let wb = wb\<lparr>wb_Parties := map_del (pl_Id party) (wb_Parties wb)\<rparr>;
         sendToNeighbors L now party ''disconnect'' (signed L jsonPartyDisconnect wb) wb } }"

text \<open>What JSON sees of a pack: its name and the files behind its pointers.\<close>

definition pack_json :: "pf_heap \<Rightarrow> Pack \<Rightarrow> PackJson" where
  "pack_json heap pack = \<lparr>pj_Name = pk_Name pack, pj_Files = map (deref heap) (pk_Files pack)\<rparr>"

definition SendAdvertisement :: "lib \<Rightarrow> int \<Rightarrow> PartyLine \<Rightarrow> string \<Rightarrow> Pack \<Rightarrow> WhiteBox \<Rightarrow> WhiteBox go" where
  "SendAdvertisement L now party packSha256 pack wb = do {
     selfId \<leftarrow> Peer_Id (wb_PeerSelf wb);
     case l_ofAdvertisement L \<lparr>ad_PeerId = selfId, ad_PartyId = pl_Id party, ad_Time = now,
            ad_Hash = packSha256, ad_Pack = pack_json (wb_Files wb) pack\<rparr> of
       None \<Rightarrow> Ret wb
     | Some jsonPartyAdvertisement \<Rightarrow>
         sendToNeighbors L now party ''ad'' (signed L jsonPartyAdvertisement wb) wb }"

definition AdvertisePacks :: "lib \<Rightarrow> int \<Rightarrow> PartyLine \<Rightarrow> WhiteBox \<Rightarrow> WhiteBox go" where
  "AdvertisePacks L now party wb = ofold (\<lambda>packSha256 wb. case map_get (pl_Packs party) packSha256 of
       None \<Rightarrow> Ret wb
     | Some pack \<Rightarrow>
         if pk_State pack = COMPLETE then SendAdvertisement L now party packSha256 pack wb else Ret wb)
     (l_keys L (map_keys (pl_Packs party))) wb"

definition ClearPacks :: "PartyLine \<Rightarrow> PartyLine" where
  "ClearPacks party = party\<lparr>pl_Packs := []\<rparr>"

section \<open>Handlers\<close>

text \<open>
  What the party handlers start with: the data after the signature (a slice that panics when the
  data is shorter), decoding, the check of the party id, the member's keys, and the signature. The
  order of the last steps differs between the handlers; \<open>party_check\<close> is the common one.
\<close>

definition party_json :: "lib \<Rightarrow> bytes \<Rightarrow> string go" where
  "party_json L dat = (if length dat < l_sigSize L then Panic else Ret (drop (l_sigSize L) dat))"

definition party_check ::
    "lib \<Rightarrow> string \<Rightarrow> string \<Rightarrow> bytes \<Rightarrow> string \<Rightarrow> WhiteBox \<Rightarrow> (string + MinPeer) go" where
  "party_check L caller peerId dat badParty wb = do {
     if badParty \<noteq> [] then Ret (Inl badParty)
     else do {
       r \<leftarrow> IdToMin (l_spare L) peerId;
       case r of
         Inl err \<Rightarrow> Ret (Inl (''error bad id (party:'' @ caller @ '')''))
       | Inr minp \<Rightarrow>
           if \<not> l_verify L dat (mi_SignPub minp)
           then Ret (Inl (''error questionable message integrity (party:'' @ caller @ '')''))
           else Ret (Inr minp) } }"

definition party_message ::
    "lib \<Rightarrow> string \<Rightarrow> (string \<Rightarrow> 'm option) \<Rightarrow> ('m \<Rightarrow> string) \<Rightarrow> ('m \<Rightarrow> string) \<Rightarrow> string \<Rightarrow> string \<Rightarrow>
      bytes \<Rightarrow> WhiteBox \<Rightarrow> (WhiteBox + 'm \<times> MinPeer) go" where
  "party_message L caller decode peerIdOf partyIdOf badParty partyId dat wb = do {
     json \<leftarrow> party_json L dat;
     case decode json of
       None \<Rightarrow> Ret (Inl (setStatus (''error invalid json (party:'' @ caller @ '')'') wb))
     | Some m \<Rightarrow> do {
         r \<leftarrow> party_check L caller (peerIdOf m) dat (if partyIdOf m \<noteq> partyId then badParty else []) wb;
         case r of
           Inl err \<Rightarrow> Ret (Inl (setStatus err wb))
         | Inr minp \<Rightarrow> Ret (Inr (m, minp)) } }"

definition ProcessChat :: "lib \<Rightarrow> int \<Rightarrow> PartyEnvelope \<Rightarrow> PartyLine \<Rightarrow> WhiteBox \<Rightarrow> (PartyLine \<times> WhiteBox) go" where
  "ProcessChat L now partyEnv party wb = do {
     r \<leftarrow> party_message L ''chat'' (l_toPartyChat L) pc_PeerId pc_PartyId ''error invalid party (party:chat)''
            (pl_Id party) (pv_Data partyEnv) wb;
     case r of
       Inl wb \<Rightarrow> Ret (party, wb)
     | Inr (partyChat, minp) \<Rightarrow> do {
         let chatId = pc_PeerId partyChat @ ''.'' @ l_timeString L (pc_Time partyChat);
         if pl_SeenChats party chatId = None
         then do {
           let party = party\<lparr>pl_SeenChats := (pl_SeenChats party)(chatId \<mapsto> True)\<rparr>;
           let wb = addChat \<lparr>ch_Time = now, ch_Id = pc_PeerId partyChat, ch_Channel = pl_Id party,
                 ch_Message = pc_Message partyChat\<rparr> wb;
           wb \<leftarrow> sendToNeighbors L now party ''chat'' (pv_Data partyEnv) wb;
           Ret (party, wb) }
         else Ret (party, wb) } }"

definition ProcessDisconnect ::
    "lib \<Rightarrow> int \<Rightarrow> PartyEnvelope \<Rightarrow> PartyLine \<Rightarrow> WhiteBox \<Rightarrow> (PartyLine \<times> WhiteBox) go" where
  "ProcessDisconnect L now partyEnv party wb = do {
     r \<leftarrow> party_message L ''disconnect'' (l_toPartyDisconnect L) pd_PeerId pd_PartyId
            ''error invalid party (party:disconnect)'' (pl_Id party) (pv_Data partyEnv) wb;
     case r of
       Inl wb \<Rightarrow> Ret (party, wb)
     | Inr (partyDisconnect, minp) \<Rightarrow>
         if 200 * 10 ^ 9 < now - pd_Time partyDisconnect
         then Ret (party, setStatus ''error time exceeds max allowable (party:disconnect)'' wb)
         else do {
           seen \<leftarrow> MinList_Get (pd_PeerId partyDisconnect) (pl_MinList party);
           if seen \<noteq> None
           then do {
             let ml = pl_MinList party;
             let party = party\<lparr>pl_MinList :=
                   ml\<lparr>ml_Map := map_option (map_del (pd_PeerId partyDisconnect)) (ml_Map ml)\<rparr>\<rparr>;
             wb \<leftarrow> sendToNeighbors L now party ''disconnect'' (pv_Data partyEnv) wb;
             Ret (party, wb) }
           else Ret (party, wb) } }"

definition ProcessAnnounce ::
    "lib \<Rightarrow> int \<Rightarrow> PartyEnvelope \<Rightarrow> PartyLine \<Rightarrow> WhiteBox \<Rightarrow> (PartyLine \<times> WhiteBox) go" where
  "ProcessAnnounce L now partyEnv party wb = do {
     r \<leftarrow> party_message L ''announce'' (l_toPartyAnnounce L) pa_PeerId pa_PartyId
            ''error invalid party (party:announce)'' (pl_Id party) (pv_Data partyEnv) wb;
     case r of
       Inl wb \<Rightarrow> Ret (party, wb)
     | Inr (partyAnnounce, minp) \<Rightarrow> do {
         seen \<leftarrow> MinList_Get (pa_PeerId partyAnnounce) (pl_MinList party);
         if seen = None
         then do {
           ml \<leftarrow> MinList_Set (pa_PeerId partyAnnounce) 0 (pl_MinList party);
           let party = party\<lparr>pl_MinList := ml\<rparr>;
           wb \<leftarrow> sendToNeighbors L now party ''announce'' (pv_Data partyEnv) wb;
           Ret (party, wb) }
         else Ret (party, wb) } }"

end
