(* ===== verification/PartyFiles.thy ===== *)
theory PartyFiles
  imports Party
begin

text \<open>
  Files in a party (\<open>white-box/party.go\<close>, lines 374-450 and 746-1422): advertisements, starting a
  download, requests, fulfillments, and one round of each of the goroutines that serve them. A
  boolean result is false where the goroutine returns. A send on a full channel does not return here
  (\<open>None\<close>); the channels hold 100 elements.
\<close>

section \<open>Advertisements\<close>

fun alloc_files :: "PackFileInfo option list \<Rightarrow> WhiteBox \<Rightarrow> nat option list \<times> WhiteBox" where
  "alloc_files [] wb = ([], wb)"
| "alloc_files (None # fs) wb = (let (ps, wb) = alloc_files fs wb in (None # ps, wb))"
| "alloc_files (Some f # fs) wb =
     (let a = wb_NextFile wb;
          (ps, wb) = alloc_files fs (wb\<lparr>wb_Files := (wb_Files wb)(a \<mapsto> f), wb_NextFile := Suc a\<rparr>)
      in (Some a # ps, wb))"

definition reset_file :: "nat option \<Rightarrow> pf_heap \<Rightarrow> pf_heap go" where
  "reset_file p heap = do {
     a \<leftarrow> p;
     file \<leftarrow> heap a;
     Ret (heap(a \<mapsto> file\<lparr>pf_BlockMap := Map.empty, pf_BlockLookup := Map.empty, pf_Coverage := Some [],
       pf_Path := []\<rparr>)) }"

definition ProcessAdvertisement ::
    "lib \<Rightarrow> int \<Rightarrow> PartyEnvelope \<Rightarrow> PartyLine \<Rightarrow> WhiteBox \<Rightarrow> (PartyLine \<times> WhiteBox) go" where
  "ProcessAdvertisement L now partyEnv party wb = do {
     r \<leftarrow> party_message L ''ad'' (l_toAdvertisement L) ad_PeerId ad_PartyId
            ''error invalid party id for (party:ad)'' (pl_Id party) (pv_Data partyEnv) wb;
     case r of
       Inl wb \<Rightarrow> Ret (party, wb)
     | Inr (ad, minp) \<Rightarrow> do {
         let (files, wb1) = alloc_files (pj_Files (ad_Pack ad)) wb;
         let newPack = \<lparr>pk_Name = pj_Name (ad_Pack ad), pk_Files = files, pk_State = AVAILABLE,
               pk_Peers = Map.empty\<rparr>;
         (newPack, newHash) \<leftarrow> sha256Pack L (wb_Files wb1) newPack;
         let hash = ad_Hash ad;
         if hash \<noteq> newHash then Ret (party, setStatus ''error bad pack hash (party:ad)'' wb)
         else do {
           (party, wb) \<leftarrow> (case map_get (pl_Packs party) hash of
               Some _ \<Rightarrow> Ret (party, wb)
             | None \<Rightarrow> do {
                 heap \<leftarrow> ofold reset_file (pk_Files newPack) (wb_Files wb1);
                 Ret (party\<lparr>pl_Packs := map_put hash newPack (pl_Packs party)\<rparr>, wb1\<lparr>wb_Files := heap\<rparr>) });
           pack \<leftarrow> map_get (pl_Packs party) hash;
           minId \<leftarrow> MinPeer_Id minp;
           let adTime = ad_Time ad;
           let known = pk_Peers pack minId;
           let peerTime = (case known of None \<Rightarrow> 0 | Some t \<Rightarrow> t);
           if known = None \<or> peerTime < adTime
           then do {
             wb \<leftarrow> (if 30 * 10 ^ 9 < adTime - peerTime
                     then sendToNeighbors L now party ''ad'' (pv_Data partyEnv) wb else Ret wb);
             Ret (party\<lparr>pl_Packs := map_put hash
                    (pack\<lparr>pk_Peers := (pk_Peers pack)(minId \<mapsto> adTime)\<rparr>) (pl_Packs party)\<rparr>, wb) }
           else Ret (party, wb) } } }"

section \<open>Starting a download\<close>

text \<open>\<open>writeZeroFile\<close> on the node's disk, with its status messages.\<close>

definition wb_writeZeroFile :: "lib \<Rightarrow> string \<Rightarrow> u64 \<Rightarrow> WhiteBox \<Rightarrow> WhiteBox" where
  "wb_writeZeroFile L name sz wb =
     (let (dsk, msgs) = writeZeroFile (l_zeroFaults L name) name sz (wb_Disk wb)
      in fold setStatus msgs (wb\<lparr>wb_Disk := dsk\<rparr>))"

definition start_pack_file :: "lib \<Rightarrow> nat option \<Rightarrow> WhiteBox \<Rightarrow> WhiteBox go" where
  "start_pack_file L p wb = do {
     a \<leftarrow> p;
     file \<leftarrow> wb_Files wb a;
     let wb = wb_writeZeroFile L (pf_Path file) (pf_Size file) wb;
     Ret (wb\<lparr>wb_Files := (wb_Files wb)(a \<mapsto> file\<lparr>pf_Coverage := Some (emptyCoverage (pf_Size file))\<rparr>)\<rparr>) }"

definition StartPack :: "lib \<Rightarrow> string \<Rightarrow> PartyLine \<Rightarrow> WhiteBox \<Rightarrow> (PartyLine \<times> WhiteBox) go" where
  "StartPack L packHash party wb = do {
     pack \<leftarrow> map_get (pl_Packs party) packHash;
     case l_abs L (Join (wb_SharedDir wb) (pl_Id party)) of
       None \<Rightarrow> Ret (party, setStatus ''error could not get absolute path for party dir'' wb)
     | Some partyDirAbs \<Rightarrow>
         if sublist ''..'' (pk_Name pack)
         then Ret (party, setStatus ''error pack name potential directory traversal'' wb)
         else if \<not> l_mkdir L partyDirAbs
         then Ret (party, setStatus ''error could not create destination dir'' wb)
         else do {
           (pack, pendingPack) \<leftarrow> ToPendingPack L (wb_Files wb) pack;
           let party = party\<lparr>pl_Packs := map_put packHash pack (pl_Packs party)\<rparr>;
           case l_ofPendingPack L pendingPack of
             None \<Rightarrow> Ret (party, setStatus ''error marshalling pending pack to json'' wb)
           | Some jsonPendingPack \<Rightarrow>
               let pendingFileName = Join partyDirAbs (pk_Name pack @ ''.pending'') in
               if \<not> l_writeFile L pendingFileName
               then Ret (party, setStatus ''error writing pending pack to file'' wb)
               else do {
                 let wb = wb\<lparr>wb_Disk := (wb_Disk wb)(pendingFileName \<mapsto> jsonPendingPack)\<rparr>;
                 heap \<leftarrow> SetPaths partyDirAbs (pk_Files pack) (wb_Files wb);
                 wb \<leftarrow> ofold (start_pack_file L) (pk_Files pack) (wb\<lparr>wb_Files := heap\<rparr>);
                 Ret (party\<lparr>pl_Packs := map_put packHash (pack\<lparr>pk_State := ACTIVE\<rparr>) (pl_Packs party)\<rparr>, wb) } } }"

section \<open>Requests\<close>

definition ProcessRequest :: "lib \<Rightarrow> int \<Rightarrow> PartyEnvelope \<Rightarrow> PartyLine \<Rightarrow> WhiteBox \<Rightarrow> WhiteBox go" where
  "ProcessRequest L now partyEnv party wb = do {
     r \<leftarrow> party_message L ''request'' (l_toRequest L) rq_PeerId (\<lambda>_. pl_Id party) [] (pl_Id party)
            (pv_Data partyEnv) wb;
     case r of
       Inl wb \<Rightarrow> Ret wb
     | Inr (partyRequest, minp) \<Rightarrow>
         if rq_PartyId partyRequest \<noteq> pl_Id party
         then Ret (setStatus ''error invalid party id (party:request)'' wb)
         else do {
           minId \<leftarrow> MinPeer_Id minp;
           let key = sha256Bytes (l_sha L)
                 (minId @ pl_Id party @ rq_PackHash partyRequest @ rq_FileHash partyRequest);
           if (case wb_FreshRequests wb key of
                 None \<Rightarrow> False
               | Some since \<Rightarrow> rq_Time partyRequest < si_Reported since \<or> now - si_Received since < 5 * 10 ^ 9)
           then Ret wb
           else do {
             wb \<leftarrow> sendToNeighbors L now party ''request'' (pv_Data partyEnv) wb;
             let wb = wb\<lparr>wb_FreshRequests := (wb_FreshRequests wb)
                   (key \<mapsto> \<lparr>si_Received = now, si_Reported = rq_Time partyRequest\<rparr>)\<rparr>;
             pack \<leftarrow> map_get (pl_Packs party) (rq_PackHash partyRequest);
             if pk_State pack = AVAILABLE then Ret wb
             else do {
               info \<leftarrow> GetFileInfo (wb_Files wb) (pk_Files pack) (rq_FileHash partyRequest);
               if info = None then Ret wb
               else if length (wb_RequestChan wb) < 100
               then Ret (wb\<lparr>wb_RequestChan := wb_RequestChan wb @
                      [partyRequest\<lparr>rq_Time := now + 6 * 10 ^ 9\<rparr>]\<rparr>)
               else Panic } } } }"

definition SendRequest :: "lib \<Rightarrow> int \<Rightarrow> PartyLine \<Rightarrow> string \<Rightarrow> PackFileInfo \<Rightarrow> WhiteBox \<Rightarrow> WhiteBox go" where
  "SendRequest L now party packHash file wb = do {
     selfId \<leftarrow> Peer_Id (wb_PeerSelf wb);
     case l_ofRequest L \<lparr>rq_PeerId = selfId, rq_PackHash = packHash, rq_FileHash = pf_Hash file,
            rq_Coverage = cov_words file, rq_Time = now, rq_PartyId = pl_Id party\<rparr> of
       None \<Rightarrow> Ret wb
     | Some jsonPartyRequest \<Rightarrow> sendToNeighbors L now party ''request'' (signed L jsonPartyRequest wb) wb }"

text \<open>\<open>SendRequests\<close>; the pack is complete when no file lacks a block.\<close>

definition SendRequests ::
    "lib \<Rightarrow> int \<Rightarrow> PartyLine \<Rightarrow> string \<Rightarrow> Pack \<Rightarrow> WhiteBox \<Rightarrow> (Pack \<times> WhiteBox) go" where
  "SendRequests L now party packHash pack wb = do {
     (complete, wb) \<leftarrow> ofold (\<lambda>p (complete, wb). do {
         file \<leftarrow> deref (wb_Files wb) p;
         full \<leftarrow> isFullCoverage (pf_Size file) (pf_Coverage file);
         if \<not> full
         then do {
           wb \<leftarrow> SendRequest L now party packHash file wb;
           Ret (False, wb) }
         else Ret (complete, wb) }) (pk_Files pack) (True, wb);
     Ret (if complete then pack\<lparr>pk_State := COMPLETE\<rparr> else pack, wb) }"

text \<open>One round of \<open>FileRequester\<close>: all active packs of all parties.\<close>

definition request_pack :: "lib \<Rightarrow> int \<Rightarrow> string \<Rightarrow> string \<Rightarrow> WhiteBox \<Rightarrow> WhiteBox go" where
  "request_pack L now partyId packHash wb = (case map_get (wb_Parties wb) partyId of
     None \<Rightarrow> Ret wb
   | Some party \<Rightarrow>
       (case map_get (pl_Packs party) packHash of
          None \<Rightarrow> Ret wb
        | Some pack \<Rightarrow>
            if pk_State pack = ACTIVE
            then do {
              (pack, wb) \<leftarrow> SendRequests L now party packHash pack wb;
              Ret (wb\<lparr>wb_Parties := map_put partyId
                (party\<lparr>pl_Packs := map_put packHash pack (pl_Packs party)\<rparr>) (wb_Parties wb)\<rparr>) }
            else Ret wb))"

definition FileRequester :: "lib \<Rightarrow> int \<Rightarrow> WhiteBox \<Rightarrow> WhiteBox go" where
  "FileRequester L now wb = ofold (\<lambda>partyId wb.
       case map_get (wb_Parties wb) partyId of
         None \<Rightarrow> Ret wb
       | Some party \<Rightarrow> ofold (request_pack L now partyId) (l_keys L (map_keys (pl_Packs party))) wb)
     (l_keys L (map_keys (wb_Parties wb))) wb"

section \<open>Fulfillments\<close>

definition SendFulfillment :: "lib \<Rightarrow> int \<Rightarrow> PartyLine \<Rightarrow> PartyRequest \<Rightarrow> Block \<Rightarrow> WhiteBox \<Rightarrow> WhiteBox go" where
  "SendFulfillment L now party request block wb = do {
     selfId \<leftarrow> Peer_Id (wb_PeerSelf wb);
     let env = mk_env ''party'' selfId (rq_PeerId request);
     case l_ofFulfillment L \<lparr>fl_PeerId = selfId, fl_PackHash = rq_PackHash request,
            fl_FileHash = rq_FileHash request, fl_PartyId = pl_Id party, fl_Block = block\<rparr> of
       None \<Rightarrow> Ret wb
     | Some jsonPartyFulfillment \<Rightarrow>
         (case l_ofPartyEnvelope L \<lparr>pv_Type = ''fulfillment'', pv_From = selfId, pv_PartyId = pl_Id party,
                pv_Data = signed L jsonPartyFulfillment wb\<rparr> of
            None \<Rightarrow> Ret wb
          | Some jsonPartyEnv \<Rightarrow> send_sealed L now env jsonPartyEnv (rq_PeerId request) wb) }"

definition ProcessFulfillment :: "lib \<Rightarrow> PartyEnvelope \<Rightarrow> PartyLine \<Rightarrow> WhiteBox \<Rightarrow> WhiteBox go" where
  "ProcessFulfillment L partyEnv party wb = do {
     r \<leftarrow> party_message L ''fulfillment'' (l_toFulfillment L) fl_PeerId (\<lambda>_. pl_Id party) [] (pl_Id party)
            (pv_Data partyEnv) wb;
     case r of
       Inl wb \<Rightarrow> Ret wb
     | Inr (partyFulfillment, minp) \<Rightarrow>
         if fl_PartyId partyFulfillment \<noteq> pl_Id party then Ret wb
         else do {
           pack \<leftarrow> map_get (pl_Packs party) (fl_PackHash partyFulfillment);
           if pk_State pack \<noteq> ACTIVE then Ret wb
           else do {
             info \<leftarrow> GetFileInfo (wb_Files wb) (pk_Files pack) (fl_FileHash partyFulfillment);
             case info of
               None \<Rightarrow> Ret wb
             | Some a \<Rightarrow> do {
                 packFileInfo \<leftarrow> wb_Files wb a;
                 let block = fl_Block partyFulfillment;
                 case verifyBlock (l_sha L) packFileInfo block of
                   None \<Rightarrow> Ret wb
                 | Some blockHash \<Rightarrow>
                     if length (wb_VerifiedBlockChan wb) < 100
                     then Ret (wb\<lparr>wb_VerifiedBlockChan := wb_VerifiedBlockChan wb @
                            [\<lparr>vb_Block = block, vb_PackFileInfo = a, vb_Hash = blockHash\<rparr>]\<rparr>)
                     else Panic } } } }"

text \<open>\<open>chooseBlock\<close>: an unknown pack or file is a nil dereference.\<close>

definition chooseBlock :: "lib \<Rightarrow> PartyLine \<Rightarrow> PartyRequest \<Rightarrow> WhiteBox \<Rightarrow> Block option go" where
  "chooseBlock L party request wb = do {
     _ \<leftarrow> next_blocks (rq_Coverage request);
     pack \<leftarrow> map_get (pl_Packs party) (rq_PackHash request);
     info \<leftarrow> GetFileInfo (wb_Files wb) (pk_Files pack) (rq_FileHash request);
     packFileInfo \<leftarrow> deref (wb_Files wb) info;
     chooseBlock_file (l_sha L) (l_rnd L) (wb_Disk wb) (rq_Coverage request) packFileInfo }"

text \<open>One round of \<open>RequestSender\<close>, when a request is queued.\<close>

definition RequestSender :: "lib \<Rightarrow> int \<Rightarrow> WhiteBox \<Rightarrow> (bool \<times> WhiteBox) go" where
  "RequestSender L now wb = (case wb_RequestChan wb of
     [] \<Rightarrow> Ret (True, wb)
   | request # queue \<Rightarrow> do {
       let wb = wb\<lparr>wb_RequestChan := queue\<rparr>;
       selfId \<leftarrow> Peer_Id (wb_PeerSelf wb);
       if rq_PeerId request = selfId then Ret (True, wb)
       else if rq_Time request < now then Ret (True, wb)
       else case map_get (wb_Parties wb) (rq_PartyId request) of
         None \<Rightarrow> Ret (False, wb)
       | Some party \<Rightarrow> do {
           choice \<leftarrow> chooseBlock L party request wb;
           case choice of
             None \<Rightarrow> Ret (True, wb)
           | Some block \<Rightarrow> do {
               wb \<leftarrow> SendFulfillment L now party request block wb;
               cov \<leftarrow> cov_set (b_Index block) (rq_Coverage request);
               if length (wb_RequestChan wb) < 100
               then Ret (True, wb\<lparr>wb_RequestChan := wb_RequestChan wb @ [request\<lparr>rq_Coverage := cov\<rparr>]\<rparr>)
               else Panic } } })"

text \<open>One round of \<open>VerifiedBlockWriter\<close> on the node, when a block is queued; \<open>fault\<close> is its I/O fault.\<close>

definition wb_VerifiedBlockWriter :: "io_fault \<Rightarrow> WhiteBox \<Rightarrow> WhiteBox go" where
  "wb_VerifiedBlockWriter fault wb = (case wb_VerifiedBlockChan wb of
     [] \<Rightarrow> Ret wb
   | vb # queue \<Rightarrow> do {
       pfi \<leftarrow> wb_Files wb (vb_PackFileInfo vb);
       (dsk, pfi, msg) \<leftarrow> VerifiedBlockWriter fault (wb_Disk wb) pfi (vb_Block vb) (vb_Hash vb);
       let wb = wb\<lparr>wb_VerifiedBlockChan := queue, wb_Disk := dsk,
             wb_Files := (wb_Files wb)(vb_PackFileInfo vb \<mapsto> pfi)\<rparr>;
       Ret (case msg of None \<Rightarrow> wb | Some m \<Rightarrow> setStatus m wb) })"

end
