(* ===== verification/Messages.thy ===== *)
theory Messages
  imports PartyFiles
begin

text \<open>
  The entry points of a node: the dispatch of datagrams \<open>processMessage\<close>
  (\<open>white-box/processors.go\<close>, lines 13-65), of party messages \<open>processParty\<close>, invitations, and the
  operations of the user interface on parties (\<open>white-box/party.go\<close>, lines 586-722 and 1424-1491).
\<close>

definition dispatch_party ::
    "lib \<Rightarrow> int \<Rightarrow> PartyEnvelope \<Rightarrow> PartyLine \<Rightarrow> WhiteBox \<Rightarrow> (PartyLine \<times> WhiteBox) go" where
  "dispatch_party L now partyEnv party wb =
     (if pv_Type partyEnv = ''ad'' then ProcessAdvertisement L now partyEnv party wb
      else if pv_Type partyEnv = ''announce'' then ProcessAnnounce L now partyEnv party wb
      else if pv_Type partyEnv = ''chat'' then ProcessChat L now partyEnv party wb
      else if pv_Type partyEnv = ''disconnect'' then ProcessDisconnect L now partyEnv party wb
      else if pv_Type partyEnv = ''request''
      then do { wb \<leftarrow> ProcessRequest L now partyEnv party wb; Ret (party, wb) }
      else if pv_Type partyEnv = ''fulfillment''
      then do { wb \<leftarrow> ProcessFulfillment L partyEnv party wb; Ret (party, wb) }
      else Ret (party, setStatus (''unknown message type '' @ pv_Type partyEnv @ '' (party)'') wb))"

definition processParty :: "lib \<Rightarrow> int \<Rightarrow> Envelope \<Rightarrow> WhiteBox \<Rightarrow> WhiteBox go" where
  "processParty L now env wb = do {
     r \<leftarrow> IdToMin (l_spare L) (env_From env);
     case r of
       Inl err \<Rightarrow> Ret (setStatus err wb)
     | Inr minp \<Rightarrow>
         (case l_open L (env_Data env) (mi_EncPub minp) (se_EncPrv (wb_Self wb)) of
            None \<Rightarrow> Ret (setStatus ''error invalid crypto (party)'' wb)
          | Some jsonData \<Rightarrow>
              (case l_toPartyEnvelope L jsonData of
                 None \<Rightarrow> Ret (setStatus ''error invalid json (party)'' wb)
               | Some partyEnv \<Rightarrow>
                   (case map_get (wb_Parties wb) (pv_PartyId partyEnv) of
                      None \<Rightarrow> Ret (setStatus ''error invalid party (party)'' wb)
                    | Some party \<Rightarrow> do {
                        (party, wb) \<leftarrow> dispatch_party L now partyEnv party wb;
                        ml \<leftarrow> (if env_From env = pv_From partyEnv \<and> pv_Type partyEnv \<noteq> ''disconnect''
                                then MinList_Set (pv_From partyEnv) 0 (pl_MinList party)
                                else Ret (pl_MinList party));
                        Ret (wb\<lparr>wb_Parties := map_put (pv_PartyId partyEnv) (party\<lparr>pl_MinList := ml\<rparr>)
                          (wb_Parties wb)\<rparr>) }))) }"

text \<open>The pattern \<open>^[a-zA-Z0-9]{32}$\<close>.\<close>

definition alphanum :: "char \<Rightarrow> bool" where
  "alphanum c \<longleftrightarrow> (CHR ''a'' \<le> c \<and> c \<le> CHR ''z'') \<or> (CHR ''A'' \<le> c \<and> c \<le> CHR ''Z'') \<or>
     (CHR ''0'' \<le> c \<and> c \<le> CHR ''9'')"

definition valid_party_id :: "string \<Rightarrow> bool" where
  "valid_party_id s \<longleftrightarrow> length s = 32 \<and> list_all alphanum s"

text \<open>On bad JSON the handler reports through the new party's back pointer, which is nil.\<close>

definition processInvite :: "lib \<Rightarrow> Envelope \<Rightarrow> WhiteBox \<Rightarrow> WhiteBox go" where
  "processInvite L env wb = do {
     r \<leftarrow> IdToMin (l_spare L) (env_From env);
     case r of
       Inl err \<Rightarrow> Ret (setStatus err wb)
     | Inr minp \<Rightarrow>
         (case l_open L (env_Data env) (mi_EncPub minp) (se_EncPrv (wb_Self wb)) of
            None \<Rightarrow> Ret (setStatus ''error invalid crypto (invite)'' wb)
          | Some jsonData \<Rightarrow>
              (case l_toParty L jsonData of
                 None \<Rightarrow> Panic
               | Some party \<Rightarrow>
                   if \<not> valid_party_id (pl_Id party)
                   then Ret (setStatus ''error invalid party id (invite)'' wb)
                   else
                     let party = party\<lparr>pl_SeenChats := Map.empty, pl_Packs := []\<rparr> in
                     if map_get (wb_PendingInvites wb) (pl_Id party) \<noteq> None \<or>
                        map_get (wb_Parties wb) (pl_Id party) \<noteq> None
                     then Ret (setStatus (''reinvite ignored for '' @ pl_Id party) wb)
                     else Ret (setStatus (''invite received for '' @ pl_Id party)
                       (wb\<lparr>wb_PendingInvites := map_put (pl_Id party) party (wb_PendingInvites wb)\<rparr>)))) }"

definition AcceptInvite :: "lib \<Rightarrow> int \<Rightarrow> string \<Rightarrow> WhiteBox \<Rightarrow> WhiteBox go" where
  "AcceptInvite L now partyId wb =
     (let pending = map_get (wb_PendingInvites wb) partyId in
      if map_get (wb_Parties wb) partyId \<noteq> None
      then (case pending of
              None \<Rightarrow> Panic
            | Some _ \<Rightarrow> Ret (setStatus ''error already joined party with id'' wb))
      else do {
        let wb = wb\<lparr>wb_PendingInvites := map_del partyId (wb_PendingInvites wb)\<rparr>;
        party \<leftarrow> pending;
        wb \<leftarrow> Party_SendAnnounce L now party wb;
        let wb = wb\<lparr>wb_Parties := map_put (pl_Id party) party (wb_Parties wb)\<rparr>;
        Ret (setStatus (''accepted invite '' @ pl_Id party) wb) })"

definition processMessage :: "lib \<Rightarrow> int \<Rightarrow> string \<Rightarrow> WhiteBox \<Rightarrow> WhiteBox go" where
  "processMessage L now strMsg wb = (case l_toEnvelope L strMsg of
     None \<Rightarrow> Ret (setStatus ''invalid json message received'' wb)
   | Some env \<Rightarrow> do {
       other \<leftarrow> (if env_Time env \<noteq> 0
                  then do { selfId \<leftarrow> Peer_Id (wb_PeerSelf wb); Ret (env_To env \<noteq> selfId) }
                  else Ret False);
       if other
       then if wb_NoReroute wb (env_Time env) = None then Ret wb
            else route L now env (wb\<lparr>wb_NoReroute := (wb_NoReroute wb)(env_Time env \<mapsto> True)\<rparr>)
       else if env_Type env = ''announce'' then processAnnounce L now env wb
       else if env_Type env = ''bootstrap'' then processBootstrap L now env wb
       else if env_Type env = ''chat'' then processChat L now env wb
       else if env_Type env = ''disconnect'' then processDisconnect L env wb
       else if env_Type env = ''request'' then processSuggestionRequest L now env wb
       else if env_Type env = ''suggestions'' then processSuggestions L now env wb
       else if env_Type env = ''ping'' then processPing L now env wb
       else if env_Type env = ''pulse'' then processPulse L now env wb
       else if env_Type env = ''verifybs'' then processVerify L now env wb
       else if env_Type env = ''party'' then processParty L now env wb
       else if env_Type env = ''invite'' then processInvite L env wb
       else Ret (chatStatus (''unknown msg type: '' @ env_Type env) wb) })"

section \<open>Operations of the user interface\<close>

definition minimum :: "int \<Rightarrow> int \<Rightarrow> int" where
  "minimum a b = (if a < b then a else b)"

text \<open>\<open>PartyStart\<close>: \<open>idBytes\<close> are 16 random bytes. The result is the party id, empty on error.\<close>

definition PartyStart :: "bytes \<Rightarrow> string \<Rightarrow> WhiteBox \<Rightarrow> (string \<times> WhiteBox) go" where
  "PartyStart idBytes name wb =
     (let name = take (nat (minimum (int (length name)) 8)) name;
          idHex = hexEncode idBytes;
          partyId = name @ take (length idHex - length name) idHex
      in if \<not> valid_party_id partyId then Ret ([], setStatus ''error invalid party id (start)'' wb)
         else do {
           selfId \<leftarrow> Peer_Id (wb_PeerSelf wb);
           ml \<leftarrow> MinList_Set selfId 0 \<lparr>ml_Map = Some [], ml_Mutex = True\<rparr>;
           let party = \<lparr>pl_MinList = ml, pl_Id = partyId, pl_SeenChats = Map.empty, pl_Packs = []\<rparr>;
           Ret (partyId, wb\<lparr>wb_Parties := map_put partyId party (wb_Parties wb)\<rparr>) })"

definition for_parties :: "lib \<Rightarrow> (PartyLine \<Rightarrow> WhiteBox \<Rightarrow> WhiteBox go) \<Rightarrow> WhiteBox \<Rightarrow> WhiteBox go" where
  "for_parties L f wb = ofold (\<lambda>partyId wb. case map_get (wb_Parties wb) partyId of
       None \<Rightarrow> Ret wb
     | Some party \<Rightarrow> f party wb) (l_keys L (map_keys (wb_Parties wb))) wb"

definition advertiseAll :: "lib \<Rightarrow> int \<Rightarrow> WhiteBox \<Rightarrow> WhiteBox go" where
  "advertiseAll L now wb = for_parties L (AdvertisePacks L now) wb"

definition DisconnectParties :: "lib \<Rightarrow> int \<Rightarrow> WhiteBox \<Rightarrow> WhiteBox go" where
  "DisconnectParties L now wb = for_parties L (Party_SendDisconnect L now) wb"

end
