(* ===== verification/PartyFacts.thy ===== *)
theory PartyFacts
  imports Messages SendFacts
begin

text \<open>
  What the operations of parties leave alone. \<open>calm wb wb'\<close>: the step changed at most the files, the
  disk, the request and block queues and the emitted status lines and datagrams; the routing table, the
  cache, the parties and the chats shown are the same. Every party handler is calm except for the chat
  that \<open>ProcessChat\<close> shows, and keeps the id of its party.
\<close>

definition calm :: "WhiteBox \<Rightarrow> WhiteBox \<Rightarrow> bool" where
  "calm wb wb' \<longleftrightarrow> wb_PeerTable wb' = wb_PeerTable wb \<and> wb_PeerCache wb' = wb_PeerCache wb \<and>
     wb_IdealPeerIds wb' = wb_IdealPeerIds wb \<and> wb_EmptyList wb' = wb_EmptyList wb \<and>
     wb_PeerSelf wb' = wb_PeerSelf wb \<and> wb_Self wb' = wb_Self wb \<and> wb_SeenChats wb' = wb_SeenChats wb \<and>
     wb_Parties wb' = wb_Parties wb \<and> wb_PendingInvites wb' = wb_PendingInvites wb \<and>
     wb_NoReroute wb' = wb_NoReroute wb \<and> chats_of (wb_out wb') = chats_of (wb_out wb)"

named_theorems calm_dests "operations that keep the routing table, the parties and the chats"

lemma calm_refl [simp]: "calm wb wb"
  by (simp add: calm_def)

lemma calm_trans [trans]: "calm a b \<Longrightarrow> calm b c \<Longrightarrow> calm a c"
  by (simp add: calm_def)

lemma quiet_calm: "quiet a b \<Longrightarrow> calm a b"
  by (simp add: calm_def quiet_fields)

lemma calm_wf: "calm wb wb' \<Longrightarrow> wf_wb s wb' \<longleftrightarrow> wf_wb s wb"
  by (rule wf_wb_cong) (simp_all add: calm_def)

lemma calm_status [simp]: "calm a (setStatus m wb) \<longleftrightarrow> calm a wb"
  by (simp add: calm_def setStatus_def)

lemma calm_updates [simp]:
  "calm a (wb\<lparr>wb_Files := h\<rparr>) \<longleftrightarrow> calm a wb" "calm a (wb\<lparr>wb_NextFile := n\<rparr>) \<longleftrightarrow> calm a wb"
  "calm a (wb\<lparr>wb_Disk := d\<rparr>) \<longleftrightarrow> calm a wb" "calm a (wb\<lparr>wb_FreshRequests := r\<rparr>) \<longleftrightarrow> calm a wb"
  "calm a (wb\<lparr>wb_RequestChan := q\<rparr>) \<longleftrightarrow> calm a wb" "calm a (wb\<lparr>wb_VerifiedBlockChan := b\<rparr>) \<longleftrightarrow> calm a wb"
  by (simp_all add: calm_def)

lemma calm_files [simp]: "calm (wb\<lparr>wb_Files := h\<rparr>) a \<longleftrightarrow> calm wb a"
  by (simp add: calm_def)

lemma calm_ofold:
  assumes "ofold f xs wb = Ret wb'" and "\<And>x a b. f x a = Ret b \<Longrightarrow> calm a b"
  shows "calm wb wb'"
  using assms(1) calm_refl by (rule ofold_invariant) (blast intro: calm_trans assms(2))

section \<open>Sending in a party\<close>

lemma quiet_getNeighbors [quiet_dests]: "getNeighbors L party wb = Ret (m, wb') \<Longrightarrow> quiet wb wb'"
  by (auto simp: getNeighbors_def Let_def elim!: bindE split: option.splits)

lemma quiet_send_sealed [quiet_dests]: "send_sealed L now env j i wb = Ret wb' \<Longrightarrow> quiet wb wb'"
  by (auto simp: send_sealed_def elim!: bindE dest!: quiet_route split: sum.splits)

lemma quiet_sendToNeighbors [quiet_dests]: "sendToNeighbors L now party t d wb = Ret wb' \<Longrightarrow> quiet wb wb'"
  by (auto simp: sendToNeighbors_def Let_def elim!: bindE split: option.splits
      dest!: quiet_getNeighbors quiet_ofold [OF _ quiet_send_sealed] intro: quiet_trans)

lemma quiet_SendInvite [quiet_dests]: "SendInvite L now party minp wb = Ret wb' \<Longrightarrow> quiet wb wb'"
  by (auto simp: SendInvite_def Let_def elim!: bindE split: option.splits if_splits dest!: quiet_route)

lemma quiet_Party_SendAnnounce [quiet_dests]: "Party_SendAnnounce L now party wb = Ret wb' \<Longrightarrow> quiet wb wb'"
  by (auto simp: Party_SendAnnounce_def Let_def elim!: bindE split: option.splits
      dest!: quiet_ofold [OF _ quiet_send_sealed])

lemma quiet_Party_SendChat [quiet_dests]: "Party_SendChat L now party m wb = Ret wb' \<Longrightarrow> quiet wb wb'"
  by (auto simp: Party_SendChat_def Let_def elim!: bindE split: option.splits dest!: quiet_sendToNeighbors)

lemma quiet_SendAdvertisement [quiet_dests]: "SendAdvertisement L now party h p wb = Ret wb' \<Longrightarrow> quiet wb wb'"
  by (auto simp: SendAdvertisement_def Let_def elim!: bindE split: option.splits dest!: quiet_sendToNeighbors)

lemma quiet_AdvertisePacks [quiet_dests]: "AdvertisePacks L now party wb = Ret wb' \<Longrightarrow> quiet wb wb'"
  unfolding AdvertisePacks_def
  by (erule quiet_ofold) (auto dest!: quiet_SendAdvertisement split: option.splits if_splits)

lemma quiet_SendRequest [quiet_dests]: "SendRequest L now party h f wb = Ret wb' \<Longrightarrow> quiet wb wb'"
  by (auto simp: SendRequest_def Let_def elim!: bindE split: option.splits dest!: quiet_sendToNeighbors)

lemma quiet_SendFulfillment [quiet_dests]: "SendFulfillment L now party r b wb = Ret wb' \<Longrightarrow> quiet wb wb'"
  by (auto simp: SendFulfillment_def Let_def elim!: bindE split: option.splits dest!: quiet_send_sealed)

lemma quiet_SendRequests [quiet_dests]:
  assumes "SendRequests L now party h pack wb = Ret (pack', wb')"
  shows "quiet wb wb'"
proof -
  obtain st where "ofold (\<lambda>p (complete, wb). do {
         file \<leftarrow> deref (wb_Files wb) p;
         full \<leftarrow> isFullCoverage (pf_Size file) (pf_Coverage file);
         if \<not> full
         then do {
           wb \<leftarrow> SendRequest L now party h file wb;
           Ret (False, wb) }
         else Ret (complete, wb) }) (pk_Files pack) (True, wb) = Ret st" "wb' = snd st"
    using assms by (auto simp: SendRequests_def elim!: bindE)
  from quiet_ofold_snd [OF this(1)] this(2) show ?thesis
    by (fastforce elim!: bindE dest!: quiet_SendRequest split: if_splits prod.splits)
qed

section \<open>Party handlers\<close>

lemma party_message_Inl [quiet_dests]: "party_message L c decode p q bp pid dat wb = Ret (Inl wb') \<Longrightarrow> quiet wb wb'"
  by (auto simp: party_message_def elim!: bindE split: option.splits sum.splits)

lemma ProcessDisconnect_calm:
  assumes "ProcessDisconnect L now env party wb = Ret (party', wb')"
  shows "quiet wb wb'" "pl_Id party' = pl_Id party" "pl_SeenChats party' = pl_SeenChats party"
  using assms by (auto simp: ProcessDisconnect_def Let_def elim!: bindE split: sum.splits if_splits
      dest!: quiet_dests)

lemma ProcessAnnounce_calm:
  assumes "ProcessAnnounce L now env party wb = Ret (party', wb')"
  shows "quiet wb wb'" "pl_Id party' = pl_Id party" "pl_SeenChats party' = pl_SeenChats party"
  using assms by (auto simp: ProcessAnnounce_def Let_def elim!: bindE split: sum.splits if_splits
      dest!: quiet_dests)

lemma alloc_files_calm: "alloc_files fs wb = (ps, wb') \<Longrightarrow> calm wb wb'"
  by (induction fs wb arbitrary: ps wb' rule: alloc_files.induct)
    (auto simp: Let_def calm_def split: prod.splits)

lemma ProcessAdvertisement_calm:
  assumes "ProcessAdvertisement L now env party wb = Ret (party', wb')"
  shows "calm wb wb'" "pl_Id party' = pl_Id party" "pl_SeenChats party' = pl_SeenChats party"
  using assms unfolding ProcessAdvertisement_def Let_def
  by (auto elim!: bindE split: sum.splits if_splits prod.splits option.splits
      dest!: party_message_Inl quiet_sendToNeighbors quiet_calm alloc_files_calm) (blast intro: calm_trans)+

lemma ProcessRequest_calm:
  assumes "ProcessRequest L now env party wb = Ret wb'"
  shows "calm wb wb'"
  using assms unfolding ProcessRequest_def Let_def
  by (auto elim!: bindE split: sum.splits if_splits
      dest!: party_message_Inl quiet_sendToNeighbors quiet_calm)

lemma ProcessFulfillment_calm:
  assumes "ProcessFulfillment L env party wb = Ret wb'"
  shows "calm wb wb'"
  using assms unfolding ProcessFulfillment_def Let_def
  by (auto elim!: bindE split: sum.splits if_splits option.splits
      dest!: party_message_Inl quiet_calm)

end
