(* ===== verification/Ring.thy ===== *)
theory Ring
  imports PartyFacts
begin

text \<open>
  The ring of a party (\<open>white-box/party.go\<close>, \<open>modFloor\<close> and \<open>getNeighbors\<close>): each member passes messages
  to its predecessor and its two successors in the sorted list of ids, so a message reaches everybody when
  the members agree on the list.
\<close>

section \<open>Indices around a ring\<close>

lemma go_rem_bounds:
  assumes "0 < m"
  shows "- m < go_rem i m" "go_rem i m < m" "go_rem i m mod m = i mod m"
proof -
  have b: "0 \<le> \<bar>i\<bar> mod m" "\<bar>i\<bar> mod m < m" using assms by simp_all
  show "- m < go_rem i m" "go_rem i m < m"
    using b assms by (auto simp: go_rem_def sgn_if simp del: pos_mod_bound pos_mod_sign)
  show "go_rem i m mod m = i mod m"
    using assms by (auto simp: go_rem_def sgn_if mod_minus_eq)
qed

lemma modFloor_mod:
  assumes "0 < m"
  shows "modFloor i m = i mod m"
proof -
  have "0 < go_rem i m + m" using go_rem_bounds(1) [OF assms, of i] by simp
  then have "modFloor i m = (go_rem i m + m) mod m"
    using assms by (simp add: modFloor_def go_rem_def [of "go_rem i m + m"])
  with go_rem_bounds(3) [OF assms, of i] show ?thesis by simp
qed

lemma find_index_Some: "distinct xs \<Longrightarrow> i < length xs \<Longrightarrow> find_index (xs ! i) xs = Some i"
  by (induction xs arbitrary: i) (auto simp: nth_Cons split: nat.splits)

lemma find_index_None: "x \<notin> set xs \<Longrightarrow> find_index x xs = None"
  by (induction xs) auto

lemma map_put_keys: "set (map_keys (map_put k v m)) = insert k (set (map_keys m))"
  by (rule gm.range_keys_put)

text \<open>The neighbours of the member at place \<open>i\<close> of a sorted list of members.\<close>

definition ring_neighbors :: "string list \<Rightarrow> nat \<Rightarrow> string set" where
  "ring_neighbors ids i = (let n = int (length ids) in
     (\<lambda>d. ids ! nat ((int i + d) mod n)) ` {-1, 1, 2})"

definition agreed :: "lib \<Rightarrow> (string \<times> int) list \<Rightarrow> bool" where
  "agreed L m \<longleftrightarrow> distinct (map_keys m) \<and> mset (l_keys L (map_keys m)) = mset (map_keys m)"

lemma getNeighbors_ring:
  assumes ml: "pl_MinList party = \<lparr>ml_Map = Some m, ml_Mutex = True\<rparr>" and ag: "agreed L m"
    and self: "Peer_Id (wb_PeerSelf wb) = Ret selfId" and i: "i < length m" "sort (map_keys m) ! i = selfId"
  shows "\<exists>ns. getNeighbors L party wb = Ret (ns, wb) \<and>
    set (map_keys ns) = ring_neighbors (sort (map_keys m)) i"
proof -
  let ?ids = "sort (map_keys m)"
  have srt: "sort (l_keys L (map_keys m)) = ?ids"
    using ag by (intro properties_for_sort) (simp_all add: agreed_def)
  have n: "length ?ids = length m" "0 < int (length ?ids)" using i(1) by auto
  have idx: "find_index selfId ?ids = Some i"
    using find_index_Some [of ?ids i] ag i by (simp add: agreed_def)
  have mm: "modFloor (int i - 1) (int (length ?ids)) = (int i + - 1) mod int (length ?ids)"
      "modFloor (int i + 1) (int (length ?ids)) = (int i + 1) mod int (length ?ids)"
      "modFloor (int i + 2) (int (length ?ids)) = (int i + 2) mod int (length ?ids)"
    using modFloor_mod [OF n(2)] by simp_all
  show ?thesis
    unfolding getNeighbors_def MinList_Len_def minlist_ids_def ml LockingMinList.simps if_True option.case
      bind.bind_lunit srt self idx Let_def mm
    by (intro exI conjI, rule refl) (auto simp: map_put_keys ring_neighbors_def Let_def)
qed

text \<open>
  The neighbours of a member. With itself in the member list, a node's neighbours are the member before
  it and the two members after it in the sorted list of ids, around the end of the list; the three can
  coincide in a party of one or two. A node that is not in the list has none and reports it.
\<close>

theorem neighbors_spec:
  assumes "pl_MinList party = \<lparr>ml_Map = Some m, ml_Mutex = True\<rparr>" and "distinct (map_keys m)"
    and "mset (l_keys L (map_keys m)) = mset (map_keys m)" and "Peer_Id (wb_PeerSelf wb) = Ret selfId"
  defines "ids \<equiv> sort (map_keys m)"
  shows "(\<forall>i < length m. ids ! i = selfId \<longrightarrow> (\<exists>ns. getNeighbors L party wb = Ret (ns, wb) \<and>
      set (map_keys ns) = {ids ! nat ((int i - 1) mod int (length m)), ids ! nat ((int i + 1) mod int (length m)),
        ids ! nat ((int i + 2) mod int (length m))})) \<and>
    (selfId \<notin> set (map_keys m) \<longrightarrow>
      getNeighbors L party wb = Ret ([], setStatus ''error could not find self in min list'' wb))"
proof (intro conjI allI impI)
  fix i assume i: "i < length m" "ids ! i = selfId"
  have ag: "agreed L m" using assms(2,3) by (simp add: agreed_def)
  from getNeighbors_ring [OF assms(1) ag assms(4) i(1) i(2) [unfolded ids_def]]
  show "\<exists>ns. getNeighbors L party wb = Ret (ns, wb) \<and> set (map_keys ns) = {ids ! nat ((int i - 1) mod int (length m)),
      ids ! nat ((int i + 1) mod int (length m)), ids ! nat ((int i + 2) mod int (length m))}"
    by (simp add: ring_neighbors_def ids_def Let_def)
next
  assume "selfId \<notin> set (map_keys m)"
  moreover have "set (l_keys L (map_keys m)) = set (map_keys m)" using assms(3) by (rule mset_eq_setD)
  ultimately have "find_index selfId (sort (l_keys L (map_keys m))) = None" by (simp add: find_index_None)
  then show "getNeighbors L party wb = Ret ([], setStatus ''error could not find self in min list'' wb)"
    by (simp add: getNeighbors_def MinList_Len_def minlist_ids_def assms(1,4))
qed

section \<open>A party agrees and hears everything\<close>

text \<open>\<open>party_hop L party net a b\<close>: the node with id \<open>a\<close> passes messages of the party on to \<open>b\<close>.\<close>

definition party_hop :: "lib \<Rightarrow> PartyLine \<Rightarrow> (string \<Rightarrow> WhiteBox) \<Rightarrow> string \<Rightarrow> string \<Rightarrow> bool" where
  "party_hop L party net a b \<longleftrightarrow>
     (\<exists>ns wb'. getNeighbors L party (net a) = Ret (ns, wb') \<and> b \<in> set (map_keys ns))"

lemma ring_connected:
  assumes succ: "\<And>i. i < n \<Longrightarrow> R (xs ! i) (xs ! (Suc i mod n))" and i: "i < n" and j: "j < n"
  shows "R\<^sup>*\<^sup>* (xs ! i) (xs ! j)"
proof -
  have "R\<^sup>*\<^sup>* (xs ! i) (xs ! ((i + k) mod n))" for k
  proof (induction k)
    case 0
    show ?case using i by simp
  next
    case (Suc k)
    have "R (xs ! ((i + k) mod n)) (xs ! (Suc ((i + k) mod n) mod n))" using i by (intro succ) simp
    with Suc show ?case by (simp add: mod_Suc_eq)
  qed
  from this [of "j + n - i"] show ?thesis using i j by simp
qed

text \<open>
  C12: A party hears everything. When the members of a party have the same member list, with themselves in
  it, the links from members to their neighbours connect every member to every other: a chat, announcement
  or advertisement that each member passes on to its neighbours reaches all of them.
\<close>

theorem neighbors_connect:
  assumes "pl_MinList party = \<lparr>ml_Map = Some m, ml_Mutex = True\<rparr>" and "distinct (map_keys m)"
    and "mset (l_keys L (map_keys m)) = mset (map_keys m)"
    and "\<forall>a \<in> set (map_keys m). Peer_Id (wb_PeerSelf (net a)) = Ret a"
    and "a \<in> set (map_keys m)" and "b \<in> set (map_keys m)"
  shows "(party_hop L party net)\<^sup>*\<^sup>* a b"
proof -
  let ?ids = "sort (map_keys m)" and ?n = "length m"
  have ag: "agreed L m" using assms(2,3) by (simp add: agreed_def)
  have succ: "party_hop L party net (?ids ! i) (?ids ! (Suc i mod ?n))" if i: "i < ?n" for i
  proof -
    have "?ids ! i \<in> set ?ids" using i by (intro nth_mem) simp
    then have "?ids ! i \<in> set (map_keys m)" by (simp only: set_sort)
    then have "Peer_Id (wb_PeerSelf (net (?ids ! i))) = Ret (?ids ! i)" using assms(4) by blast
    from getNeighbors_ring [OF assms(1) ag this i refl] obtain ns where
      ns: "getNeighbors L party (net (?ids ! i)) = Ret (ns, net (?ids ! i))"
        "set (map_keys ns) = ring_neighbors ?ids i" by blast
    have "nat ((int i + 1) mod int ?n) = Suc i mod ?n" by (simp add: nat_mod_distrib nat_add_distrib)
    then have "?ids ! (Suc i mod ?n) \<in> ring_neighbors ?ids i" by (simp add: ring_neighbors_def Let_def)
    with ns show ?thesis unfolding party_hop_def by metis
  qed
  obtain i j where "i < ?n" "?ids ! i = a" "j < ?n" "?ids ! j = b"
    using assms(5,6) by (metis in_set_conv_nth length_map length_sort set_sort)
  with ring_connected [of ?n "party_hop L party net" ?ids i j, OF succ] show ?thesis by auto
qed

section \<open>Two members\<close>

definition ring_node :: "bytes \<Rightarrow> WhiteBox" where
  "ring_node pub = zero_wb\<lparr>wb_PeerSelf := some_peer pub\<rparr>"

definition ring_id :: "bytes \<Rightarrow> string" where
  "ring_id pub = hexEncode pub @ ''.'' @ hexEncode ''e''"

definition ring_party :: "bytes list \<Rightarrow> PartyLine" where
  "ring_party pubs = \<lparr>pl_MinList = \<lparr>ml_Map = Some (map (\<lambda>p. (ring_id p, 0)) pubs), ml_Mutex = True\<rparr>,
     pl_Id = ''p'', pl_SeenChats = Map.empty, pl_Packs = []\<rparr>"

lemma ring_node_id: "Peer_Id (wb_PeerSelf (ring_node pub)) = Ret (ring_id pub)"
  by (simp add: ring_node_def ring_id_def some_peer_id)

lemma ring_id_inj: "ring_id a = ring_id b \<longleftrightarrow> a = b"
  by (simp add: ring_id_def id_string_eq hexEncode_inj)

theorem neighbors_spec_witness:
  "\<forall>L. \<exists>ns. getNeighbors (L\<lparr>l_keys := \<lambda>ks. ks\<rparr>) (ring_party [''k'']) (ring_node ''k'') = Ret (ns, ring_node ''k'') \<and>
    set (map_keys ns) = {ring_id ''k''}"
proof
  fix L :: lib
  show "\<exists>ns. getNeighbors (L\<lparr>l_keys := \<lambda>ks. ks\<rparr>) (ring_party [''k'']) (ring_node ''k'') = Ret (ns, ring_node ''k'') \<and>
      set (map_keys ns) = {ring_id ''k''}"
    using neighbors_spec [of "ring_party [''k'']" "[(ring_id ''k'', 0)]" "L\<lparr>l_keys := \<lambda>ks. ks\<rparr>" "ring_node ''k''" "ring_id ''k''"]
    by (simp add: ring_party_def ring_node_id)
qed

theorem neighbors_connect_witness:
  "\<forall>L. \<exists>net. (party_hop (L\<lparr>l_keys := \<lambda>ks. ks\<rparr>) (ring_party [''k'', ''q'']) net)\<^sup>*\<^sup>* (ring_id ''k'') (ring_id ''q'')"
proof
  fix L :: lib
  let ?net = "\<lambda>i. ring_node (if i = ring_id ''k'' then ''k'' else ''q'')"
  have "(party_hop (L\<lparr>l_keys := \<lambda>ks. ks\<rparr>) (ring_party [''k'', ''q'']) ?net)\<^sup>*\<^sup>* (ring_id ''k'') (ring_id ''q'')"
    by (rule neighbors_connect [of _ "[(ring_id ''k'', 0), (ring_id ''q'', 0)]"])
      (simp_all add: ring_party_def ring_node_id ring_id_inj)
  then show "\<exists>net. (party_hop (L\<lparr>l_keys := \<lambda>ks. ks\<rparr>) (ring_party [''k'', ''q'']) net)\<^sup>*\<^sup>* (ring_id ''k'') (ring_id ''q'')"
    by blast
qed

end
