(* ===== verification/Joining.thy ===== *)
theory Joining
  imports TableSpec Ring
begin

text \<open>
  Two nodes that meet: the exchange of messages by which a node joins the network (\<open>SendBootstrap\<close>,
  \<open>processBootstrap\<close>, \<open>processVerify\<close>) and by which a peer joins a party (\<open>SendInvite\<close>, \<open>processInvite\<close>,
  \<open>AcceptInvite\<close>, \<open>ProcessAnnounce\<close>), from the operation of one user to the states of both nodes. A datagram
  that one node writes to the address of the other is handed to the other's \<open>processMessage\<close>.

  What the exchange relies on of JSON, of signatures and of sealed boxes is stated of the messages of the
  exchange alone: \<open>mails\<close>, \<open>tells\<close>, \<open>signs\<close>, \<open>opens\<close>.
\<close>

section \<open>What the exchange relies on\<close>

definition self_key :: "WhiteBox \<Rightarrow> nat" where
  "self_key wb = SetBytes (pe_SignPub (wb_PeerSelf wb))"

text \<open>A signature of the node verifies, and the message follows it.\<close>

definition signs :: "lib \<Rightarrow> WhiteBox \<Rightarrow> bool" where
  "signs L wb \<longleftrightarrow> (\<forall>m. l_verify L (signed L m wb) (pe_SignPub (wb_PeerSelf wb)) \<and>
     l_sigSize L \<le> length (signed L m wb) \<and> drop (l_sigSize L) (signed L m wb) = m)"

text \<open>The line \<open>j\<close> is the JSON of the envelope.\<close>

definition mails :: "lib \<Rightarrow> Envelope \<Rightarrow> string \<Rightarrow> bool" where
  "mails L env j \<longleftrightarrow> l_ofEnvelope L env = Some j \<and> l_toEnvelope L (line j) = Some env"

text \<open>The line \<open>j\<close> tells \<open>to\<close> who the node is at time \<open>t\<close>, as a message of type \<open>typ\<close>.\<close>

definition tells :: "lib \<Rightarrow> string \<Rightarrow> int \<Rightarrow> WhiteBox \<Rightarrow> string \<Rightarrow> string \<Rightarrow> string \<Rightarrow> bool" where
  "tells L typ t wb from to j \<longleftrightarrow> (let m = \<lparr>tp_Peer = wb_PeerSelf wb, tp_Time = t\<rparr> in
     \<exists>k. l_ofTimePeer L m = Some k \<and> l_toTimePeer L k = Some m \<and>
       mails L ((mk_env typ from to)\<lparr>env_Data := signed L k wb\<rparr>) j)"

text \<open>A node with id \<open>i\<close> that can be reached at \<open>addr\<close>.\<close>

definition participant :: "lib \<Rightarrow> string \<Rightarrow> string \<Rightarrow> WhiteBox \<Rightarrow> bool" where
  "participant L addr i wb \<longleftrightarrow> wf_wb (self_key wb) wb \<and> Peer_Id (wb_PeerSelf wb) = Ret i \<and>
     (\<exists>enc. pe_EncPub (wb_PeerSelf wb) = Some enc \<and> length enc = 32) \<and>
     pe_Address (wb_PeerSelf wb) = addr \<and> pe_Conn (wb_PeerSelf wb) = None \<and> l_dial L addr \<and> signs L wb"

text \<open>The peer that another node makes of it.\<close>

definition peer_at :: "WhiteBox \<Rightarrow> Peer" where
  "peer_at wb = (wb_PeerSelf wb)\<lparr>pe_Conn := Some (pe_Address (wb_PeerSelf wb))\<rparr>"

lemma participant_id:
  assumes "participant L addr i wb"
  shows "IdToMin (l_spare L) i = Ret (Inr (Peer_Min (wb_PeerSelf wb)))"
  using assms IdToMin_MinPeer_Id by (auto simp: participant_def Peer_Id_eq_Min) (simp add: Peer_Min_def)

lemma peer_at_simps [simp]: "pe_SignPub (peer_at wb) = pe_SignPub (wb_PeerSelf wb)"
    "pe_Address (peer_at wb) = pe_Address (wb_PeerSelf wb)" "pe_Conn (peer_at wb) = Some (pe_Address (wb_PeerSelf wb))"
    "Peer_Id (peer_at wb) = Peer_Id (wb_PeerSelf wb)"
  by (simp_all add: peer_at_def Peer_Id_def split: option.split)

lemma verified:
  assumes "participant L addr i wb"
  shows "verifyEnvelope L ((mk_env typ i to)\<lparr>env_Data := signed L k wb\<rparr>) caller = Ret (Inr k)"
  using assms participant_id [OF assms]
  by (simp add: verifyEnvelope_def mk_env_def participant_def signs_def Peer_Min_def not_less)

section \<open>Adding a peer that is not known to be away\<close>

text \<open>
  The cache of a node lets a peer with id \<open>i\<close> in at time \<open>t\<close>: it did not record a disconnection after a
  contact at \<open>t\<close> or later.
\<close>

definition welcomes :: "WhiteBox \<Rightarrow> string \<Rightarrow> int \<Rightarrow> bool" where
  "welcomes wb i t \<longleftrightarrow> (\<forall>c. wb_PeerCache wb i = Some c \<longrightarrow> ca_Added c \<longrightarrow> ca_Disconnected c \<longrightarrow> ca_Time c < t)"

lemma addPeer_out: "addPeer now peer t wb = Ret wb' \<Longrightarrow> set (wb_out wb) \<subseteq> set (wb_out wb') \<and>
    wb_PeerSelf wb' = wb_PeerSelf wb \<and> wb_Self wb' = wb_Self wb"
  by (auto simp: addPeer_def Let_def chatStatus_def elim!: bindE split: if_splits)

definition bag_with :: "WhiteBox \<Rightarrow> Peer \<Rightarrow> int \<Rightarrow> (bytes \<times> Peer option \<times> int) multiset" where
  "bag_with wb peer now = (if is_connected wb (Some peer) then bag_of wb
     else add_mset (pe_SignPub peer, Some peer, now) (bag_of wb))"

lemma add_if_needed:
  assumes wf: "wf_wb s wb" and key: "Peer_Id peer = Ret i" and conn: "pe_Conn peer \<noteq> None" and w: "welcomes wb i t"
  shows "\<exists>wb'. (if should_add i t wb then addPeer now peer t wb else Ret wb) = Ret wb' \<and> wf_wb s wb' \<and>
    connected wb' i \<and> bag_of wb' = bag_with wb peer now \<and> set (wb_out wb) \<subseteq> set (wb_out wb') \<and>
    wb_PeerSelf wb' = wb_PeerSelf wb \<and> wb_Self wb' = wb_Self wb"
proof (cases "should_add i t wb")
  case True
  have "peer_ok (Some peer)" using key conn by (simp add: peer_ok_def)
  from addPeer_bag [OF wf this, of now t] obtain wb' where r: "addPeer now peer t wb = Ret wb'" "wf_wb s wb'"
      "is_connected wb' (Some peer)" "bag_of wb' = bag_with wb peer now" unfolding bag_with_def by blast
  with True addPeer_out [OF r(1)] key show ?thesis by (simp add: is_connected_def)
next
  case False
  with w have "connected wb i"
    by (auto simp: should_add_def cache_get_def connected_def welcomes_def Let_def split: option.splits)
  with False wf key show ?thesis by (simp add: bag_with_def is_connected_def)
qed

section \<open>Bootstrapping\<close>

lemma SendBootstrap_run:
  assumes "Peer_Id (wb_PeerSelf wb) = Ret i" and "tells L ''bootstrap'' t wb i to j" and "l_dial L addr"
  shows "SendBootstrap L t addr to wb = Ret (setStatus ''bs sent'' (emit (WriteOut addr (line j)) wb))"
  using assms by (auto simp: SendBootstrap_def tells_def mails_def Let_def conn_write_def line_def)

lemma sendVerify_run:
  assumes "Peer_Id (wb_PeerSelf wb) = Ret i" and "tells L ''verifybs'' t wb i to j" and "Peer_Id peer = Ret to"
    and "pe_Conn peer = Some addr"
  shows "sendVerify L t peer wb = Ret (setStatus ''verify sent'' (emit (WriteOut addr (line j)) wb))"
  using assms by (auto simp: sendVerify_def tells_def mails_def Let_def conn_write_def line_def)

lemma sends_run:
  assumes "Peer_Id (wb_PeerSelf wb) = Ret i" and "Peer_Id peer = Ret p" and "pe_Conn peer = Some addr"
  shows "\<exists>wb'. sendAnnounce L now peer wb = Ret wb'" "\<exists>wb'. sendSuggestionRequest L now peer wb = Ret wb'"
  using assms by (auto simp: sendAnnounce_def sendSuggestionRequest_def conn_write_def Let_def split: option.splits)

text \<open>A node that receives such a message: the handler of its type gets to see the sender.\<close>

lemma tells_processMessage:
  assumes "participant L addr i wb0" and "tells L typ t wb0 i to j"
  obtains k env where "l_toTimePeer L k = Some \<lparr>tp_Peer = wb_PeerSelf wb0, tp_Time = t\<rparr>"
    "l_toEnvelope L (line j) = Some env" "env_Type env = typ" "env_From env = i" "env_Time env = 0"
    "\<And>caller. verifyEnvelope L env caller = Ret (Inr k)"
proof -
  obtain k where k: "l_toTimePeer L k = Some \<lparr>tp_Peer = wb_PeerSelf wb0, tp_Time = t\<rparr>"
    "l_toEnvelope L (line j) = Some ((mk_env typ i to)\<lparr>env_Data := signed L k wb0\<rparr>)"
    using assms(2) by (auto simp: tells_def mails_def Let_def)
  show ?thesis
    by (rule that [OF k]) (use verified [OF assms(1), of k "typ" to] in \<open>simp_all add: mk_env_def\<close>)
qed

lemma processMessage_bootstrap:
  assumes A: "participant L a ia A" and B: "wf_wb s B" "Peer_Id (wb_PeerSelf B) = Ret ib"
    and j0: "tells L ''bootstrap'' t0 A ia to j0" and j1: "tells L ''verifybs'' t1 B ib ia j1"
    and w: "welcomes B ia t0"
  shows "\<exists>B1. processMessage L t1 (line j0) B = Ret B1 \<and> wf_wb s B1 \<and> connected B1 ia \<and>
    bag_of B1 = bag_with B (peer_at A) t1 \<and> WriteOut a (line j1) \<in> set (wb_out B1) \<and>
    wb_PeerSelf B1 = wb_PeerSelf B \<and> wb_Self B1 = wb_Self B"
proof -
  from A have ida: "Peer_Id (peer_at A) = Ret ia" and addr: "pe_Address (wb_PeerSelf A) = a" and dial: "l_dial L a"
    by (simp_all add: participant_def)
  obtain k env where k: "l_toTimePeer L k = Some \<lparr>tp_Peer = wb_PeerSelf A, tp_Time = t0\<rparr>"
    "l_toEnvelope L (line j0) = Some env" "env_Type env = ''bootstrap''" "env_From env = ia" "env_Time env = 0"
    "\<And>caller. verifyEnvelope L env caller = Ret (Inr k)" using tells_processMessage [OF A j0] by blast
  let ?B = "setStatus ''verify sent'' (emit (WriteOut a (line j1)) B)"
  have sv: "sendVerify L t1 (peer_at A) B = Ret ?B" by (rule sendVerify_run [OF B(2) j1 ida]) (simp add: addr)
  have "wf_wb s ?B" "pe_Conn (peer_at A) \<noteq> None" "welcomes ?B ia t0" using B w by (simp_all add: welcomes_def)
  from add_if_needed [OF this(1) ida this(2,3), of t1] obtain B1 where
    r: "(if should_add ia t0 ?B then addPeer t1 (peer_at A) t0 ?B else Ret ?B) = Ret B1" "wf_wb s B1" "connected B1 ia"
      "bag_of B1 = bag_with ?B (peer_at A) t1" "set (wb_out ?B) \<subseteq> set (wb_out B1)" "wb_PeerSelf B1 = wb_PeerSelf ?B"
      "wb_Self B1 = wb_Self ?B" by blast
  have "processMessage L t1 (line j0) B = Ret B1"
    using k r(1) sv ida ida [unfolded peer_at_simps] addr dial
    by (simp add: processMessage_def processBootstrap_def with_message_def Let_def peer_at_def cong: if_cong)
  moreover have "bag_with ?B (peer_at A) t1 = bag_with B (peer_at A) t1"
    by (auto simp: bag_with_def is_connected_def connected_def bag_of_def all_entries_def)
  moreover have "WriteOut a (line j1) \<in> set (wb_out ?B)" by (simp add: setStatus_def)
  ultimately show ?thesis using r by auto
qed

lemma processMessage_verify:
  assumes B: "participant L b ib B" and A: "wf_wb s A" "Peer_Id (wb_PeerSelf A) = Ret ia"
    and j1: "tells L ''verifybs'' t1 B ib ia j1" and w: "welcomes A ib t1"
  shows "\<exists>A2. processMessage L t2 (line j1) A = Ret A2 \<and> wf_wb s A2 \<and> connected A2 ib \<and>
    bag_of A2 = bag_with A (peer_at B) t2 \<and> wb_PeerSelf A2 = wb_PeerSelf A \<and> wb_Self A2 = wb_Self A"
proof -
  from B have idb: "Peer_Id (peer_at B) = Ret ib" and addr: "pe_Address (wb_PeerSelf B) = b" and dial: "l_dial L b"
    by (simp_all add: participant_def)
  obtain k env where k: "l_toTimePeer L k = Some \<lparr>tp_Peer = wb_PeerSelf B, tp_Time = t1\<rparr>"
    "l_toEnvelope L (line j1) = Some env" "env_Type env = ''verifybs''" "env_From env = ib" "env_Time env = 0"
    "\<And>caller. verifyEnvelope L env caller = Ret (Inr k)" using tells_processMessage [OF B j1] by blast
  from add_if_needed [OF A(1) idb _ w, of t2] obtain A1 where
    r: "(if should_add ib t1 A then addPeer t2 (peer_at B) t1 A else Ret A) = Ret A1" "wf_wb s A1" "connected A1 ib"
      "bag_of A1 = bag_with A (peer_at B) t2" "wb_PeerSelf A1 = wb_PeerSelf A" "wb_Self A1 = wb_Self A" by auto
  let ?A1 = "setStatus ''verified'' A1"
  have self: "Peer_Id (wb_PeerSelf ?A1) = Ret ia" by (simp add: r A)
  obtain A2 where an: "sendAnnounce L t2 (peer_at B) ?A1 = Ret A2"
    using sends_run(1) [OF self idb] by fastforce
  from quiet_sendAnnounce [OF an] have q1: "quiet ?A1 A2" .
  then have self2: "Peer_Id (wb_PeerSelf A2) = Ret ia" using self by (simp add: quiet_fields)
  obtain A3 where sr: "sendSuggestionRequest L t2 (peer_at B) A2 = Ret A3"
    using sends_run(2) [OF self2 idb] by fastforce
  have q: "quiet ?A1 A3" using q1 quiet_sendSuggestionRequest [OF sr] by (rule quiet_trans)
  have "processMessage L t2 (line j1) A = Ret A3"
    using k r(1) an sr idb idb [unfolded peer_at_simps] addr dial
    by (simp add: processMessage_def processVerify_def with_message_def Let_def peer_at_def cong: if_cong)
  moreover have "wf_wb s A3" using quiet_wf [OF q, of s] r(2) by simp
  moreover have "connected A3 ib" "bag_of A3 = bag_of A1" "wb_PeerSelf A3 = wb_PeerSelf A1" "wb_Self A3 = wb_Self A1"
    using q r(3) by (simp_all add: connected_def bag_of_def all_entries_def quiet_fields)
  ultimately show ?thesis using r by auto
qed

text \<open>
  C8: Bootstrapping connects two nodes. When a user bootstraps node \<open>A\<close> to the address of node \<open>B\<close>, the
  datagram it writes makes \<open>B\<close> write one back to the address of \<open>A\<close>, and once that is received each node has
  the other in its routing table with the other's address, is connected to it, and its table is well-formed;
  other peers stay as they were. It suffices that the two messages survive JSON and signing, that both
  addresses can be dialled, and that neither node saw the other leave after the time of the message.
\<close>

theorem bootstrap_connects:
  assumes "participant L a ia A" and "participant L b ib B"
    and "tells L ''bootstrap'' t0 A ia to j0" and "tells L ''verifybs'' t1 B ib ia j1"
    and "welcomes B ia t0" and "welcomes A ib t1"
  shows "\<exists>A1 B1 A2. SendBootstrap L t0 b to A = Ret A1 \<and> WriteOut b (line j0) \<in> set (wb_out A1) \<and>
    processMessage L t1 (line j0) B = Ret B1 \<and> WriteOut a (line j1) \<in> set (wb_out B1) \<and>
    processMessage L t2 (line j1) A1 = Ret A2 \<and>
    participant L a ia A2 \<and> connected A2 ib \<and> bag_of A2 = bag_with A (peer_at B) t2 \<and>
    participant L b ib B1 \<and> connected B1 ia \<and> bag_of B1 = bag_with B (peer_at A) t1"
proof -
  from assms(1,2) have wf: "wf_wb (self_key A) A" "wf_wb (self_key B) B"
    and ids: "Peer_Id (wb_PeerSelf A) = Ret ia" "Peer_Id (wb_PeerSelf B) = Ret ib" and dial: "l_dial L b"
    by (simp_all add: participant_def)
  let ?A1 = "setStatus ''bs sent'' (emit (WriteOut b (line j0)) A)"
  have "welcomes ?A1 ib t1" "wf_wb (self_key A) ?A1" "Peer_Id (wb_PeerSelf ?A1) = Ret ia"
    using assms(6) wf ids by (simp_all add: welcomes_def)
  from processMessage_verify [OF assms(2) this(2,3) assms(4) this(1), of t2] obtain A2 where
    A2: "processMessage L t2 (line j1) ?A1 = Ret A2" "wf_wb (self_key A) A2" "connected A2 ib"
      "bag_of A2 = bag_with ?A1 (peer_at B) t2" "wb_PeerSelf A2 = wb_PeerSelf ?A1" "wb_Self A2 = wb_Self ?A1" by blast
  from processMessage_bootstrap [OF assms(1) wf(2) ids(2) assms(3-5)] obtain B1 where
    B1: "processMessage L t1 (line j0) B = Ret B1" "wf_wb (self_key B) B1" "connected B1 ia"
      "bag_of B1 = bag_with B (peer_at A) t1" "WriteOut a (line j1) \<in> set (wb_out B1)"
      "wb_PeerSelf B1 = wb_PeerSelf B" "wb_Self B1 = wb_Self B" by blast
  have "bag_with ?A1 (peer_at B) t2 = bag_with A (peer_at B) t2"
    by (auto simp: bag_with_def is_connected_def connected_def bag_of_def all_entries_def)
  moreover have "participant L a ia A2" "participant L b ib B1"
    using assms(1,2) A2 B1 by (simp_all add: participant_def self_key_def signs_def signed_def)
  moreover have "WriteOut b (line j0) \<in> set (wb_out ?A1)" by (simp add: setStatus_def)
  ultimately show ?thesis
    using SendBootstrap_run [OF ids(1) assms(3) dial] A2 B1
    by (intro exI [of _ ?A1] exI [of _ B1] exI [of _ A2]) simp
qed

section \<open>Writing to a peer of the table\<close>

text \<open>Every peer of the table with the key \<open>pub\<close> is at \<open>addr\<close>, and there is one.\<close>

definition directs :: "WhiteBox \<Rightarrow> bytes \<Rightarrow> string \<Rightarrow> bool" where
  "directs wb pub addr \<longleftrightarrow> (\<exists>e \<in> set (all_entries wb). SetBytes (pn_Id e) = SetBytes pub) \<and>
     (\<forall>e \<in> set (all_entries wb). SetBytes (pn_Id e) = SetBytes pub \<longrightarrow> entry_addr e = addr)"

lemma outs_simps [simp]:
  "self_key (wb\<lparr>wb_out := out\<rparr>) = self_key wb" "wf_wb s (wb\<lparr>wb_out := out\<rparr>) \<longleftrightarrow> wf_wb s wb"
  "directs (wb\<lparr>wb_out := out\<rparr>) pub addr \<longleftrightarrow> directs wb pub addr"
  "self_key (setStatus m wb) = self_key wb" "directs (setStatus m wb) pub addr \<longleftrightarrow> directs wb pub addr"
  by (simp_all add: self_key_def directs_def all_entries_def wf_wb_def)

lemma route_total:
  assumes "wf_wb (self_key wb) wb" and "IdToMin (l_spare L) (env_To env) = Ret (Inr minp)"
  shows "\<exists>out. route L now env wb = Ret (wb\<lparr>wb_out := wb_out wb @ out\<rparr>)"
proof (cases "l_ofEnvelope L (timed now env)")
  case None
  then show ?thesis by (intro exI [of _ "[]"]) (simp add: route_def timed_def Let_def)
next
  case (Some j)
  from route_run [OF assms(1) _ Some assms(2)] show ?thesis by (auto simp: self_key_def)
qed

lemma route_direct:
  assumes wf: "wf_wb (self_key wb) wb" and i: "IdToMin (l_spare L) (env_To env) = Ret (Inr minp)"
    and ne: "self_key wb \<noteq> SetBytes (mi_SignPub minp)" and d: "directs wb (mi_SignPub minp) addr"
    and j: "l_ofEnvelope L (timed now env) = Some j"
  shows "\<exists>out. route L now env wb = Ret (wb\<lparr>wb_out := wb_out wb @ out\<rparr>) \<and> WriteOut addr (line j) \<in> set out"
proof -
  let ?s = "self_key wb" and ?t = "SetBytes (mi_SignPub minp)"
  let ?f = "\<lambda>e. SetBytes (pn_Id e) XOR ?t"
  let ?b = "wb_PeerTable wb ! bucket_of (?s XOR ?t)"
  obtain e where e: "e \<in> set (all_entries wb)" "SetBytes (pn_Id e) = ?t" using d by (auto simp: directs_def)
  then obtain b where "b \<in> set (wb_PeerTable wb)" "e \<in> set b" by (auto simp: all_entries_def)
  then obtain k where k: "k < 256" "e \<in> set (wb_PeerTable wb ! k)"
    using wf by (auto simp: in_set_conv_nth [of b] wf_wb_def)
  then have "entry_ok ?s (wb_PeerCache wb) k e" using wf by (simp add: wf_wb_def bucket_ok_def)
  then have "bucket_of (?s XOR ?t) = k" using e(2) by (simp add: entry_ok_def)
  with k have eb: "e \<in> set (sort_key ?f ?b)" by simp
  then obtain h es where h: "sort_key ?f ?b = h # es" by (cases "sort_key ?f ?b") auto
  have "sorted (map ?f (h # es))" using sorted_sort_key [of ?f ?b] by (simp only: h)
  then have "?f h \<le> ?f e" using eb h by auto
  then have h0: "?f h = 0" using e(2) by simp
  then have ht: "SetBytes (pn_Id h) = ?t" by (simp add: xor_eq_0_nat)
  have "h \<in> set ?b" using h by (metis list.set_intros(1) set_sort)
  moreover have "?b \<in> set (wb_PeerTable wb)" using wf bucket_of_less by (intro nth_mem) (simp add: wf_wb_def)
  ultimately have "h \<in> set (all_entries wb)" by (auto simp: all_entries_def)
  with d ht have "entry_addr h = addr" by (auto simp: directs_def)
  moreover have "h \<in> set (next_entries ?s ?t wb)"
    using h0 ne by (simp add: next_entries_def h numeral_3_eq_3 xor_eq_0_nat)
  ultimately show ?thesis
    using route_run [OF wf _ j i] by (intro exI conjI) (auto simp: self_key_def)
qed

text \<open>Sealed party messages to a list of ids: all are attempted, and those with a known address are written.\<close>

definition sealed_env :: "lib \<Rightarrow> int \<Rightarrow> Envelope \<Rightarrow> string \<Rightarrow> string \<Rightarrow> MinPeer \<Rightarrow> WhiteBox \<Rightarrow> Envelope" where
  "sealed_env L now env q i minp wb = timed now (env\<lparr>env_Data := l_seal L q (mi_EncPub minp) (se_EncPrv (wb_Self wb)), env_To := i\<rparr>)"

lemma send_sealed_all:
  assumes "wf_wb (self_key wb) wb" and "\<forall>i \<in> set ids. \<exists>m. IdToMin (l_spare L) i = Ret (Inr m)"
  shows "\<exists>out. ofold (send_sealed L now env q) ids wb = Ret (wb\<lparr>wb_out := wb_out wb @ out\<rparr>) \<and>
    (\<forall>i \<in> set ids. \<forall>m addr j. IdToMin (l_spare L) i = Ret (Inr m) \<longrightarrow> self_key wb \<noteq> SetBytes (mi_SignPub m) \<longrightarrow>
      directs wb (mi_SignPub m) addr \<longrightarrow> l_ofEnvelope L (sealed_env L now env q i m wb) = Some j \<longrightarrow>
      WriteOut addr (line j) \<in> set out)"
  using assms
proof (induction ids arbitrary: wb)
  case Nil
  show ?case by (rule exI [of _ "[]"]) simp
next
  case (Cons i ids)
  then obtain m where m: "IdToMin (l_spare L) i = Ret (Inr m)" by auto
  let ?env = "env\<lparr>env_Data := l_seal L q (mi_EncPub m) (se_EncPrv (wb_Self wb)), env_To := i\<rparr>"
  have to: "IdToMin (l_spare L) (env_To ?env) = Ret (Inr m)" using m by simp
  obtain out where out: "route L now ?env wb = Ret (wb\<lparr>wb_out := wb_out wb @ out\<rparr>)"
    using route_total [OF Cons.prems(1) to] by blast
  have w: "WriteOut addr (line j) \<in> set out" if "self_key wb \<noteq> SetBytes (mi_SignPub m)"
    "directs wb (mi_SignPub m) addr" "l_ofEnvelope L (sealed_env L now env q i m wb) = Some j" for addr j
    using route_direct [OF Cons.prems(1) to that(1,2) that(3) [unfolded sealed_env_def]] out
    by (auto dest!: arg_cong [where f = wb_out])
  let ?wb = "wb\<lparr>wb_out := wb_out wb @ out\<rparr>"
  have "wf_wb (self_key ?wb) ?wb" "\<forall>i \<in> set ids. \<exists>m. IdToMin (l_spare L) i = Ret (Inr m)" using Cons.prems by simp_all
  from Cons.IH [OF this] obtain out' where
    o: "ofold (send_sealed L now env q) ids ?wb = Ret (?wb\<lparr>wb_out := wb_out ?wb @ out'\<rparr>)"
    and w': "\<And>i' m addr j. i' \<in> set ids \<Longrightarrow> IdToMin (l_spare L) i' = Ret (Inr m) \<Longrightarrow> self_key wb \<noteq> SetBytes (mi_SignPub m) \<Longrightarrow>
      directs wb (mi_SignPub m) addr \<Longrightarrow> l_ofEnvelope L (sealed_env L now env q i' m wb) = Some j \<Longrightarrow>
      WriteOut addr (line j) \<in> set out'"
    by (auto simp: sealed_env_def)
  have step: "send_sealed L now env q i wb = Ret ?wb" by (simp add: send_sealed_def m out)
  show ?case
    using m o w w' by (intro exI [of _ "out @ out'"]) (auto simp: step)
qed

section \<open>Two new nodes\<close>

text \<open>A node with an empty table, the signing and encryption key \<open>pub\<close>, and the address \<open>addr\<close>.\<close>

definition meet_node :: "bytes \<Rightarrow> string \<Rightarrow> WhiteBox" where
  "meet_node pub addr = (empty_wb (SetBytes pub))
     \<lparr>wb_PeerSelf := \<lparr>pe_EncPub = Some pub, pe_SignPub = pub, pe_Address = addr, pe_Conn = None\<rparr>\<rparr>"

definition meet_id :: "bytes \<Rightarrow> string" where
  "meet_id pub = hexEncode pub @ ''.'' @ hexEncode pub"

definition key_a :: bytes where
  "key_a = replicate 32 CHR ''a''"

definition key_b :: bytes where
  "key_b = replicate 32 CHR ''b''"

lemma key_ab [simp]: "length key_a = 32" "length key_b = 32" "key_a \<noteq> key_b"
  by (simp_all add: key_a_def key_b_def)

lemma meet_node_simps:
  "wf_wb (SetBytes pub) (meet_node pub addr)" "Peer_Id (wb_PeerSelf (meet_node pub addr)) = Ret (meet_id pub)"
  "pe_EncPub (wb_PeerSelf (meet_node pub addr)) = Some pub" "pe_Address (wb_PeerSelf (meet_node pub addr)) = addr"
  "pe_Conn (wb_PeerSelf (meet_node pub addr)) = None" "pe_SignPub (wb_PeerSelf (meet_node pub addr)) = pub"
  "wb_PeerCache (meet_node pub addr) = Map.empty" "bag_of (meet_node pub addr) = {#}" "self_key (meet_node pub addr) = SetBytes pub"
  by (simp_all add: meet_node_def meet_id_def Peer_Id_def self_key_def bag_of_def all_entries_def empty_wb_def
      zero_wb_def wf_wb_def)

lemma meet_participant:
  assumes "length pub = 32" and "\<And>d k. l_verify L d k" and "\<And>m k. l_sign L m k = m" and "l_sigSize L = 0" and "l_dial L addr"
  shows "participant L addr (meet_id pub) (meet_node pub addr)"
  using assms by (simp add: participant_def meet_node_simps signs_def signed_def)

text \<open>A library that signs with nothing and has just the messages of one exchange.\<close>

definition meet_lib :: "lib \<Rightarrow> lib" where
  "meet_lib L = L\<lparr>l_verify := \<lambda>_ _. True, l_sign := \<lambda>m _. m, l_sigSize := 0, l_dial := \<lambda>_. True,
     l_ofTimePeer := \<lambda>m. Some (pe_Address (tp_Peer m)),
     l_toTimePeer := \<lambda>k. Some (if k = ''a'' then \<lparr>tp_Peer = wb_PeerSelf (meet_node key_a ''a''), tp_Time = 1\<rparr>
       else \<lparr>tp_Peer = wb_PeerSelf (meet_node key_b ''b''), tp_Time = 2\<rparr>),
     l_ofEnvelope := \<lambda>e. Some (env_Type e),
     l_toEnvelope := \<lambda>j. Some (if j = line ''bootstrap''
       then (mk_env ''bootstrap'' (meet_id key_a) [])\<lparr>env_Data := ''a''\<rparr>
       else (mk_env ''verifybs'' (meet_id key_b) (meet_id key_a))\<lparr>env_Data := ''b''\<rparr>)\<rparr>"

theorem bootstrap_connects_witness:
  "\<forall>L. \<exists>A2 B1. processMessage (meet_lib L) 2 (line ''bootstrap'') (meet_node key_b ''b'') = Ret B1 \<and>
    bag_of B1 = {# (key_a, Some (peer_at (meet_node key_a ''a'')), 2) #} \<and>
    bag_of A2 = {# (key_b, Some (peer_at (meet_node key_b ''b'')), 3) #} \<and> connected A2 (meet_id key_b)"
proof
  fix L :: lib
  let ?L = "meet_lib L" and ?A = "meet_node key_a ''a''" and ?B = "meet_node key_b ''b''"
  have p: "participant ?L ''a'' (meet_id key_a) ?A" "participant ?L ''b'' (meet_id key_b) ?B"
    by (rule meet_participant; simp add: meet_lib_def)+
  have "tells ?L ''bootstrap'' 1 ?A (meet_id key_a) [] ''bootstrap''"
    "tells ?L ''verifybs'' 2 ?B (meet_id key_b) (meet_id key_a) ''verifybs''"
    by (simp_all add: tells_def mails_def meet_lib_def meet_node_simps signed_def mk_env_def line_def)
  moreover have "welcomes ?B (meet_id key_a) 1" "welcomes ?A (meet_id key_b) 2" by (simp_all add: welcomes_def meet_node_simps)
  ultimately obtain A1 B1 A2 where "processMessage ?L 2 (line ''bootstrap'') ?B = Ret B1" "connected A2 (meet_id key_b)"
      "bag_of A2 = bag_with ?A (peer_at ?B) 3" "bag_of B1 = bag_with ?B (peer_at ?A) 2"
    using bootstrap_connects [OF p, of 1 "[]" "''bootstrap''" 2 "''verifybs''" 3] by blast
  moreover have "bag_with ?A (peer_at ?B) 3 = {# (key_b, Some (peer_at ?B), 3) #}"
    "bag_with ?B (peer_at ?A) 2 = {# (key_a, Some (peer_at ?A), 2) #}"
    by (simp_all add: bag_with_def is_connected_def connected_def meet_node_simps)
  ultimately show "\<exists>A2 B1. processMessage ?L 2 (line ''bootstrap'') ?B = Ret B1 \<and>
    bag_of B1 = {# (key_a, Some (peer_at ?A), 2) #} \<and> bag_of A2 = {# (key_b, Some (peer_at ?B), 3) #} \<and>
    connected A2 (meet_id key_b)" by metis
qed

end
