(* ===== verification/JoinParty.thy ===== *)
theory JoinParty
  imports Joining
begin

text \<open>
  How a peer joins a party (\<open>white-box/party.go\<close>): the invitation, its acceptance, and the announcement that
  tells the members, and the new member itself, who the new member is.
\<close>

section \<open>What the exchange relies on\<close>

text \<open>What one node seals for another, the other opens.\<close>

definition opens :: "lib \<Rightarrow> WhiteBox \<Rightarrow> WhiteBox \<Rightarrow> bool" where
  "opens L X Y \<longleftrightarrow> (\<forall>m. l_open L (l_seal L m (pe_EncPub (wb_PeerSelf Y)) (se_EncPrv (wb_Self X)))
     (pe_EncPub (wb_PeerSelf X)) (se_EncPrv (wb_Self Y)) = Some m)"

text \<open>Ranging over a map visits every key once.\<close>

definition each_once :: "lib \<Rightarrow> bool" where
  "each_once L \<longleftrightarrow> (\<forall>ks. mset (l_keys L ks) = mset ks)"

text \<open>A party as JSON carries it: without the chats seen and the packs.\<close>

definition invited :: "PartyLine \<Rightarrow> PartyLine" where
  "invited party = party\<lparr>pl_SeenChats := Map.empty, pl_Packs := []\<rparr>"

text \<open>The line \<open>j\<close> is the invitation that \<open>X\<close> seals for \<open>Y\<close> at time \<open>t\<close>.\<close>

definition invites :: "lib \<Rightarrow> int \<Rightarrow> PartyLine \<Rightarrow> WhiteBox \<Rightarrow> string \<Rightarrow> WhiteBox \<Rightarrow> string \<Rightarrow> string \<Rightarrow> bool" where
  "invites L t party X ix Y iy j \<longleftrightarrow> (\<exists>k q. l_ofParty L party = Some k \<and> l_toParty L k = Some q \<and> invited q = invited party \<and>
     mails L ((mk_env ''invite'' ix iy)\<lparr>env_Data := l_seal L k (pe_EncPub (wb_PeerSelf Y)) (se_EncPrv (wb_Self X)),
       env_Time := t\<rparr>) j)"

text \<open>The line \<open>j\<close> is the party envelope \<open>pe\<close> sealed by \<open>X\<close> for \<open>Y\<close> at time \<open>t\<close>.\<close>

definition posts :: "lib \<Rightarrow> int \<Rightarrow> PartyEnvelope \<Rightarrow> WhiteBox \<Rightarrow> string \<Rightarrow> WhiteBox \<Rightarrow> string \<Rightarrow> string \<Rightarrow> bool" where
  "posts L t pe X ix Y iy j \<longleftrightarrow> (\<exists>q. l_ofPartyEnvelope L pe = Some q \<and> l_toPartyEnvelope L q = Some pe \<and>
     mails L (sealed_env L t (mk_env ''party'' ix []) q iy (Peer_Min (wb_PeerSelf Y)) X) j)"

text \<open>The JSON \<open>k\<close> announces the member \<open>i\<close> to the party \<open>pid\<close>.\<close>

definition announces :: "lib \<Rightarrow> string \<Rightarrow> string \<Rightarrow> string \<Rightarrow> bool" where
  "announces L i pid k \<longleftrightarrow> l_ofPartyAnnounce L \<lparr>pa_PeerId = i, pa_PartyId = pid\<rparr> = Some k \<and>
     l_toPartyAnnounce L k = Some \<lparr>pa_PeerId = i, pa_PartyId = pid\<rparr>"

definition announce_env :: "string \<Rightarrow> string \<Rightarrow> bytes \<Rightarrow> PartyEnvelope" where
  "announce_env from pid dat = \<lparr>pv_Type = ''announce'', pv_From = from, pv_PartyId = pid, pv_Data = dat\<rparr>"

definition ids_ok :: "lib \<Rightarrow> string set \<Rightarrow> bool" where
  "ids_ok L I \<longleftrightarrow> (\<forall>i \<in> I. \<exists>m. IdToMin (l_spare L) i = Ret (Inr m))"

lemma each_once_set: "each_once L \<Longrightarrow> set (l_keys L ks) = set ks"
  unfolding each_once_def by (metis mset_eq_setD)

lemma invited_simps [simp]: "pl_Id (invited party) = pl_Id party" "pl_MinList (invited party) = pl_MinList party"
  by (simp_all add: invited_def)

section \<open>The invitation\<close>

lemma SendInvite_run:
  assumes A: "participant L a ia A" and B: "participant L b ib B" and ne: "self_key A \<noteq> self_key B"
    and d: "directs A (pe_SignPub (wb_PeerSelf B)) b" and ml: "pl_MinList party = \<lparr>ml_Map = Some ms, ml_Mutex = True\<rparr>"
    and len: "length ms \<le> 20" and inv: "invites L t party A ia B ib j"
  shows "\<exists>out. SendInvite L t party (Peer_Min (wb_PeerSelf B)) A =
      Ret (setStatus ''invite sent'' (A\<lparr>wb_out := wb_out A @ out\<rparr>)) \<and> WriteOut b (line j) \<in> set out"
proof -
  from A B have ids: "Peer_Id (wb_PeerSelf A) = Ret ia" "MinPeer_Id (Peer_Min (wb_PeerSelf B)) = Ret ib"
    and wf: "wf_wb (self_key A) A" by (simp_all add: participant_def Peer_Id_eq_Min)
  obtain k where k: "l_ofParty L party = Some k"
    and m: "mails L ((mk_env ''invite'' ia ib)\<lparr>env_Data := l_seal L k (pe_EncPub (wb_PeerSelf B)) (se_EncPrv (wb_Self A)), env_Time := t\<rparr>) j"
    using inv by (auto simp: invites_def)
  let ?env = "(mk_env ''invite'' ia ib)\<lparr>env_Data := l_seal L k (pe_EncPub (wb_PeerSelf B)) (se_EncPrv (wb_Self A))\<rparr>"
  have i: "IdToMin (l_spare L) (env_To ?env) = Ret (Inr (Peer_Min (wb_PeerSelf B)))"
    using participant_id [OF B] by (simp add: mk_env_def)
  have j: "l_ofEnvelope L (timed t ?env) = Some j" using m by (simp add: mails_def timed_def mk_env_def)
  have ne': "self_key A \<noteq> SetBytes (mi_SignPub (Peer_Min (wb_PeerSelf B)))" using ne by (simp add: self_key_def Peer_Min_def)
  have d': "directs A (mi_SignPub (Peer_Min (wb_PeerSelf B))) b" using d by (simp add: Peer_Min_def)
  from route_direct [OF wf i ne' d' j] obtain out where
    "route L t ?env A = Ret (A\<lparr>wb_out := wb_out A @ out\<rparr>)" "WriteOut b (line j) \<in> set out" by blast
  moreover have "mi_EncPub (Peer_Min (wb_PeerSelf B)) = pe_EncPub (wb_PeerSelf B)" by (simp add: Peer_Min_def)
  ultimately show ?thesis
    using ids k len by (intro exI [of _ out]) (simp add: SendInvite_def MinList_Len_def ml)
qed

lemma invite_received:
  assumes A: "participant L a ia A" and B: "Peer_Id (wb_PeerSelf B) = Ret ib" and op: "opens L A B"
    and inv: "invites L t party A ia B ib j" and t: "t \<noteq> 0" and v: "valid_party_id (pl_Id party)"
    and new: "map_get (wb_PendingInvites B) (pl_Id party) = None" "map_get (wb_Parties B) (pl_Id party) = None"
  shows "processMessage L now (line j) B = Ret (setStatus (''invite received for '' @ pl_Id party)
    (B\<lparr>wb_PendingInvites := map_put (pl_Id party) (invited party) (wb_PendingInvites B)\<rparr>))"
proof -
  obtain k q where k: "l_toParty L k = Some q" "invited q = invited party"
    and m: "mails L ((mk_env ''invite'' ia ib)\<lparr>env_Data := l_seal L k (pe_EncPub (wb_PeerSelf B)) (se_EncPrv (wb_Self A)), env_Time := t\<rparr>) j"
    using inv by (auto simp: invites_def)
  have q: "pl_Id q = pl_Id party" using arg_cong [OF k(2), of pl_Id] by simp
  have "l_open L (l_seal L k (pe_EncPub (wb_PeerSelf B)) (se_EncPrv (wb_Self A)))
      (mi_EncPub (Peer_Min (wb_PeerSelf A))) (se_EncPrv (wb_Self B)) = Some k"
    using op by (simp add: opens_def Peer_Min_def)
  then show ?thesis
    using m B t v new k participant_id [OF A] unfolding invited_def [symmetric]
    by (simp add: processMessage_def mails_def mk_env_def processInvite_def q Let_def invited_def)
qed

section \<open>Messages to members\<close>

text \<open>\<open>X\<close> wrote the party envelope to every known node among \<open>I\<close> that it can be sealed for.\<close>

definition reaches :: "lib \<Rightarrow> int \<Rightarrow> PartyEnvelope \<Rightarrow> WhiteBox \<Rightarrow> string \<Rightarrow> string set \<Rightarrow> action list \<Rightarrow> bool" where
  "reaches L t pe X ix I out \<longleftrightarrow> (\<forall>Z z iz j. participant L z iz Z \<longrightarrow> self_key X \<noteq> self_key Z \<longrightarrow>
     directs X (pe_SignPub (wb_PeerSelf Z)) z \<longrightarrow> iz \<in> I \<longrightarrow> posts L t pe X ix Z iz j \<longrightarrow> WriteOut z (line j) \<in> set out)"

lemma send_sealed_reaches:
  assumes wf: "wf_wb (self_key X) X" and ok: "ids_ok L (set ids)" and q: "l_ofPartyEnvelope L pe = Some q"
  shows "\<exists>out. ofold (send_sealed L t (mk_env ''party'' ix []) q) ids X = Ret (X\<lparr>wb_out := wb_out X @ out\<rparr>) \<and>
    reaches L t pe X ix (set ids) out"
proof -
  from send_sealed_all [OF wf ok [unfolded ids_ok_def], of t "mk_env ''party'' ix []" q] obtain out where
    o: "ofold (send_sealed L t (mk_env ''party'' ix []) q) ids X = Ret (X\<lparr>wb_out := wb_out X @ out\<rparr>)"
    and w: "\<And>i m addr j. i \<in> set ids \<Longrightarrow> IdToMin (l_spare L) i = Ret (Inr m) \<Longrightarrow> self_key X \<noteq> SetBytes (mi_SignPub m) \<Longrightarrow>
      directs X (mi_SignPub m) addr \<Longrightarrow> l_ofEnvelope L (sealed_env L t (mk_env ''party'' ix []) q i m X) = Some j \<Longrightarrow>
      WriteOut addr (line j) \<in> set out" by blast
  have "reaches L t pe X ix (set ids) out"
    unfolding reaches_def
  proof (intro allI impI)
    fix Z z iz j
    assume Z: "participant L z iz Z" "self_key X \<noteq> self_key Z" "directs X (pe_SignPub (wb_PeerSelf Z)) z" "iz \<in> set ids"
      and j: "posts L t pe X ix Z iz j"
    have "l_ofEnvelope L (sealed_env L t (mk_env ''party'' ix []) q iz (Peer_Min (wb_PeerSelf Z)) X) = Some j"
      using j q by (auto simp: posts_def mails_def)
    with w [OF Z(4) participant_id [OF Z(1)]] Z show "WriteOut z (line j) \<in> set out"
      by (simp add: self_key_def Peer_Min_def)
  qed
  with o show ?thesis by blast
qed

lemma reaches_unsendable: "l_ofPartyEnvelope L pe = None \<Longrightarrow> reaches L t pe X ix I out"
  by (auto simp: reaches_def posts_def)

text \<open>A member passes a message on to its neighbours in the ring, each of which receives it.\<close>

lemma sendToNeighbors_run:
  assumes wf: "wf_wb (self_key X) X" and self: "Peer_Id (wb_PeerSelf X) = Ret ix" and once: "each_once L"
    and ml: "pl_MinList party = \<lparr>ml_Map = Some ms, ml_Mutex = True\<rparr>" and d: "distinct (map_keys ms)"
    and mem: "ix \<in> set (map_keys ms)" and ok: "ids_ok L (set (map_keys ms))"
  shows "\<exists>i out. i < length ms \<and> sort (map_keys ms) ! i = ix \<and>
    sendToNeighbors L t party type dat X = Ret (X\<lparr>wb_out := wb_out X @ out\<rparr>) \<and>
    reaches L t \<lparr>pv_Type = type, pv_From = ix, pv_PartyId = pl_Id party, pv_Data = dat\<rparr> X ix
      (ring_neighbors (sort (map_keys ms)) i) out"
proof -
  let ?ids = "sort (map_keys ms)" and ?pe = "\<lparr>pv_Type = type, pv_From = ix, pv_PartyId = pl_Id party, pv_Data = dat\<rparr>"
  have "ix \<in> set ?ids" using mem by simp
  then obtain i where i: "i < length ms" "?ids ! i = ix" by (auto simp only: in_set_conv_nth length_sort length_map)
  have "agreed L ms" using d once by (simp add: agreed_def each_once_def)
  from getNeighbors_ring [OF ml this self i] obtain ns where
    ns: "getNeighbors L party X = Ret (ns, X)" "set (map_keys ns) = ring_neighbors ?ids i" by blast
  have "0 < length ms" using i by linarith
  then have "nat ((int i + k) mod int (length ms)) < length ?ids" for k by (simp add: nat_less_iff)
  then have "?ids ! nat ((int i + k) mod int (length ms)) \<in> set ?ids" for k by (intro nth_mem)
  then have "ring_neighbors ?ids i \<subseteq> set ?ids" unfolding ring_neighbors_def Let_def length_sort length_map by blast
  then have sub: "set (l_keys L (map_keys ns)) \<subseteq> set (map_keys ms)" using ns(2) each_once_set [OF once] by simp
  then have oks: "ids_ok L (set (l_keys L (map_keys ns)))" using ok by (auto simp: ids_ok_def)
  show ?thesis
  proof (cases "l_ofPartyEnvelope L ?pe")
    case None
    then show ?thesis using i reaches_unsendable [OF None]
      by (intro exI [of _ i] exI [of _ "[]"]) (simp add: sendToNeighbors_def self)
  next
    case (Some q)
    from send_sealed_reaches [OF wf oks Some, of t ix] obtain out where
      "ofold (send_sealed L t (mk_env ''party'' ix []) q) (l_keys L (map_keys ns)) X = Ret (X\<lparr>wb_out := wb_out X @ out\<rparr>)"
      "reaches L t ?pe X ix (set (l_keys L (map_keys ns))) out" by blast
    with i ns Some each_once_set [OF once] show ?thesis
      by (intro exI [of _ i] exI [of _ out]) (simp add: sendToNeighbors_def self)
  qed
qed

text \<open>What a participant signed passes the checks that the party handlers start with.\<close>

lemma party_message_ok:
  assumes X: "participant L x ix X" and m: "decode k = Some m" "peerIdOf m = ix" "partyIdOf m = pid"
  shows "party_message L caller decode peerIdOf partyIdOf badParty pid (signed L k X) Y =
    Ret (Inr (m, Peer_Min (wb_PeerSelf X)))"
  using X m participant_id [OF X]
  by (simp add: party_message_def party_json_def party_check_def participant_def signs_def Peer_Min_def not_less)

section \<open>The announcement\<close>

text \<open>A member that hears of a new member adds it to its list and passes the announcement on.\<close>

lemma ProcessAnnounce_run:
  assumes wf: "wf_wb (self_key Y) Y" and self: "Peer_Id (wb_PeerSelf Y) = Ret iy" and once: "each_once L"
    and N: "participant L n i N" and k: "announces L i (pl_Id party) k"
    and ml: "pl_MinList party = \<lparr>ml_Map = Some ms, ml_Mutex = True\<rparr>" and d: "distinct (map_keys ms)"
    and new: "i \<notin> set (map_keys ms)" and mem: "iy = i \<or> iy \<in> set (map_keys ms)" and ok: "ids_ok L (set (map_keys ms))"
  defines "ms' \<equiv> map_put i 0 ms"
  shows "\<exists>out x. x < length ms' \<and> sort (map_keys ms') ! x = iy \<and>
    ProcessAnnounce L now (announce_env from pid (signed L k N)) party Y =
      Ret (party\<lparr>pl_MinList := \<lparr>ml_Map = Some ms', ml_Mutex = True\<rparr>\<rparr>, Y\<lparr>wb_out := wb_out Y @ out\<rparr>) \<and>
    reaches L now (announce_env iy (pl_Id party) (signed L k N)) Y iy (ring_neighbors (sort (map_keys ms')) x) out"
proof -
  let ?party = "party\<lparr>pl_MinList := \<lparr>ml_Map = Some ms', ml_Mutex = True\<rparr>\<rparr>"
  have keys: "set (map_keys ms') = insert i (set (map_keys ms))" unfolding ms'_def by (rule map_put_keys)
  have "ids_ok L (set (map_keys ms'))" unfolding keys using ok participant_id [OF N] by (auto simp: ids_ok_def)
  moreover have "distinct (map_keys ms')" unfolding ms'_def by (rule gm.wf_put [OF d])
  moreover have "iy \<in> set (map_keys ms')" unfolding keys using mem by auto
  ultimately obtain x out where r: "x < length ms'" "sort (map_keys ms') ! x = iy"
      "sendToNeighbors L now ?party ''announce'' (signed L k N) Y = Ret (Y\<lparr>wb_out := wb_out Y @ out\<rparr>)"
      "reaches L now \<lparr>pv_Type = ''announce'', pv_From = iy, pv_PartyId = pl_Id ?party, pv_Data = signed L k N\<rparr> Y iy
        (ring_neighbors (sort (map_keys ms')) x) out"
    using sendToNeighbors_run [OF wf self once, of ?party ms' now "''announce''" "signed L k N"] by auto
  have "party_message L ''announce'' (l_toPartyAnnounce L) pa_PeerId pa_PartyId ''error invalid party (party:announce)''
      (pl_Id party) (signed L k N) Y = Ret (Inr (\<lparr>pa_PeerId = i, pa_PartyId = pl_Id party\<rparr>, Peer_Min (wb_PeerSelf N)))"
    using k by (intro party_message_ok [OF N]) (simp_all add: announces_def)
  moreover have "map_get ms i = None" using new by (simp add: map_of_eq_None_iff)
  ultimately show ?thesis
    using r by (intro exI [of _ out] exI [of _ x])
      (simp add: ProcessAnnounce_def announce_env_def MinList_Get_def MinList_Set_def ml ms'_def)
qed

lemma party_received:
  assumes X: "participant L x ix X" and Y: "Peer_Id (wb_PeerSelf Y) = Ret iy" and op: "opens L X Y"
    and post: "posts L t pe X ix Y iy j" and t: "t \<noteq> 0"
    and p: "map_get (wb_Parties Y) (pv_PartyId pe) = Some party" and ty: "pv_Type pe \<noteq> ''disconnect''"
    and from_: "pv_From pe = ix" and run: "dispatch_party L now pe party Y = Ret (party', Y')"
    and ml: "pl_MinList party' = \<lparr>ml_Map = Some ms, ml_Mutex = True\<rparr>"
  shows "processMessage L now (line j) Y = Ret (Y'\<lparr>wb_Parties := map_put (pv_PartyId pe)
    (party'\<lparr>pl_MinList := \<lparr>ml_Map = Some (map_put ix 0 ms), ml_Mutex = True\<rparr>\<rparr>) (wb_Parties Y')\<rparr>)"
proof -
  obtain q where q: "l_toPartyEnvelope L q = Some pe"
    and m: "l_toEnvelope L (line j) = Some (sealed_env L t (mk_env ''party'' ix []) q iy (Peer_Min (wb_PeerSelf Y)) X)"
    using post by (auto simp: posts_def mails_def)
  have "l_open L (l_seal L q (mi_EncPub (Peer_Min (wb_PeerSelf Y))) (se_EncPrv (wb_Self X)))
      (mi_EncPub (Peer_Min (wb_PeerSelf X))) (se_EncPrv (wb_Self Y)) = Some q"
    using op by (simp add: opens_def Peer_Min_def)
  then show ?thesis
    using m q Y t p ty from_ run participant_id [OF X]
    by (simp add: processMessage_def sealed_env_def timed_def mk_env_def processParty_def MinList_Set_def ml)
qed

lemma AcceptInvite_run:
  assumes wf: "wf_wb (self_key Y) Y" and self: "Peer_Id (wb_PeerSelf Y) = Ret iy" and once: "each_once L"
    and p: "map_get (wb_PendingInvites Y) (pl_Id party) = Some party" "map_get (wb_Parties Y) (pl_Id party) = None"
    and ml: "pl_MinList party = \<lparr>ml_Map = Some ms, ml_Mutex = True\<rparr>" and ok: "ids_ok L (set (map_keys ms))"
    and k: "announces L iy (pl_Id party) k"
  shows "\<exists>out. AcceptInvite L t (pl_Id party) Y = Ret (setStatus (''accepted invite '' @ pl_Id party)
      (Y\<lparr>wb_PendingInvites := map_del (pl_Id party) (wb_PendingInvites Y), wb_out := wb_out Y @ out,
        wb_Parties := map_put (pl_Id party) party (wb_Parties Y)\<rparr>)) \<and>
    reaches L t (announce_env iy (pl_Id party) (signed L k Y)) Y iy (set (map_keys ms)) out"
proof -
  let ?Y = "Y\<lparr>wb_PendingInvites := map_del (pl_Id party) (wb_PendingInvites Y)\<rparr>"
    and ?pe = "announce_env iy (pl_Id party) (signed L k Y)"
  have sets: "set (l_keys L (map_keys ms)) = set (map_keys ms)" by (rule each_once_set [OF once])
  have wf': "wf_wb (self_key ?Y) ?Y" using wf by (simp add: self_key_def wf_wb_def)
  have same: "reaches L t ?pe ?Y iy I out \<longleftrightarrow> reaches L t ?pe Y iy I out" for I out
    by (simp add: reaches_def self_key_def directs_def all_entries_def posts_def sealed_env_def)
  have run: "\<exists>out. Party_SendAnnounce L t party ?Y = Ret (?Y\<lparr>wb_out := wb_out Y @ out\<rparr>) \<and>
      reaches L t ?pe Y iy (set (map_keys ms)) out"
  proof (cases "l_ofPartyEnvelope L ?pe")
    case None
    then show ?thesis using k self reaches_unsendable [OF None]
      by (intro exI [of _ "[]"]) (simp add: Party_SendAnnounce_def announces_def announce_env_def signed_def)
  next
    case (Some q)
    from send_sealed_reaches [OF wf' _ Some, of "l_keys L (map_keys ms)" t iy] ok obtain out where
      "ofold (send_sealed L t (mk_env ''party'' iy []) q) (l_keys L (map_keys ms)) ?Y = Ret (?Y\<lparr>wb_out := wb_out ?Y @ out\<rparr>)"
      "reaches L t ?pe ?Y iy (set (map_keys ms)) out" unfolding sets by blast
    with k self Some show ?thesis unfolding same
      by (intro exI [of _ out]) (simp add: Party_SendAnnounce_def announces_def announce_env_def signed_def minlist_ids_def ml)
  qed
  then obtain out where "Party_SendAnnounce L t party ?Y = Ret (?Y\<lparr>wb_out := wb_out Y @ out\<rparr>)"
      "reaches L t ?pe Y iy (set (map_keys ms)) out" by blast
  with p show ?thesis by (intro exI [of _ out]) (simp add: AcceptInvite_def)
qed

section \<open>The whole exchange\<close>

definition members :: "WhiteBox \<Rightarrow> string \<Rightarrow> string set" where
  "members wb pid = (case map_get (wb_Parties wb) pid of None \<Rightarrow> {}
     | Some party \<Rightarrow> (case ml_Map (pl_MinList party) of None \<Rightarrow> {} | Some m \<Rightarrow> set (map_keys m)))"

lemma self_cong:
  assumes "wb_Self X' = wb_Self X" and "wb_PeerSelf X' = wb_PeerSelf X"
  shows "self_key X' = self_key X" "signed L m X' = signed L m X" "posts L t pe X' ix Z iz j = posts L t pe X ix Z iz j"
    "posts L t pe Z iz X' ix j = posts L t pe Z iz X ix j" "opens L X' Z = opens L X Z" "opens L Z X' = opens L Z X"
    "wf_wb (self_key X) X' \<Longrightarrow> participant L x ix X \<Longrightarrow> participant L x ix X'"
  using assms by (simp_all add: self_key_def signed_def posts_def sealed_env_def opens_def participant_def signs_def)

lemma two_ring: "length ids = 2 \<Longrightarrow> i < 2 \<Longrightarrow> ring_neighbors ids i = set ids"
  by (auto simp: ring_neighbors_def length_Suc_conv numeral_2_eq_2 less_Suc_eq)

lemma founder_announced:
  assumes Y: "participant L y iy Y" and N: "participant L n i N" and once: "each_once L"
    and k: "announces L i (pl_Id party) k" and ml: "pl_MinList party = \<lparr>ml_Map = Some [(f, v)], ml_Mutex = True\<rparr>"
    and new: "i \<noteq> f" and mem: "iy = i \<or> iy = f" and ok: "ids_ok L {f}"
  shows "\<exists>out. dispatch_party L now (announce_env from (pl_Id party) (signed L k N)) party Y =
      Ret (party\<lparr>pl_MinList := \<lparr>ml_Map = Some [(f, v), (i, 0)], ml_Mutex = True\<rparr>\<rparr>, Y\<lparr>wb_out := wb_out Y @ out\<rparr>) \<and>
    reaches L now (announce_env iy (pl_Id party) (signed L k N)) Y iy {f, i} out"
proof -
  have y: "wf_wb (self_key Y) Y" "Peer_Id (wb_PeerSelf Y) = Ret iy" using Y by (simp_all add: participant_def)
  have "distinct (map_keys [(f, v)])" "i \<notin> set (map_keys [(f, v)])" "iy = i \<or> iy \<in> set (map_keys [(f, v)])"
    "ids_ok L (set (map_keys [(f, v)]))" using new mem ok by simp_all
  from ProcessAnnounce_run [OF y once N k ml this, of now "from"] obtain out x where
    r: "x < length (map_put i 0 [(f, v)])" "ProcessAnnounce L now (announce_env from (pl_Id party) (signed L k N)) party Y =
      Ret (party\<lparr>pl_MinList := \<lparr>ml_Map = Some (map_put i 0 [(f, v)]), ml_Mutex = True\<rparr>\<rparr>, Y\<lparr>wb_out := wb_out Y @ out\<rparr>)"
      "reaches L now (announce_env iy (pl_Id party) (signed L k N)) Y iy
        (ring_neighbors (sort (map_keys (map_put i 0 [(f, v)]))) x) out" by blast
  have two: "map_put i 0 [(f, v)] = [(f, v), (i, 0)]" using new by simp
  have "ring_neighbors (sort (map_keys [(f, v), (i, 0)])) x = {f, i}" using r(1) unfolding two by (subst two_ring) auto
  moreover have "dispatch_party L now (announce_env from (pl_Id party) (signed L k N)) party Y =
      ProcessAnnounce L now (announce_env from (pl_Id party) (signed L k N)) party Y"
    by (simp add: dispatch_party_def announce_env_def)
  ultimately show ?thesis using r(2,3) unfolding two by (intro exI [of _ out]) simp
qed

text \<open>A member of a party of one or two receives the announcement of the second one.\<close>

lemma announcement_received:
  assumes Y: "participant L y iy Y" and X: "participant L x ix X" and N: "participant L n i N" and once: "each_once L"
    and op: "opens L X Y" and k: "announces L i (pl_Id party) k" and p: "map_get (wb_Parties Y) (pl_Id party) = Some party"
    and ml: "pl_MinList party = \<lparr>ml_Map = Some [(f, v)], ml_Mutex = True\<rparr>" and new: "i \<noteq> f"
    and mem: "iy = i \<or> iy = f" "ix = i \<or> ix = f" and ok: "ids_ok L {f}" and t: "t \<noteq> 0"
    and post: "posts L t (announce_env ix (pl_Id party) (signed L k N)) X ix Y iy j"
  shows "\<exists>Y2 out. processMessage L now (line j) Y = Ret Y2 \<and> set out \<subseteq> set (wb_out Y2) \<and>
    reaches L now (announce_env iy (pl_Id party) (signed L k N)) Y iy {f, i} out \<and> members Y2 (pl_Id party) = {f, i}"
proof -
  from founder_announced [OF Y N once k ml new mem(1) ok, of now ix] obtain out where
    o: "dispatch_party L now (announce_env ix (pl_Id party) (signed L k N)) party Y =
      Ret (party\<lparr>pl_MinList := \<lparr>ml_Map = Some [(f, v), (i, 0)], ml_Mutex = True\<rparr>\<rparr>, Y\<lparr>wb_out := wb_out Y @ out\<rparr>)"
      "reaches L now (announce_env iy (pl_Id party) (signed L k N)) Y iy {f, i} out" by blast
  have self: "Peer_Id (wb_PeerSelf Y) = Ret iy" using Y by (simp add: participant_def)
  obtain Y2 where Y2: "processMessage L now (line j) Y = Ret Y2" "wb_out Y2 = wb_out Y @ out"
      "members Y2 (pl_Id party) = set (map_keys (map_put ix 0 [(f, v), (i, 0)]))"
    using party_received [OF X self op post t _ _ _ o(1)] p by (simp add: announce_env_def members_def map_simps)
  have "set (map_keys (map_put ix 0 [(f, v), (i, 0)])) = {f, i}" using mem(2) by auto
  with Y2 o(2) show ?thesis by (intro exI [of _ Y2] exI [of _ out]) simp
qed

lemma invite_accepted:
  assumes A: "participant L a ia A" and B: "participant L b ib B" and ne: "self_key A \<noteq> self_key B"
    and d: "directs A (pe_SignPub (wb_PeerSelf B)) b" "directs B (pe_SignPub (wb_PeerSelf A)) a"
    and op: "opens L A B" and once: "each_once L" and v: "valid_party_id (pl_Id party)"
    and ml: "pl_MinList party = \<lparr>ml_Map = Some [(ia, v)], ml_Mutex = True\<rparr>"
    and new: "map_get (wb_PendingInvites B) (pl_Id party) = None" "map_get (wb_Parties B) (pl_Id party) = None"
    and inv: "invites L t0 party A ia B ib j0" and k: "announces L ib (pl_Id party) k"
    and j1: "posts L t2 (announce_env ib (pl_Id party) (signed L k B)) B ib A ia j1" and t: "t0 \<noteq> 0"
  shows "\<exists>A1 B1 B2. SendInvite L t0 party (Peer_Min (wb_PeerSelf B)) A = Ret A1 \<and> WriteOut b (line j0) \<in> set (wb_out A1) \<and>
    wb_Self A1 = wb_Self A \<and> wb_PeerSelf A1 = wb_PeerSelf A \<and> wf_wb (self_key A) A1 \<and> wb_Parties A1 = wb_Parties A \<and>
    wb_PeerTable A1 = wb_PeerTable A \<and> processMessage L t1 (line j0) B = Ret B1 \<and>
    AcceptInvite L t2 (pl_Id party) B1 = Ret B2 \<and> WriteOut a (line j1) \<in> set (wb_out B2) \<and>
    wb_Self B2 = wb_Self B \<and> wb_PeerSelf B2 = wb_PeerSelf B \<and> wf_wb (self_key B) B2 \<and>
    map_get (wb_Parties B2) (pl_Id party) = Some (invited party)"
proof -
  have ids: "Peer_Id (wb_PeerSelf B) = Ret ib"
    and wf: "wf_wb (self_key A) A" "wf_wb (self_key B) B" using A B by (simp_all add: participant_def)
  obtain o1 where "SendInvite L t0 party (Peer_Min (wb_PeerSelf B)) A = Ret (setStatus ''invite sent'' (A\<lparr>wb_out := wb_out A @ o1\<rparr>))"
      "WriteOut b (line j0) \<in> set o1"
    using SendInvite_run [OF A B ne d(1) ml _ inv] by auto
  then obtain A1 where A1: "SendInvite L t0 party (Peer_Min (wb_PeerSelf B)) A = Ret A1" "WriteOut b (line j0) \<in> set (wb_out A1)"
      "wb_Self A1 = wb_Self A" "wb_PeerSelf A1 = wb_PeerSelf A" "wf_wb (self_key A) A1" "wb_Parties A1 = wb_Parties A"
      "wb_PeerTable A1 = wb_PeerTable A"
    using wf by (simp add: setStatus_def)
  have "wf_wb (self_key B) (B\<lparr>wb_PendingInvites := m\<rparr>)" for m using wf by (simp add: wf_wb_def)
  then obtain B1 where B1: "processMessage L t1 (line j0) B = Ret B1"
      "wb_Self B1 = wb_Self B" "wb_PeerSelf B1 = wb_PeerSelf B" "wf_wb (self_key B) B1" "wb_Parties B1 = wb_Parties B"
      "wb_PeerTable B1 = wb_PeerTable B" "map_get (wb_PendingInvites B1) (pl_Id party) = Some (invited party)"
    using invite_received [OF A ids op inv t v new, of t1] by (simp add: setStatus_def map_simps)
  note sB = self_cong [OF B1(2,3)]
  have B1': "wf_wb (self_key B1) B1" "Peer_Id (wb_PeerSelf B1) = Ret ib" "pl_MinList (invited party) = \<lparr>ml_Map = Some [(ia, v)], ml_Mutex = True\<rparr>"
      "map_get (wb_PendingInvites B1) (pl_Id (invited party)) = Some (invited party)"
      "map_get (wb_Parties B1) (pl_Id (invited party)) = None" "announces L ib (pl_Id (invited party)) k"
      "ids_ok L (set (map_keys [(ia, v)]))"
    using B1 sB(1) ids ml new k participant_id [OF A] by (simp_all add: ids_ok_def)
  obtain o2 where o2: "AcceptInvite L t2 (pl_Id party) B1 = Ret (setStatus (''accepted invite '' @ pl_Id party)
      (B1\<lparr>wb_PendingInvites := map_del (pl_Id party) (wb_PendingInvites B1), wb_out := wb_out B1 @ o2,
        wb_Parties := map_put (pl_Id party) (invited party) (wb_Parties B1)\<rparr>))"
      "reaches L t2 (announce_env ib (pl_Id party) (signed L k B1)) B1 ib (set (map_keys [(ia, v)])) o2"
    using AcceptInvite_run [OF B1'(1,2) once B1'(4,5,3,7,6), unfolded invited_simps] by blast
  have "self_key B1 \<noteq> self_key A" "directs B1 (pe_SignPub (wb_PeerSelf A)) a" "ia \<in> set (map_keys [(ia, v)])"
      "posts L t2 (announce_env ib (pl_Id party) (signed L k B1)) B1 ib A ia j1"
    using ne d j1 sB B1(6) by (simp_all add: directs_def all_entries_def)
  with o2(2) A have w2: "WriteOut a (line j1) \<in> set o2" unfolding reaches_def by blast
  have "wf_wb (self_key B) (B1\<lparr>wb_PendingInvites := m, wb_out := z, wb_Parties := q\<rparr>)" for m z q
    using B1(4) by (simp add: wf_wb_def)
  with o2 w2 obtain B2 where "AcceptInvite L t2 (pl_Id party) B1 = Ret B2" "WriteOut a (line j1) \<in> set (wb_out B2)"
      "wb_Self B2 = wb_Self B" "wb_PeerSelf B2 = wb_PeerSelf B" "wf_wb (self_key B) B2"
      "map_get (wb_Parties B2) (pl_Id party) = Some (invited party)"
    by (simp add: setStatus_def map_simps B1(2,3))
  with A1 B1(1) show ?thesis by (intro exI [of _ A1] exI [of _ B1] exI [of _ B2]) simp
qed

text \<open>
  C9: An invitation leads to a shared party. Let the founder \<open>A\<close> of a party and another node \<open>B\<close> have each
  other in their routing tables. When \<open>A\<close> invites \<open>B\<close>, \<open>B\<close> receives the datagram that \<open>A\<close> writes to it, its user
  accepts, \<open>A\<close> receives the announcement that \<open>B\<close> then writes, and \<open>B\<close> receives the announcement that \<open>A\<close>
  passes on, then both have the party with the two of them as its members. Before the last step \<open>B\<close> is not
  a member in its own list: it learns that from \<open>A\<close>.
\<close>

theorem invite_joins:
  assumes "participant L a ia A" and "participant L b ib B" and "self_key A \<noteq> self_key B"
    and "directs A (pe_SignPub (wb_PeerSelf B)) b" and "directs B (pe_SignPub (wb_PeerSelf A)) a"
    and "opens L A B" and "opens L B A" and "each_once L"
    and "map_get (wb_Parties A) pid = Some party" and "pl_Id party = pid" and "valid_party_id pid"
    and "pl_MinList party = \<lparr>ml_Map = Some [(ia, v)], ml_Mutex = True\<rparr>"
    and "map_get (wb_PendingInvites B) pid = None" and "map_get (wb_Parties B) pid = None"
    and "invites L t0 party A ia B ib j0" and "announces L ib pid k"
    and "posts L t2 (announce_env ib pid (signed L k B)) B ib A ia j1"
    and "posts L t3 (announce_env ia pid (signed L k B)) A ia B ib j2"
    and "t0 \<noteq> 0" and "t2 \<noteq> 0" and "t3 \<noteq> 0"
  shows "\<exists>A1 B1 B2 A2 B3.
    SendInvite L t0 party (Peer_Min (wb_PeerSelf B)) A = Ret A1 \<and> WriteOut b (line j0) \<in> set (wb_out A1) \<and>
    processMessage L t1 (line j0) B = Ret B1 \<and>
    AcceptInvite L t2 pid B1 = Ret B2 \<and> WriteOut a (line j1) \<in> set (wb_out B2) \<and> members B2 pid = {ia} \<and>
    processMessage L t3 (line j1) A1 = Ret A2 \<and> WriteOut b (line j2) \<in> set (wb_out A2) \<and> members A2 pid = {ia, ib} \<and>
    processMessage L t4 (line j2) B2 = Ret B3 \<and> members B3 pid = {ia, ib}"
proof -
  note A = assms(1) and B = assms(2) and pid = assms(10)
  have ne: "ib \<noteq> ia" using participant_id [OF A] participant_id [OF B] assms(3) by (auto simp: self_key_def Peer_Min_def)
  have ok: "ids_ok L {ia}" using participant_id [OF A] by (simp add: ids_ok_def)
  obtain A1 B1 B2 where r: "SendInvite L t0 party (Peer_Min (wb_PeerSelf B)) A = Ret A1" "WriteOut b (line j0) \<in> set (wb_out A1)"
      "processMessage L t1 (line j0) B = Ret B1" "AcceptInvite L t2 pid B1 = Ret B2" "WriteOut a (line j1) \<in> set (wb_out B2)"
    and A1: "wb_Self A1 = wb_Self A" "wb_PeerSelf A1 = wb_PeerSelf A" "wf_wb (self_key A) A1"
      "wb_Parties A1 = wb_Parties A" "wb_PeerTable A1 = wb_PeerTable A"
    and B2: "wb_Self B2 = wb_Self B" "wb_PeerSelf B2 = wb_PeerSelf B" "wf_wb (self_key B) B2"
      "map_get (wb_Parties B2) pid = Some (invited party)"
    using invite_accepted [OF A B assms(3-6,8) _ assms(12) _ _ assms(15), of k t2 j1 t1] assms(11,13,14,16,17,19)
    unfolding pid by blast
  note sA = self_cong [OF A1(1,2)] and sB = self_cong [OF B2(1,2)]
  have pA: "participant L a ia A1" by (rule sA(7) [OF A1(3) A])
  have pB: "participant L b ib B2" by (rule sB(7) [OF B2(3) B])
  have "opens L B A1" "announces L ib (pl_Id party) k" "map_get (wb_Parties A1) (pl_Id party) = Some party"
      "posts L t2 (announce_env ib (pl_Id party) (signed L k B)) B ib A1 ia j1" "ia = ib \<or> ia = ia" "ib = ib \<or> ib = ia"
    using assms(7,9,16,17) sA A1(4) by (simp_all add: pid)
  from announcement_received [OF pA B B assms(8) this(1,2,3) assms(12) ne this(5,6) ok assms(20) this(4), of t3]
  obtain A2 o3 where A2: "processMessage L t3 (line j1) A1 = Ret A2" "set o3 \<subseteq> set (wb_out A2)" "members A2 pid = {ia, ib}"
      "reaches L t3 (announce_env ia pid (signed L k B)) A1 ia {ia, ib} o3" unfolding pid by blast
  have "self_key A1 \<noteq> self_key B" "directs A1 (pe_SignPub (wb_PeerSelf B)) b" "ib \<in> {ia, ib}"
      "posts L t3 (announce_env ia pid (signed L k B)) A1 ia B ib j2"
    using assms(3,4,18) sA A1(5) by (simp_all add: directs_def all_entries_def)
  with A2(2,4) B have w: "WriteOut b (line j2) \<in> set (wb_out A2)" unfolding reaches_def by blast
  have "opens L A B2" "announces L ib (pl_Id (invited party)) k" "map_get (wb_Parties B2) (pl_Id (invited party)) = Some (invited party)"
      "pl_MinList (invited party) = \<lparr>ml_Map = Some [(ia, v)], ml_Mutex = True\<rparr>" "ib = ib \<or> ib = ia" "ia = ib \<or> ia = ia"
      "posts L t3 (announce_env ia (pl_Id (invited party)) (signed L k B)) A ia B2 ib j2"
    using assms(6,12,16,18) sB B2(4) by (simp_all add: pid)
  from announcement_received [OF pB A B assms(8) this(1-4) ne this(5,6) ok assms(21) this(7), of t4]
  obtain B3 where B3: "processMessage L t4 (line j2) B2 = Ret B3" "members B3 pid = {ia, ib}"
    unfolding invited_simps pid by blast
  have "members B2 pid = {ia}" using B2(4) assms(12) by (simp add: members_def)
  with r A2 B3 w show ?thesis
    by (intro exI [of _ A1] exI [of _ B1] exI [of _ B2] exI [of _ A2] exI [of _ B3]) simp
qed

section \<open>A chat between members\<close>

text \<open>The JSON \<open>k\<close> is the chat \<open>m\<close> of the member \<open>i\<close> in the party \<open>pid\<close> at time \<open>t\<close>.\<close>

definition says :: "lib \<Rightarrow> string \<Rightarrow> string \<Rightarrow> string \<Rightarrow> int \<Rightarrow> string \<Rightarrow> bool" where
  "says L i pid m t k \<longleftrightarrow> (let c = \<lparr>pc_PeerId = i, pc_PartyId = pid, pc_Message = m, pc_Time = t\<rparr> in
     l_ofPartyChat L c = Some k \<and> l_toPartyChat L k = Some c)"

definition chat_env :: "string \<Rightarrow> string \<Rightarrow> bytes \<Rightarrow> PartyEnvelope" where
  "chat_env from pid dat = \<lparr>pv_Type = ''chat'', pv_From = from, pv_PartyId = pid, pv_Data = dat\<rparr>"

lemma chat_message:
  assumes X: "participant L x ix X" and k: "says L ix (pl_Id party) m t k"
  shows "party_message L ''chat'' (l_toPartyChat L) pc_PeerId pc_PartyId ''error invalid party (party:chat)''
      (pl_Id party) (signed L k X) Y =
    Ret (Inr (\<lparr>pc_PeerId = ix, pc_PartyId = pl_Id party, pc_Message = m, pc_Time = t\<rparr>, Peer_Min (wb_PeerSelf X)))"
  using k by (intro party_message_ok [OF X]) (simp_all add: says_def Let_def)

lemma dispatch_chat: "dispatch_party L now (chat_env from pid d) party Y = ProcessChat L now (chat_env from pid d) party Y"
  by (simp add: dispatch_party_def chat_env_def)

text \<open>A chat that was not seen is shown, and remembered; one that was seen changes nothing.\<close>

lemma chat_seen:
  assumes "participant L x ix X" and "says L ix (pl_Id party) m t k"
    and "pl_SeenChats party (ix @ ''.'' @ l_timeString L t) \<noteq> None"
  shows "dispatch_party L now (chat_env from pid (signed L k X)) party Y = Ret (party, Y)"
  unfolding dispatch_chat using assms(3) chat_message [OF assms(1,2)]
  by (auto simp: ProcessChat_def chat_env_def Let_def)

lemma chat_new:
  assumes Y: "participant L y iy Y" and X: "participant L x ix X" and once: "each_once L" and k: "says L ix (pl_Id party) m t k"
    and ml: "pl_MinList party = \<lparr>ml_Map = Some ms, ml_Mutex = True\<rparr>" and d: "distinct (map_keys ms)"
    and mem: "iy \<in> set (map_keys ms)" and ok: "ids_ok L (set (map_keys ms))"
    and new: "pl_SeenChats party (ix @ ''.'' @ l_timeString L t) = None"
  shows "\<exists>Y'. dispatch_party L now (chat_env from pid (signed L k X)) party Y =
      Ret (party\<lparr>pl_SeenChats := (pl_SeenChats party)(ix @ ''.'' @ l_timeString L t \<mapsto> True)\<rparr>, Y') \<and>
      wb_Parties Y' = wb_Parties Y \<and> wb_PeerSelf Y' = wb_PeerSelf Y \<and> wb_Self Y' = wb_Self Y \<and>
      chats_of (wb_out Y') = chats_of (wb_out Y) @ [\<lparr>ch_Time = now, ch_Id = ix, ch_Channel = pl_Id party, ch_Message = m\<rparr>]"
proof -
  let ?c = "\<lparr>ch_Time = now, ch_Id = ix, ch_Channel = pl_Id party, ch_Message = m\<rparr>"
    and ?party = "party\<lparr>pl_SeenChats := (pl_SeenChats party)(ix @ ''.'' @ l_timeString L t \<mapsto> True)\<rparr>"
  have "wf_wb (self_key (addChat ?c Y)) (addChat ?c Y)" "Peer_Id (wb_PeerSelf (addChat ?c Y)) = Ret iy"
    "pl_MinList ?party = \<lparr>ml_Map = Some ms, ml_Mutex = True\<rparr>"
    using Y ml by (simp_all add: participant_def self_key_def addChat_def)
  from sendToNeighbors_run [OF this(1,2) once this(3) d mem ok] obtain out where
    out: "sendToNeighbors L now ?party ''chat'' (signed L k X) (addChat ?c Y) =
      Ret ((addChat ?c Y)\<lparr>wb_out := wb_out (addChat ?c Y) @ out\<rparr>)" by blast
  have "chats_of (wb_out ((addChat ?c Y)\<lparr>wb_out := wb_out (addChat ?c Y) @ out\<rparr>)) = chats_of (wb_out (addChat ?c Y))"
    using quiet_fields [OF quiet_sendToNeighbors [OF out]] by simp
  then show "\<exists>Y'. dispatch_party L now (chat_env from pid (signed L k X)) party Y = Ret (?party, Y') \<and>
      wb_Parties Y' = wb_Parties Y \<and> wb_PeerSelf Y' = wb_PeerSelf Y \<and> wb_Self Y' = wb_Self Y \<and>
      chats_of (wb_out Y') = chats_of (wb_out Y) @ [?c]"
    unfolding dispatch_chat using chat_message [OF X k] new out
    by (intro exI [of _ "(addChat ?c Y)\<lparr>wb_out := wb_out (addChat ?c Y) @ out\<rparr>"])
      (simp add: ProcessChat_def chat_env_def addChat_def Let_def)
qed

text \<open>
  C10: A party chat arrives, once. Let \<open>A\<close> and \<open>B\<close> be members of a party, \<open>B\<close> a neighbour of \<open>A\<close> in the ring of
  \<open>A\<close>'s members, and at a known address. When the user of \<open>A\<close> sends a chat, \<open>A\<close> writes a datagram to \<open>B\<close>; at
  its first arrival \<open>B\<close> shows exactly that chat, as said by \<open>A\<close> in that party, and at a second one nothing.
\<close>

theorem party_chat_delivered:
  assumes "participant L a ia A" and "participant L b ib B" and "self_key A \<noteq> self_key B"
    and "directs A (pe_SignPub (wb_PeerSelf B)) b" and "opens L A B" and "each_once L"
    and "pl_MinList partyA = \<lparr>ml_Map = Some ms, ml_Mutex = True\<rparr>" and "distinct (map_keys ms)" and "ids_ok L (set (map_keys ms))"
    and "\<forall>x < length ms. sort (map_keys ms) ! x = ia \<longrightarrow> ib \<in> ring_neighbors (sort (map_keys ms)) x"
    and "ia \<in> set (map_keys ms)" and "pl_Id partyA = pid"
    and "map_get (wb_Parties B) pid = Some partyB" and "pl_Id partyB = pid"
    and "pl_MinList partyB = \<lparr>ml_Map = Some ms', ml_Mutex = True\<rparr>" and "distinct (map_keys ms')"
    and "ids_ok L (set (map_keys ms'))" and "ib \<in> set (map_keys ms')"
    and "pl_SeenChats partyB (ia @ ''.'' @ l_timeString L t) = None"
    and "says L ia pid m t k" and "posts L t (chat_env ia pid (signed L k A)) A ia B ib j" and "t \<noteq> 0"
  shows "\<exists>A1 B1 B2. Party_SendChat L t partyA m A = Ret A1 \<and> WriteOut b (line j) \<in> set (wb_out A1) \<and>
    processMessage L t1 (line j) B = Ret B1 \<and> chats_of (wb_out B1) =
      chats_of (wb_out B) @ [\<lparr>ch_Time = t1, ch_Id = ia, ch_Channel = pid, ch_Message = m\<rparr>] \<and>
    processMessage L t2 (line j) B1 = Ret B2 \<and> chats_of (wb_out B2) = chats_of (wb_out B1)"
proof -
  note A = assms(1) and B = assms(2)
  have ids: "Peer_Id (wb_PeerSelf A) = Ret ia" "Peer_Id (wb_PeerSelf B) = Ret ib" and wf: "wf_wb (self_key A) A"
    using A B by (simp_all add: participant_def)
  let ?pe = "chat_env ia pid (signed L k A)"
  obtain x out where x: "x < length ms" "sort (map_keys ms) ! x = ia"
    and out: "sendToNeighbors L t partyA ''chat'' (signed L k A) A = Ret (A\<lparr>wb_out := wb_out A @ out\<rparr>)"
      "reaches L t ?pe A ia (ring_neighbors (sort (map_keys ms)) x) out"
    using sendToNeighbors_run [OF wf ids(1) assms(6,7,8,11,9), of t "''chat''" "signed L k A"]
    unfolding chat_env_def assms(12) by blast
  have w: "WriteOut b (line j) \<in> set out"
    using out(2) B assms(3,4,10,21) x unfolding reaches_def by blast
  have send: "Party_SendChat L t partyA m A = Ret (A\<lparr>wb_out := wb_out A @ out\<rparr>)"
    using out(1) ids(1) assms(12,20) by (simp add: Party_SendChat_def says_def Let_def)
  have pe: "pv_PartyId ?pe = pid" "pv_From ?pe = ia" "pv_Type ?pe \<noteq> ''disconnect''" by (simp_all add: chat_env_def)
  note says = assms(20) [folded assms(14)]
  let ?p = "partyB\<lparr>pl_SeenChats := (pl_SeenChats partyB)(ia @ ''.'' @ l_timeString L t \<mapsto> True)\<rparr>"
  let ?q = "?p\<lparr>pl_MinList := \<lparr>ml_Map = Some (map_put ia 0 ms'), ml_Mutex = True\<rparr>\<rparr>"
  obtain B0 where B0: "dispatch_party L t1 ?pe partyB B = Ret (?p, B0)" "wb_Parties B0 = wb_Parties B"
      "wb_PeerSelf B0 = wb_PeerSelf B" "wb_Self B0 = wb_Self B"
      "chats_of (wb_out B0) = chats_of (wb_out B) @ [\<lparr>ch_Time = t1, ch_Id = ia, ch_Channel = pid, ch_Message = m\<rparr>]"
    using chat_new [OF B A assms(6) says assms(15,16,18,17,19), of t1 ia pid] unfolding assms(14) by blast
  let ?B1 = "B0\<lparr>wb_Parties := map_put pid ?q (wb_Parties B0)\<rparr>"
  have r1: "processMessage L t1 (line j) B = Ret ?B1"
    using party_received [OF A ids(2) assms(5,21,22) _ pe(3,2) B0(1), of ms'] assms(13,15) by (simp add: pe)
  have sB: "wb_Self ?B1 = wb_Self B" "wb_PeerSelf ?B1 = wb_PeerSelf B" using B0 by simp_all
  have q: "pl_Id ?q = pid" "pl_SeenChats ?q (ia @ ''.'' @ l_timeString L t) \<noteq> None"
    "pl_MinList ?q = \<lparr>ml_Map = Some (map_put ia 0 ms'), ml_Mutex = True\<rparr>" "map_get (wb_Parties ?B1) pid = Some ?q"
    by (simp_all add: assms(14) map_simps)
  have seen: "dispatch_party L t2 ?pe ?q ?B1 = Ret (?q, ?B1)"
    by (rule chat_seen [OF A assms(20) [folded q(1)] q(2)])
  have post: "opens L A ?B1" "posts L t ?pe A ia ?B1 ib j" "Peer_Id (wb_PeerSelf ?B1) = Ret ib"
    using self_cong(4,6) [OF sB] assms(5,21) ids(2) sB(2) by simp_all
  obtain B2 where "processMessage L t2 (line j) ?B1 = Ret B2" "wb_out B2 = wb_out ?B1"
    using party_received [OF A post(3,1,2) assms(22) _ pe(3,2) seen q(3)] q(4) by (simp add: pe(1))
  with send w r1 B0(5) show ?thesis
    by (intro exI [of _ "A\<lparr>wb_out := wb_out A @ out\<rparr>"] exI [of _ ?B1] exI [of _ B2]) simp
qed

section \<open>Two nodes and an invitation\<close>

lemma directs_one: "bag_of wb = {# (pub, Some peer, t) #} \<Longrightarrow> directs wb pub (the (pe_Conn peer))"
proof -
  assume b: "bag_of wb = {# (pub, Some peer, t) #}"
  have "\<forall>e \<in> set (all_entries wb). (pn_Id e, pn_Peer e, pn_Seen e) \<in># bag_of wb" by (simp add: bag_of_def)
  moreover have "all_entries wb \<noteq> []" using b by (auto simp: bag_of_def)
  ultimately show ?thesis using b by (cases "all_entries wb") (auto simp: directs_def entry_addr_def)
qed

text \<open>A node that knows one other.\<close>

lemma meets:
  assumes "participant L x ix X" and "participant L y iy Y" and "wb_PeerCache X = Map.empty" and "bag_of X = {#}"
  shows "\<exists>X'. wb_Self X' = wb_Self X \<and> wb_PeerSelf X' = wb_PeerSelf X \<and> wf_wb (self_key X) X' \<and>
    directs X' (pe_SignPub (wb_PeerSelf Y)) y \<and> wb_Parties X' = wb_Parties X \<and> wb_PendingInvites X' = wb_PendingInvites X"
proof -
  have X: "wf_wb (self_key X) X" and Y: "peer_ok (Some (peer_at Y))" using assms(1,2) by (simp_all add: participant_def peer_ok_def)
  from addPeer_bag [OF X Y, of 0 0] obtain X' where r: "addPeer 0 (peer_at Y) 0 X = Ret X'" "wf_wb (self_key X) X'"
      "bag_of X' = {# (pe_SignPub (wb_PeerSelf Y), Some (peer_at Y), 0) #}"
    using assms(3,4) by (auto simp: is_connected_def connected_def)
  have "wb_Parties X' = wb_Parties X \<and> wb_PendingInvites X' = wb_PendingInvites X"
    using r(1) by (auto simp: addPeer_def Let_def chatStatus_def elim!: bindE split: if_splits)
  moreover have "pe_Address (wb_PeerSelf Y) = y" using assms(2) by (simp add: participant_def)
  ultimately show ?thesis using r directs_one [OF r(3)] addPeer_out [OF r(1)] by auto
qed

lemma with_parties [simp]:
  "participant L x ix (X\<lparr>wb_Parties := ps\<rparr>) \<longleftrightarrow> participant L x ix X" "self_key (X\<lparr>wb_Parties := ps\<rparr>) = self_key X"
  "directs (X\<lparr>wb_Parties := ps\<rparr>) pub addr \<longleftrightarrow> directs X pub addr"
  by (simp_all add: participant_def self_key_def directs_def all_entries_def signs_def signed_def wf_wb_def)

lemma two_nodes:
  assumes "\<And>d k. l_verify L d k" and "\<And>m k. l_sign L m k = m" and "l_sigSize L = 0" and "\<And>a. l_dial L a"
  shows "\<exists>A B. participant L ''a'' (meet_id key_a) A \<and> participant L ''b'' (meet_id key_b) B \<and> self_key A \<noteq> self_key B \<and>
    directs A (pe_SignPub (wb_PeerSelf B)) ''b'' \<and> directs B (pe_SignPub (wb_PeerSelf A)) ''a'' \<and>
    wb_Parties B = [] \<and> wb_PendingInvites B = []"
proof -
  let ?A = "meet_node key_a ''a''" and ?B = "meet_node key_b ''b''"
  have p: "participant L ''a'' (meet_id key_a) ?A" "participant L ''b'' (meet_id key_b) ?B"
    by (rule meet_participant; simp add: assms)+
  obtain A where A: "wb_Self A = wb_Self ?A" "wb_PeerSelf A = wb_PeerSelf ?A" "wf_wb (self_key ?A) A"
      "directs A (pe_SignPub (wb_PeerSelf ?B)) ''b''"
    using meets [OF p] by (auto simp: meet_node_simps)
  obtain B where B: "wb_Self B = wb_Self ?B" "wb_PeerSelf B = wb_PeerSelf ?B" "wf_wb (self_key ?B) B"
      "directs B (pe_SignPub (wb_PeerSelf ?A)) ''a''" "wb_Parties B = []" "wb_PendingInvites B = []"
    using meets [OF p(2,1)] by (auto simp: meet_node_simps) (simp add: meet_node_def empty_wb_def zero_wb_def)
  have "self_key A \<noteq> self_key B" using SetBytes_inj [of key_a key_b] by (auto simp: self_key_def A B meet_node_simps)
  with A B self_cong(7) [OF A(1,2,3) p(1)] self_cong(7) [OF B(1,2,3) p(2)] show ?thesis
    by (intro exI [of _ A] exI [of _ B]) simp
qed

definition join_pid :: string where
  "join_pid = replicate 32 CHR ''p''"

lemma join_pid_valid: "valid_party_id join_pid"
  by (simp add: join_pid_def valid_party_id_def alphanum_def list_all_iff)

definition join_party :: PartyLine where
  "join_party = \<lparr>pl_MinList = \<lparr>ml_Map = Some [(meet_id key_a, 0)], ml_Mutex = True\<rparr>, pl_Id = join_pid,
     pl_SeenChats = Map.empty, pl_Packs = []\<rparr>"

definition join_lib :: "lib \<Rightarrow> lib" where
  "join_lib L = L\<lparr>l_verify := \<lambda>_ _. True, l_sign := \<lambda>m _. m, l_sigSize := 0, l_dial := \<lambda>_. True, l_keys := \<lambda>ks. ks,
     l_open := \<lambda>m _ _. Some m, l_seal := \<lambda>m _ _. m, l_ofParty := \<lambda>_. Some [], l_toParty := \<lambda>_. Some join_party,
     l_ofPartyAnnounce := \<lambda>_. Some [], l_toPartyAnnounce := \<lambda>_. Some \<lparr>pa_PeerId = meet_id key_b, pa_PartyId = join_pid\<rparr>,
     l_ofPartyEnvelope := \<lambda>pe. Some (pv_From pe), l_toPartyEnvelope := \<lambda>q. Some (announce_env q join_pid []),
     l_ofEnvelope := \<lambda>e. Some (if env_Type e = ''invite'' then ''0'' else if env_To e = meet_id key_a then ''1'' else ''2''),
     l_toEnvelope := \<lambda>j. Some (if j = line ''0''
       then (mk_env ''invite'' (meet_id key_a) (meet_id key_b))\<lparr>env_Time := 1\<rparr>
       else if j = line ''1''
       then (mk_env ''party'' (meet_id key_b) (meet_id key_a))\<lparr>env_Data := meet_id key_b, env_Time := 2\<rparr>
       else (mk_env ''party'' (meet_id key_a) (meet_id key_b))\<lparr>env_Data := meet_id key_a, env_Time := 3\<rparr>)\<rparr>"

lemma meet_id_inj: "meet_id x = meet_id y \<longleftrightarrow> x = y"
  by (auto simp: meet_id_def id_string_eq)

theorem invite_joins_witness:
  "\<forall>L. \<exists>A A1 A2 B B1 B2 B3. SendInvite (join_lib L) 1 join_party (Peer_Min (wb_PeerSelf B)) A = Ret A1 \<and>
    processMessage (join_lib L) 1 (line ''0'') B = Ret B1 \<and> AcceptInvite (join_lib L) 2 join_pid B1 = Ret B2 \<and>
    processMessage (join_lib L) 3 (line ''1'') A1 = Ret A2 \<and> processMessage (join_lib L) 4 (line ''2'') B2 = Ret B3 \<and>
    members A2 join_pid = {meet_id key_a, meet_id key_b} \<and> members B3 join_pid = {meet_id key_a, meet_id key_b}"
proof
  fix L :: lib
  let ?L = "join_lib L"
  obtain A B where p: "participant ?L ''a'' (meet_id key_a) A" "participant ?L ''b'' (meet_id key_b) B" "self_key A \<noteq> self_key B"
      "directs A (pe_SignPub (wb_PeerSelf B)) ''b''" "directs B (pe_SignPub (wb_PeerSelf A)) ''a''"
      "wb_Parties B = []" "wb_PendingInvites B = []"
    using two_nodes [of ?L] by (auto simp: join_lib_def)
  let ?A' = "A\<lparr>wb_Parties := [(join_pid, join_party)]\<rparr>"
  have ps: "participant ?L ''a'' (meet_id key_a) ?A'" and keys: "self_key ?A' \<noteq> self_key B"
    and d: "directs ?A' (pe_SignPub (wb_PeerSelf B)) ''b''" "directs B (pe_SignPub (wb_PeerSelf ?A')) ''a''"
    using p by simp_all
  have law: "opens ?L ?A' B" "opens ?L B ?A'" "each_once ?L" "announces ?L (meet_id key_b) join_pid []"
    by (simp_all add: opens_def each_once_def announces_def join_lib_def)
  have inv: "invites ?L 1 join_party ?A' (meet_id key_a) B (meet_id key_b) ''0''"
    by (simp add: invites_def mails_def join_lib_def mk_env_def)
  have post: "posts ?L 2 (announce_env (meet_id key_b) join_pid (signed ?L [] B)) B (meet_id key_b) ?A' (meet_id key_a) ''1''"
    "posts ?L 3 (announce_env (meet_id key_a) join_pid (signed ?L [] B)) ?A' (meet_id key_a) B (meet_id key_b) ''2''"
    by (simp_all add: posts_def mails_def sealed_env_def timed_def join_lib_def mk_env_def announce_env_def signed_def
        meet_id_inj line_def key_ab(3) [symmetric])
  have party: "map_get (wb_Parties ?A') join_pid = Some join_party" "pl_Id join_party = join_pid"
    "pl_MinList join_party = \<lparr>ml_Map = Some [(meet_id key_a, 0)], ml_Mutex = True\<rparr>"
    "map_get (wb_PendingInvites B) join_pid = None" "map_get (wb_Parties B) join_pid = None"
    by (simp_all add: join_party_def p)
  have t: "(1 :: int) \<noteq> 0" "(2 :: int) \<noteq> 0" "(3 :: int) \<noteq> 0" by simp_all
  from invite_joins [OF ps p(2) keys d law(1,2,3) party(1,2) join_pid_valid party(3,4,5) inv law(4) post t, of 1 4]
  show "\<exists>A A1 A2 B B1 B2 B3. SendInvite ?L 1 join_party (Peer_Min (wb_PeerSelf B)) A = Ret A1 \<and>
    processMessage ?L 1 (line ''0'') B = Ret B1 \<and> AcceptInvite ?L 2 join_pid B1 = Ret B2 \<and>
    processMessage ?L 3 (line ''1'') A1 = Ret A2 \<and> processMessage ?L 4 (line ''2'') B2 = Ret B3 \<and>
    members A2 join_pid = {meet_id key_a, meet_id key_b} \<and> members B3 join_pid = {meet_id key_a, meet_id key_b}"
    by (elim exE conjE) (intro exI conjI; assumption)
qed

definition talk_party :: PartyLine where
  "talk_party = join_party\<lparr>pl_MinList := \<lparr>ml_Map = Some [(meet_id key_a, 0), (meet_id key_b, 0)], ml_Mutex = True\<rparr>\<rparr>"

definition talk_lib :: "lib \<Rightarrow> lib" where
  "talk_lib L = (join_lib L)\<lparr>l_ofPartyChat := \<lambda>_. Some [],
     l_toPartyChat := \<lambda>_. Some \<lparr>pc_PeerId = meet_id key_a, pc_PartyId = join_pid, pc_Message = ''hi'', pc_Time = 5\<rparr>,
     l_toPartyEnvelope := \<lambda>q. Some (chat_env q join_pid []),
     l_toEnvelope := \<lambda>_. Some ((mk_env ''party'' (meet_id key_a) (meet_id key_b))
       \<lparr>env_Data := meet_id key_a, env_Time := 5\<rparr>)\<rparr>"

theorem party_chat_delivered_witness:
  "\<forall>L. \<exists>A B A1 B1. Party_SendChat (talk_lib L) 5 talk_party ''hi'' A = Ret A1 \<and>
    processMessage (talk_lib L) 6 (line ''2'') B = Ret B1 \<and> chats_of (wb_out B1) = chats_of (wb_out B) @
      [\<lparr>ch_Time = 6, ch_Id = meet_id key_a, ch_Channel = join_pid, ch_Message = ''hi''\<rparr>]"
proof
  fix L :: lib
  let ?L = "talk_lib L" and ?ms = "[(meet_id key_a, 0 :: int), (meet_id key_b, 0)]"
  obtain A B where p: "participant ?L ''a'' (meet_id key_a) A" "participant ?L ''b'' (meet_id key_b) B" "self_key A \<noteq> self_key B"
      "directs A (pe_SignPub (wb_PeerSelf B)) ''b''"
    using two_nodes [of ?L] by (auto simp: talk_lib_def join_lib_def)
  let ?B = "B\<lparr>wb_Parties := [(join_pid, talk_party)]\<rparr>"
  have b: "participant ?L ''b'' (meet_id key_b) ?B" "self_key A \<noteq> self_key ?B" "directs A (pe_SignPub (wb_PeerSelf ?B)) ''b''"
    using p by simp_all
  have law: "opens ?L A ?B" "each_once ?L" "ids_ok ?L (set (map_keys ?ms))"
    using participant_id [OF p(1)] participant_id [OF p(2)]
    by (simp_all add: opens_def each_once_def ids_ok_def talk_lib_def join_lib_def)
  have pl: "pl_MinList talk_party = \<lparr>ml_Map = Some ?ms, ml_Mutex = True\<rparr>" "pl_Id talk_party = join_pid"
    "map_get (wb_Parties ?B) join_pid = Some talk_party" "distinct (map_keys ?ms)"
    "meet_id key_a \<in> set (map_keys ?ms)" "meet_id key_b \<in> set (map_keys ?ms)"
    "pl_SeenChats talk_party (meet_id key_a @ ''.'' @ l_timeString ?L 5) = None"
    by (simp_all add: talk_party_def join_party_def meet_id_inj)
  have ring: "\<forall>x < length ?ms. sort (map_keys ?ms) ! x = meet_id key_a \<longrightarrow> meet_id key_b \<in> ring_neighbors (sort (map_keys ?ms)) x"
    using two_ring [of "sort (map_keys ?ms)"] by simp
  have json: "says ?L (meet_id key_a) join_pid ''hi'' 5 []"
    "posts ?L 5 (chat_env (meet_id key_a) join_pid (signed ?L [] A)) A (meet_id key_a) ?B (meet_id key_b) ''2''"
    by (simp_all add: says_def posts_def mails_def sealed_env_def timed_def talk_lib_def join_lib_def mk_env_def chat_env_def
        signed_def meet_id_inj key_ab(3) [symmetric] Let_def)
  have t: "(5 :: int) \<noteq> 0" by simp
  from party_chat_delivered [OF p(1) b law(1,2) pl(1,4) law(3) ring pl(5,2,3,2,1,4) law(3) pl(6,7) json t, of 6 7]
  show "\<exists>A B A1 B1. Party_SendChat ?L 5 talk_party ''hi'' A = Ret A1 \<and> processMessage ?L 6 (line ''2'') B = Ret B1 \<and>
      chats_of (wb_out B1) = chats_of (wb_out B) @ [\<lparr>ch_Time = 6, ch_Id = meet_id key_a, ch_Channel = join_pid, ch_Message = ''hi''\<rparr>]"
    by (elim exE conjE) (intro exI conjI; assumption)
qed

end
