(* ===== verification/Delivery.thy ===== *)
theory Delivery
  imports JoinParty
begin

text \<open>
  A file on its way from one member of a party to another, from the handlers and goroutines of both nodes:
  \<open>FileRequester\<close> and \<open>ProcessRequest\<close>, then as many rounds of \<open>RequestSender\<close>, \<open>ProcessFulfillment\<close> and
  \<open>VerifiedBlockWriter\<close> as the file has blocks, all within the six seconds for which a request is served.
  Each datagram that one node writes to the address of the other is handed to the other's \<open>processMessage\<close>.
  A round of the nodes implements a step \<open>transfers\<close> of the exchange between file infos (theory \<open>Download\<close>).
\<close>

section \<open>What the exchange relies on\<close>

definition file_env :: "string \<Rightarrow> string \<Rightarrow> string \<Rightarrow> bytes \<Rightarrow> PartyEnvelope" where
  "file_env type from pid dat = \<lparr>pv_Type = type, pv_From = from, pv_PartyId = pid, pv_Data = dat\<rparr>"

text \<open>The JSON \<open>k\<close> is the request.\<close>

definition asks :: "lib \<Rightarrow> PartyRequest \<Rightarrow> string \<Rightarrow> bool" where
  "asks L request k \<longleftrightarrow> l_ofRequest L request = Some k \<and> l_toRequest L k = Some request"

text \<open>Every block of the file can be sent by \<open>A\<close> to \<open>B\<close> at any of the times.\<close>

definition fulfills :: "lib \<Rightarrow> int set \<Rightarrow> string \<Rightarrow> string \<Rightarrow> string \<Rightarrow> bytes \<Rightarrow> WhiteBox \<Rightarrow> string \<Rightarrow> WhiteBox \<Rightarrow> string \<Rightarrow> bool" where
  "fulfills L T pid h fh C A ia B ib \<longleftrightarrow> (\<forall>i \<le> last_index C. \<exists>k.
     let m = \<lparr>fl_PeerId = ia, fl_PackHash = h, fl_FileHash = fh, fl_PartyId = pid, fl_Block = gblock (l_sha L) C i\<rparr> in
     l_ofFulfillment L m = Some k \<and> l_toFulfillment L k = Some m \<and>
     (\<forall>t \<in> T. \<exists>j. posts L t (file_env ''fulfillment'' ia pid (signed L k A)) A ia B ib j))"

lemma single_key: "each_once L \<Longrightarrow> l_keys L [x] = [x]"
  unfolding each_once_def by (metis mset_single_iff_right mset.simps add_mset_remove_trivial mset_zero_iff)

section \<open>The two nodes\<close>

text \<open>The two members of the party, as one of them lists them.\<close>

definition pair_party :: "string \<Rightarrow> string \<Rightarrow> string \<Rightarrow> PartyLine \<Rightarrow> bool" where
  "pair_party pid ia ib party \<longleftrightarrow> pl_Id party = pid \<and> (\<exists>ms. pl_MinList party = \<lparr>ml_Map = Some ms, ml_Mutex = True\<rparr> \<and>
     distinct (map_keys ms) \<and> set (map_keys ms) = {ia, ib})"

text \<open>The holder: a member whose pack \<open>h\<close> has the file, complete and readable.\<close>

definition offers :: "lib \<Rightarrow> bytes \<Rightarrow> PackFileInfo \<Rightarrow> string \<Rightarrow> string \<Rightarrow> string \<Rightarrow> string \<Rightarrow> string \<Rightarrow> WhiteBox \<Rightarrow> bool" where
  "offers L C spfi pid h fh ia ib A \<longleftrightarrow> (\<exists>party pack fa. map_get (wb_Parties A) pid = Some party \<and>
     pair_party pid ia ib party \<and> map_get (pl_Packs party) h = Some pack \<and> pk_State pack \<noteq> AVAILABLE \<and>
     GetFileInfo (wb_Files A) (pk_Files pack) fh = Ret (Some fa) \<and> wb_Files A fa = Some spfi \<and>
     serves (l_sha L) C (wb_Disk A) spfi)"

text \<open>The requester: its one pack is active, its one file has \<open>k\<close> blocks, the coverage is \<open>cov\<close>.\<close>

definition fetches :: "lib \<Rightarrow> bytes \<Rightarrow> PackFileInfo \<Rightarrow> string \<Rightarrow> string \<Rightarrow> string \<Rightarrow> string \<Rightarrow> string \<Rightarrow> nat \<Rightarrow>
    u64 list \<Rightarrow> WhiteBox \<Rightarrow> bool" where
  "fetches L C pfi0 pid h fh ia ib k cov B \<longleftrightarrow> (\<exists>party pack fb pfi. wb_Parties B = [(pid, party)] \<and>
     pair_party pid ia ib party \<and> pl_Packs party = [(h, pack)] \<and> pk_State pack = ACTIVE \<and> pk_Files pack = [Some fb] \<and>
     wb_Files B fb = Some pfi \<and> pf_Hash pfi = fh \<and> cov_words pfi = cov \<and> wb_VerifiedBlockChan B = [] \<and>
     exchange_inv (l_sha L) C k pfi0 (wb_Disk B, pfi))"

text \<open>The request that the holder has queued, served until \<open>lim\<close>.\<close>

definition queued :: "string \<Rightarrow> string \<Rightarrow> string \<Rightarrow> string \<Rightarrow> int \<Rightarrow> u64 list \<Rightarrow> WhiteBox \<Rightarrow> bool" where
  "queued pid h fh ib lim cov A \<longleftrightarrow> wb_RequestChan A =
     [\<lparr>rq_PeerId = ib, rq_PackHash = h, rq_FileHash = fh, rq_Coverage = cov, rq_Time = lim, rq_PartyId = pid\<rparr>]"

lemma pair_party_put:
  assumes "pair_party pid ia ib party" and "i \<in> {ia, ib}"
  obtains ms where "pl_MinList party = \<lparr>ml_Map = Some ms, ml_Mutex = True\<rparr>"
    "pair_party pid ia ib (party\<lparr>pl_MinList := \<lparr>ml_Map = Some (map_put i 0 ms), ml_Mutex = True\<rparr>\<rparr>)"
proof -
  from assms(1) obtain ms where ms: "pl_Id party = pid" "pl_MinList party = \<lparr>ml_Map = Some ms, ml_Mutex = True\<rparr>"
      "distinct (map_keys ms)" "set (map_keys ms) = {ia, ib}" by (auto simp: pair_party_def)
  have "set (map_keys (map_put i 0 ms)) = {ia, ib}" unfolding map_put_keys ms(4) using assms(2) by auto
  moreover have "distinct (map_keys (map_put i 0 ms))" by (rule gm.wf_put [OF ms(3)])
  ultimately have "pair_party pid ia ib (party\<lparr>pl_MinList := \<lparr>ml_Map = Some (map_put i 0 ms), ml_Mutex = True\<rparr>\<rparr>)"
    using ms(1) by (simp add: pair_party_def)
  with ms(2) show thesis by (rule that)
qed

text \<open>A member of a party of two writes to the other one whatever it sends to its neighbours.\<close>

lemma pair_sends:
  assumes X: "participant L x ix X" and Y: "participant L y iy Y" and ne: "self_key X \<noteq> self_key Y"
    and d: "directs X (pe_SignPub (wb_PeerSelf Y)) y" and once: "each_once L"
    and p: "pair_party pid ia ib party" and ids: "{ix, iy} = {ia, ib}"
  shows "\<exists>out. sendToNeighbors L t party typ dat X = Ret (X\<lparr>wb_out := wb_out X @ out\<rparr>) \<and>
    (\<forall>j. posts L t (file_env typ ix pid dat) X ix Y iy j \<longrightarrow> WriteOut y (line j) \<in> set out)"
proof -
  from p obtain ms where ms: "pl_Id party = pid" "pl_MinList party = \<lparr>ml_Map = Some ms, ml_Mutex = True\<rparr>"
      "distinct (map_keys ms)" "set (map_keys ms) = {ix, iy}" unfolding ids by (auto simp: pair_party_def)
  have wf: "wf_wb (self_key X) X" "Peer_Id (wb_PeerSelf X) = Ret ix" using X by (simp_all add: participant_def)
  have "ids_ok L (set (map_keys ms))" unfolding ms(4) using participant_id [OF X] participant_id [OF Y] by (simp add: ids_ok_def)
  moreover have "ix \<in> set (map_keys ms)" unfolding ms(4) by simp
  ultimately obtain i out where
    o: "i < length ms" "sendToNeighbors L t party typ dat X = Ret (X\<lparr>wb_out := wb_out X @ out\<rparr>)"
      "reaches L t (file_env typ ix pid dat) X ix (ring_neighbors (sort (map_keys ms)) i) out"
    using sendToNeighbors_run [OF wf once ms(2,3), of t "typ" dat] unfolding file_env_def ms(1) by blast
  have "ix \<noteq> iy" using participant_id [OF X] participant_id [OF Y] ne by (auto simp: self_key_def Peer_Min_def)
  then have two: "length ms = 2" using distinct_card [OF ms(3)] ms(4) by simp
  have "ring_neighbors (sort (map_keys ms)) i = set (map_keys ms)"
    using two_ring [of "sort (map_keys ms)" i] two o(1) by simp
  with o(2,3) Y ne d ms(4) show ?thesis unfolding reaches_def by (intro exI [of _ out]) blast
qed

section \<open>Asking\<close>

lemma exchange_inv_partial:
  assumes "exchange_inv sha C k pfi0 (dsk, pfi)" and "k < nblocks (pf_Size pfi0)" and "0 \<le> sint (pf_Size pfi0)"
  shows "isFullCoverage (pf_Size pfi) (pf_Coverage pfi) = Ret False"
proof -
  from assms(1) obtain S where h: "holds sha C S pfi" and S: "card S = k" and sz: "pf_Size pfi = pf_Size pfi0"
    by (auto simp: exchange_inv_def)
  have "S \<noteq> {..<nblocks (pf_Size pfi)}" using S assms(2) sz by auto
  moreover have "0 \<le> sint (pf_Size pfi)" using assms(3) sz by simp
  ultimately show ?thesis
    using h isFullCoverage_eq [of "pf_Size pfi" "cov_words pfi"]
    by (cases "pf_Coverage pfi") (simp_all add: holds_def cov_words_def)
qed

text \<open>One round of \<open>FileRequester\<close> on a node with one party, which has one active pack of one file.\<close>

lemma FileRequester_one:
  assumes once: "each_once L" and B: "wb_Parties B = [(pid, party)]" and p: "pl_Packs party = [(h, pack)]" "pk_State pack = ACTIVE"
  shows "FileRequester L t B = map_option (\<lambda>(pack, wb). wb\<lparr>wb_Parties := map_put pid
      (party\<lparr>pl_Packs := [(h, pack)]\<rparr>) (wb_Parties wb)\<rparr>) (SendRequests L t party h pack B)"
  by (simp add: FileRequester_def B p single_key [OF once] request_pack_def map_option_case
      split: Option.bind_split option.split prod.split)

lemma requester_asks:
  assumes A: "participant L a ia A" and B: "participant L b ib B" and ne: "self_key A \<noteq> self_key B"
    and d: "directs B (pe_SignPub (wb_PeerSelf A)) a" and once: "each_once L"
    and f: "fetches L C pfi0 pid h fh ia ib k cov B" and k: "k < nblocks (pf_Size pfi0)" "0 \<le> sint (pf_Size pfi0)"
    and json: "asks L \<lparr>rq_PeerId = ib, rq_PackHash = h, rq_FileHash = fh, rq_Coverage = cov, rq_Time = t, rq_PartyId = pid\<rparr> kr"
  shows "\<exists>out. FileRequester L t B = Ret (B\<lparr>wb_out := wb_out B @ out\<rparr>) \<and>
    (\<forall>j. posts L t (file_env ''request'' ib pid (signed L kr B)) B ib A ia j \<longrightarrow> WriteOut a (line j) \<in> set out)"
proof -
  from f obtain party pack fb pfi where B1: "wb_Parties B = [(pid, party)]" "pair_party pid ia ib party"
      "pl_Packs party = [(h, pack)]" "pk_State pack = ACTIVE" "pk_Files pack = [Some fb]"
      "wb_Files B fb = Some pfi" "pf_Hash pfi = fh" "cov_words pfi = cov"
      "exchange_inv (l_sha L) C k pfi0 (wb_Disk B, pfi)" by (auto simp: fetches_def)
  have "{ib, ia} = {ia, ib}" by auto
  from pair_sends [OF B A ne [symmetric] d once B1(2) this, of t "''request''" "signed L kr B"] obtain out where
    o: "sendToNeighbors L t party ''request'' (signed L kr B) B = Ret (B\<lparr>wb_out := wb_out B @ out\<rparr>)"
      "\<forall>j. posts L t (file_env ''request'' ib pid (signed L kr B)) B ib A ia j \<longrightarrow> WriteOut a (line j) \<in> set out" by blast
  have "SendRequest L t party h pfi B = Ret (B\<lparr>wb_out := wb_out B @ out\<rparr>)"
    using B json o(1) B1(2,7,8) by (simp add: SendRequest_def participant_def asks_def pair_party_def)
  then have "SendRequests L t party h pack B = Ret (pack, B\<lparr>wb_out := wb_out B @ out\<rparr>)"
    by (simp add: SendRequests_def B1(5,6) deref_def exchange_inv_partial [OF B1(9) k])
  moreover have "party\<lparr>pl_Packs := [(h, pack)]\<rparr> = party" by (simp flip: B1(3))
  moreover have "B\<lparr>wb_out := x, wb_Parties := [(pid, party)]\<rparr> = B\<lparr>wb_out := x\<rparr>" for x
    unfolding B1(1) [symmetric] by simp
  ultimately have "FileRequester L t B = Ret (B\<lparr>wb_out := wb_out B @ out\<rparr>)"
    by (simp add: FileRequester_one [OF once B1(1,3,4)] B1(1))
  with o(2) show ?thesis by blast
qed

text \<open>A complete file makes the pack complete.\<close>

lemma requester_completes:
  assumes "each_once L" and "fetches L C pfi0 pid h fh ia ib (nblocks (pf_Size pfi0)) cov B" and "0 \<le> sint (pf_Size pfi0)"
  shows "\<exists>B' party pack. FileRequester L t B = Ret B' \<and> wb_Disk B' = wb_Disk B \<and>
    map_get (wb_Parties B') pid = Some party \<and> map_get (pl_Packs party) h = Some pack \<and> pk_State pack = COMPLETE"
proof -
  from assms(2) obtain party pack fb pfi where B1: "wb_Parties B = [(pid, party)]"
      "pl_Packs party = [(h, pack)]" "pk_State pack = ACTIVE" "pk_Files pack = [Some fb]" "wb_Files B fb = Some pfi"
      "exchange_inv (l_sha L) C (nblocks (pf_Size pfi0)) pfi0 (wb_Disk B, pfi)" by (auto simp: fetches_def)
  have "SendRequests L t party h pack B = Ret (pack\<lparr>pk_State := COMPLETE\<rparr>, B)"
    by (simp add: SendRequests_def B1(4,5) deref_def exchange_inv_full(2) [OF B1(6) assms(3)])
  then show ?thesis
    by (simp add: FileRequester_one [OF assms(1) B1(1,2,3)] B1(1))
qed

text \<open>The holder queues the request.\<close>

definition request_key :: "lib \<Rightarrow> string \<Rightarrow> string \<Rightarrow> string \<Rightarrow> string \<Rightarrow> string" where
  "request_key L ib pid h fh = sha256Bytes (l_sha L) (ib @ pid @ h @ fh)"

lemma request_queued:
  assumes A: "participant L a ia A" and B: "participant L b ib B" and ne: "self_key A \<noteq> self_key B"
    and d: "directs A (pe_SignPub (wb_PeerSelf B)) b" and op: "opens L B A" and once: "each_once L"
    and off: "offers L C spfi pid h fh ia ib A" and free: "wb_RequestChan A = []" "wb_FreshRequests A (request_key L ib pid h fh) = None"
    and json: "asks L \<lparr>rq_PeerId = ib, rq_PackHash = h, rq_FileHash = fh, rq_Coverage = cov, rq_Time = t, rq_PartyId = pid\<rparr> kr"
    and post: "posts L t (file_env ''request'' ib pid (signed L kr B)) B ib A ia j" and t: "t \<noteq> 0"
  shows "\<exists>A'. processMessage L now (line j) A = Ret A' \<and> offers L C spfi pid h fh ia ib A' \<and>
    queued pid h fh ib (now + 6 * 10 ^ 9) cov A' \<and> wb_Self A' = wb_Self A \<and> wb_PeerSelf A' = wb_PeerSelf A \<and>
    wf_wb (self_key A) A' \<and> wb_PeerTable A' = wb_PeerTable A"
proof -
  let ?pe = "file_env ''request'' ib pid (signed L kr B)"
    and ?r = "\<lparr>rq_PeerId = ib, rq_PackHash = h, rq_FileHash = fh, rq_Coverage = cov, rq_Time = t, rq_PartyId = pid\<rparr>"
  from off obtain party pack fa where o: "map_get (wb_Parties A) pid = Some party" "pair_party pid ia ib party"
      "map_get (pl_Packs party) h = Some pack" "pk_State pack \<noteq> AVAILABLE"
      "GetFileInfo (wb_Files A) (pk_Files pack) fh = Ret (Some fa)" "wb_Files A fa = Some spfi"
      "serves (l_sha L) C (wb_Disk A) spfi" by (auto simp: offers_def)
  have ids: "Peer_Id (wb_PeerSelf A) = Ret ia" "Peer_Id (wb_PeerSelf B) = Ret ib" "wf_wb (self_key A) A" "pl_Id party = pid"
    using A B o(2) by (simp_all add: participant_def pair_party_def)
  from pair_sends [OF A B ne d once o(2) refl, of now "''request''" "signed L kr B"] obtain out where
    out: "sendToNeighbors L now party ''request'' (signed L kr B) A = Ret (A\<lparr>wb_out := wb_out A @ out\<rparr>)" by blast
  have msg: "party_message L ''request'' (l_toRequest L) rq_PeerId (\<lambda>_. pid) [] pid (signed L kr B) A =
      Ret (Inr (?r, Peer_Min (wb_PeerSelf B)))"
    using json by (intro party_message_ok [OF B]) (simp_all add: asks_def)
  have mid: "MinPeer_Id (Peer_Min (wb_PeerSelf B)) = Ret ib" using ids(2) by (simp add: Peer_Id_eq_Min)
  let ?A = "A\<lparr>wb_out := wb_out A @ out, wb_FreshRequests := (wb_FreshRequests A)
      (request_key L ib pid h fh \<mapsto> \<lparr>si_Received = now, si_Reported = t\<rparr>), wb_RequestChan := [?r\<lparr>rq_Time := now + 6 * 10 ^ 9\<rparr>]\<rparr>"
  have "dispatch_party L now ?pe party A = Ret (party, ?A)"
    using msg mid out o(3-5) free ids(4)
    by (simp add: dispatch_party_def file_env_def ProcessRequest_def request_key_def Let_def)
  moreover obtain ms where ms: "pl_MinList party = \<lparr>ml_Map = Some ms, ml_Mutex = True\<rparr>"
      "pair_party pid ia ib (party\<lparr>pl_MinList := \<lparr>ml_Map = Some (map_put ib 0 ms), ml_Mutex = True\<rparr>\<rparr>)"
    by (rule pair_party_put [OF o(2), of ib]) simp
  ultimately have run: "processMessage L now (line j) A = Ret (?A\<lparr>wb_Parties := map_put pid
      (party\<lparr>pl_MinList := \<lparr>ml_Map = Some (map_put ib 0 ms), ml_Mutex = True\<rparr>\<rparr>) (wb_Parties ?A)\<rparr>)"
    using party_received [OF B ids(1) op post t _ _ _ _ ms(1), of party now ?A] o(1) by (simp add: file_env_def)
  show ?thesis
    by (rule exI, rule conjI [OF run])
      (use o ms(2) ids(3) in \<open>simp add: offers_def queued_def map_simps wf_wb_def\<close>)
qed

section \<open>Delivering a block\<close>

text \<open>
  One block: \<open>RequestSender\<close> of the holder takes the request, chooses a block and writes it to the requester
  at \<open>b\<close>, whose handler verifies it and whose \<open>VerifiedBlockWriter\<close> writes it to disk.
\<close>

definition delivery_round :: "lib \<Rightarrow> string \<Rightarrow> int \<Rightarrow> WhiteBox \<times> WhiteBox \<Rightarrow> WhiteBox \<times> WhiteBox \<Rightarrow> bool" where
  "delivery_round L b t st st' \<longleftrightarrow> (\<exists>j out B1. RequestSender L t (fst st) = Ret (True, fst st') \<and>
     wb_out (fst st') = wb_out (fst st) @ out \<and> WriteOut b (line j) \<in> set out \<and>
     processMessage L t (line j) (snd st) = Ret B1 \<and> wb_VerifiedBlockWriter NoFault B1 = Ret (snd st'))"

fun deliveries :: "lib \<Rightarrow> string \<Rightarrow> int list \<Rightarrow> WhiteBox \<times> WhiteBox \<Rightarrow> WhiteBox \<times> WhiteBox \<Rightarrow> bool" where
  "deliveries L b [] st st' \<longleftrightarrow> st' = st"
| "deliveries L b (t # ts) st st' \<longleftrightarrow> (\<exists>st1. delivery_round L b t st st1 \<and> deliveries L b ts st1 st')"

text \<open>A message sealed for one member is written to it.\<close>

lemma send_sealed_one:
  assumes X: "participant L x ix X" and Y: "participant L y iy Y" and ne: "self_key X \<noteq> self_key Y"
    and d: "directs X (pe_SignPub (wb_PeerSelf Y)) y" and post: "posts L t pe X ix Y iy j"
    and q: "l_ofPartyEnvelope L pe = Some q"
  shows "\<exists>out. send_sealed L t (mk_env ''party'' ix iy) q iy X = Ret (X\<lparr>wb_out := wb_out X @ out\<rparr>) \<and>
    WriteOut y (line j) \<in> set out"
proof -
  have wf: "wf_wb (self_key X) X" using X by (simp add: participant_def)
  have "ids_ok L (set [iy])" using participant_id [OF Y] by (simp add: ids_ok_def)
  from send_sealed_reaches [OF wf this q, of t ix] obtain out where
    o: "ofold (send_sealed L t (mk_env ''party'' ix []) q) [iy] X = Ret (X\<lparr>wb_out := wb_out X @ out\<rparr>)"
      "reaches L t pe X ix (set [iy]) out" by blast
  have "(mk_env ''party'' ix iy)\<lparr>env_Data := dat, env_To := iy\<rparr> = (mk_env ''party'' ix [])\<lparr>env_Data := dat, env_To := iy\<rparr>" for dat
    by (simp add: mk_env_def)
  then have "send_sealed L t (mk_env ''party'' ix iy) q iy X = send_sealed L t (mk_env ''party'' ix []) q iy X"
    by (simp only: send_sealed_def)
  also have "\<dots> = Ret (X\<lparr>wb_out := wb_out X @ out\<rparr>)" using o(1) by (simp add: bind_eq_Some_conv)
  finally show ?thesis using o(2) Y ne d post unfolding reaches_def by (intro exI [of _ out]) simp
qed

text \<open>The holder's side of a round.\<close>

lemma holder_sends:
  assumes A: "participant L a ia A" and B: "participant L b ib B" and ne: "self_key A \<noteq> self_key B"
    and d: "directs A (pe_SignPub (wb_PeerSelf B)) b" and off: "offers L C spfi pid h fh ia ib A"
    and queue: "queued pid h fh ib lim cov A" and lim: "t \<le> lim" and t: "t \<in> T"
    and tr: "transfers (l_sha L) C (wb_Disk A) spfi (l_rnd L) st i st'" and cov: "cov_words (snd st) = cov" and i: "i \<le> last_index C"
    and laws: "fulfills L T pid h fh C A ia B ib"
  shows "\<exists>A' k j out. RequestSender L t A = Ret (True, A') \<and> wb_out A' = wb_out A @ out \<and> WriteOut b (line j) \<in> set out \<and>
    l_toFulfillment L k = Some \<lparr>fl_PeerId = ia, fl_PackHash = h, fl_FileHash = fh, fl_PartyId = pid,
      fl_Block = gblock (l_sha L) C i\<rparr> \<and> posts L t (file_env ''fulfillment'' ia pid (signed L k A)) A ia B ib j \<and>
    offers L C spfi pid h fh ia ib A' \<and> queued pid h fh ib lim (cov_words (snd st')) A' \<and>
    wb_Self A' = wb_Self A \<and> wb_PeerSelf A' = wb_PeerSelf A \<and> wf_wb (self_key A) A' \<and> wb_PeerTable A' = wb_PeerTable A"
proof -
  let ?b = "gblock (l_sha L) C i"
  let ?r = "\<lparr>rq_PeerId = ib, rq_PackHash = h, rq_FileHash = fh, rq_Coverage = cov, rq_Time = lim, rq_PartyId = pid\<rparr>"
    and ?m = "\<lparr>fl_PeerId = ia, fl_PackHash = h, fl_FileHash = fh, fl_PartyId = pid, fl_Block = ?b\<rparr>"
  from off obtain party pack fa where o: "map_get (wb_Parties A) pid = Some party" "pair_party pid ia ib party"
      "map_get (pl_Packs party) h = Some pack" "GetFileInfo (wb_Files A) (pk_Files pack) fh = Ret (Some fa)"
      "wb_Files A fa = Some spfi" by (auto simp: offers_def)
  have ids: "Peer_Id (wb_PeerSelf A) = Ret ia" "wf_wb (self_key A) A" "pl_Id party = pid"
    using A o(2) by (simp_all add: participant_def pair_party_def)
  have ids_ne: "ib \<noteq> ia" using participant_id [OF A] participant_id [OF B] ne by (auto simp: self_key_def Peer_Min_def)
  obtain k j where k: "l_ofFulfillment L ?m = Some k" "l_toFulfillment L k = Some ?m"
      "posts L t (file_env ''fulfillment'' ia pid (signed L k A)) A ia B ib j"
    using laws i t unfolding fulfills_def Let_def by blast
  let ?A = "A\<lparr>wb_RequestChan := []\<rparr>" and ?pe = "file_env ''fulfillment'' ia pid (signed L k A)"
  have sA: "wb_Self ?A = wb_Self A" "wb_PeerSelf ?A = wb_PeerSelf A" by simp_all
  have "wf_wb (self_key A) ?A" using ids(2) by (simp only: wf_wb_def) simp
  from self_cong(7) [OF sA this A] have A0: "participant L a ia ?A" .
  have A1: "self_key ?A \<noteq> self_key B" unfolding self_cong(1) [OF sA] by (rule ne)
  have A2: "directs ?A (pe_SignPub (wb_PeerSelf B)) b" using d by (simp only: directs_def all_entries_def) simp
  have A3: "posts L t ?pe ?A ia B ib j" unfolding self_cong(3) [OF sA] by (rule k(3))
  obtain q where q: "l_ofPartyEnvelope L ?pe = Some q" using k(3) by (auto simp: posts_def)
  from send_sealed_one [OF A0 B A1 A2 A3 q] obtain out where
    out: "send_sealed L t (mk_env ''party'' ia ib) q ib ?A = Ret (?A\<lparr>wb_out := wb_out A @ out\<rparr>)" "WriteOut b (line j) \<in> set out" by auto
  have choice: "chooseBlock_file (l_sha L) (l_rnd L) (wb_Disk A) cov spfi = Ret (Some ?b)"
    using tr cov by (simp add: transfers_def)
  then obtain nb where "next_blocks cov = Ret nb" by (cases "next_blocks cov") (simp_all add: chooseBlock_file_def)
  with choice o have "chooseBlock L party ?r ?A = Ret (Some ?b)" by (simp add: chooseBlock_def deref_def)
  moreover have "SendFulfillment L t party ?r ?b ?A = Ret (?A\<lparr>wb_out := wb_out A @ out\<rparr>)"
    using ids k(1) q out(1) by (simp add: SendFulfillment_def file_env_def signed_def)
  moreover have "cov_set (b_Index ?b) cov = Ret (cov_words (snd st'))" using tr cov by (simp add: transfers_def)
  ultimately have run: "RequestSender L t A = Ret (True, A\<lparr>wb_out := wb_out A @ out,
      wb_RequestChan := [?r\<lparr>rq_Coverage := cov_words (snd st')\<rparr>]\<rparr>)"
    using queue ids ids_ne lim o(1) by (simp add: RequestSender_def queued_def Let_def)
  show ?thesis
    by (rule exI, rule exI [of _ k], rule exI [of _ j], rule exI [of _ out], rule conjI [OF run])
      (use off ids(2) out(2) k(2,3) in \<open>simp add: offers_def queued_def wf_wb_def\<close>)
qed

text \<open>The requester's side of a round.\<close>

lemma requester_receives:
  assumes A: "participant L a ia A" and B: "participant L b ib B" and op: "opens L A B"
    and f: "wb_Parties B = [(pid, party)]" "pair_party pid ia ib party" "pl_Packs party = [(h, pack)]" "pk_State pack = ACTIVE"
      "pk_Files pack = [Some fb]" "wb_Files B fb = Some pfi" "pf_Hash pfi = fh" "wb_VerifiedBlockChan B = []"
    and tr: "transfers (l_sha L) C sdsk spfi rnd (wb_Disk B, pfi) i (dsk', pfi')"
    and json: "l_toFulfillment L k = Some \<lparr>fl_PeerId = ia, fl_PackHash = h, fl_FileHash = fh, fl_PartyId = pid,
      fl_Block = gblock (l_sha L) C i\<rparr>"
    and post: "posts L t (file_env ''fulfillment'' ia pid (signed L k A)) A ia B ib j" and t: "t \<noteq> 0"
  shows "\<exists>B1 B' party'. processMessage L t (line j) B = Ret B1 \<and> wb_VerifiedBlockWriter NoFault B1 = Ret B' \<and>
    wb_Parties B' = [(pid, party')] \<and> pair_party pid ia ib party' \<and> pl_Packs party' = [(h, pack)] \<and>
    wb_Files B' fb = Some pfi' \<and> wb_VerifiedBlockChan B' = [] \<and> wb_Disk B' = dsk' \<and>
    wb_Self B' = wb_Self B \<and> wb_PeerSelf B' = wb_PeerSelf B \<and> wf_wb (self_key B) B' \<and> wb_PeerTable B' = wb_PeerTable B"
proof -
  let ?b = "gblock (l_sha L) C i" and ?pe = "file_env ''fulfillment'' ia pid (signed L k A)"
  let ?vb = "\<lparr>vb_Block = ?b, vb_PackFileInfo = fb, vb_Hash = ghash (l_sha L) C i\<rparr>"
  let ?B = "B\<lparr>wb_VerifiedBlockChan := [?vb]\<rparr>"
  have ids: "Peer_Id (wb_PeerSelf B) = Ret ib" "wf_wb (self_key B) B" "pl_Id party = pid"
    using B f(2) by (simp_all add: participant_def pair_party_def)
  have "party_message L ''fulfillment'' (l_toFulfillment L) fl_PeerId (\<lambda>_. pid) [] pid (signed L k A) B =
      Ret (Inr (\<lparr>fl_PeerId = ia, fl_PackHash = h, fl_FileHash = fh, fl_PartyId = pid, fl_Block = ?b\<rparr>, Peer_Min (wb_PeerSelf A)))"
    using json by (intro party_message_ok [OF A]) simp_all
  then have "dispatch_party L t ?pe party B = Ret (party, ?B)"
    using f ids(3) tr by (simp add: dispatch_party_def file_env_def ProcessFulfillment_def deref_def transfers_def Let_def)
  moreover obtain ms where ms: "pl_MinList party = \<lparr>ml_Map = Some ms, ml_Mutex = True\<rparr>"
      "pair_party pid ia ib (party\<lparr>pl_MinList := \<lparr>ml_Map = Some (map_put ia 0 ms), ml_Mutex = True\<rparr>\<rparr>)"
    by (rule pair_party_put [OF f(2), of ia]) simp
  ultimately have run: "processMessage L t (line j) B = Ret (?B\<lparr>wb_Parties :=
      [(pid, party\<lparr>pl_MinList := \<lparr>ml_Map = Some (map_put ia 0 ms), ml_Mutex = True\<rparr>\<rparr>)]\<rparr>)"
    using party_received [OF A ids(1) op post t _ _ _ _ ms(1), of party t ?B] f(1) by (simp add: file_env_def)
  let ?B1 = "?B\<lparr>wb_Parties := [(pid, party\<lparr>pl_MinList := \<lparr>ml_Map = Some (map_put ia 0 ms), ml_Mutex = True\<rparr>\<rparr>)]\<rparr>"
  have writer: "wb_VerifiedBlockWriter NoFault ?B1 = Ret (?B1\<lparr>wb_VerifiedBlockChan := [], wb_Disk := dsk',
      wb_Files := (wb_Files B)(fb \<mapsto> pfi')\<rparr>)"
    using f(6) tr by (simp add: wb_VerifiedBlockWriter_def transfers_def)
  show ?thesis
    by (rule exI, rule exI, rule exI [of _ "party\<lparr>pl_MinList := \<lparr>ml_Map = Some (map_put ia 0 ms), ml_Mutex = True\<rparr>\<rparr>"],
        rule conjI [OF run], rule conjI [OF writer])
      (use ms(2) f(3) ids(2) in \<open>simp add: wf_wb_def\<close>)
qed

lemma fulfills_cong:
  assumes "wb_Self A' = wb_Self A" and "wb_PeerSelf A' = wb_PeerSelf A" and "wb_Self B' = wb_Self B" and "wb_PeerSelf B' = wb_PeerSelf B"
  shows "fulfills L T pid h fh C A' ia B' ib = fulfills L T pid h fh C A ia B ib"
  by (simp only: fulfills_def self_cong(2,3) [OF assms(1,2)] self_cong(4) [OF assms(3,4)])

text \<open>What does not change while a file is delivered.\<close>

definition linked :: "lib \<Rightarrow> bytes \<Rightarrow> PackFileInfo \<Rightarrow> int set \<Rightarrow> string \<Rightarrow> string \<Rightarrow> string \<Rightarrow> string \<Rightarrow> string \<Rightarrow> string \<Rightarrow> string \<Rightarrow>
    WhiteBox \<times> WhiteBox \<Rightarrow> bool" where
  "linked L C spfi T pid h fh a ia b ib st \<longleftrightarrow> participant L a ia (fst st) \<and> participant L b ib (snd st) \<and>
     self_key (fst st) \<noteq> self_key (snd st) \<and> directs (fst st) (pe_SignPub (wb_PeerSelf (snd st))) b \<and>
     opens L (fst st) (snd st) \<and> fulfills L T pid h fh C (fst st) ia (snd st) ib \<and> offers L C spfi pid h fh ia ib (fst st)"

text \<open>A round of the nodes implements a step of the exchange: one more block arrives.\<close>

lemma delivery_round_run:
  assumes lk: "linked L C spfi T pid h fh a ia b ib st" and queue: "queued pid h fh ib lim cov (fst st)"
    and f: "fetches L C pfi0 pid h fh ia ib k cov (snd st)" and k: "k < nblocks (pf_Size pfi0)" "nblocks (pf_Size pfi0) \<le> 31"
    and sha: "\<And>x. length (l_sha L x) = 32" and inj: "inj_on (ghash (l_sha L) C) {..last_index C}"
    and rnd: "\<And>n. 0 < n \<Longrightarrow> l_rnd L n < n" and t: "t \<in> T" "t \<le> lim" "t \<noteq> 0"
  shows "\<exists>st' cov'. delivery_round L b t st st' \<and> linked L C spfi T pid h fh a ia b ib st' \<and>
    queued pid h fh ib lim cov' (fst st') \<and> fetches L C pfi0 pid h fh ia ib (Suc k) cov' (snd st')"
proof -
  obtain A B where st: "st = (A, B)" by force
  have A: "participant L a ia A" and B: "participant L b ib B" and ne: "self_key A \<noteq> self_key B"
    and d: "directs A (pe_SignPub (wb_PeerSelf B)) b" and op: "opens L A B" and laws: "fulfills L T pid h fh C A ia B ib"
    and off: "offers L C spfi pid h fh ia ib A" using lk by (simp_all add: linked_def st)
  from f obtain party pack fb pfi where B1: "wb_Parties B = [(pid, party)]" "pair_party pid ia ib party"
      "pl_Packs party = [(h, pack)]" "pk_State pack = ACTIVE" "pk_Files pack = [Some fb]" "wb_Files B fb = Some pfi"
      "pf_Hash pfi = fh" "wb_VerifiedBlockChan B = []" and cov: "cov_words pfi = cov"
    and inv: "exchange_inv (l_sha L) C k pfi0 (wb_Disk B, pfi)" by (auto simp: fetches_def st)
  have srv: "serves (l_sha L) C (wb_Disk A) spfi" using off by (auto simp: offers_def)
  obtain i dsk' pfi' where tr: "transfers (l_sha L) C (wb_Disk A) spfi (l_rnd L) (wb_Disk B, pfi) i (dsk', pfi')"
      "exchange_inv (l_sha L) C (Suc k) pfi0 (dsk', pfi')"
    using transfer_block [where rnd = "l_rnd L", OF inv srv k sha inj rnd] by auto
  have il: "i \<le> last_index C"
  proof -
    have "unat (pf_Size pfi) = length C" using inv by (auto simp: exchange_inv_def holds_def)
    moreover have "i < nblocks (pf_Size pfi)" using tr(1) by (simp add: transfers_def)
    ultimately show ?thesis using less_nblocks_last by blast
  qed
  obtain A' kj j out where A': "RequestSender L t A = Ret (True, A')" "wb_out A' = wb_out A @ out" "WriteOut b (line j) \<in> set out"
      "l_toFulfillment L kj = Some \<lparr>fl_PeerId = ia, fl_PackHash = h, fl_FileHash = fh, fl_PartyId = pid,
        fl_Block = gblock (l_sha L) C i\<rparr>" "posts L t (file_env ''fulfillment'' ia pid (signed L kj A)) A ia B ib j"
      "offers L C spfi pid h fh ia ib A'" "queued pid h fh ib lim (cov_words pfi') A'" "wb_Self A' = wb_Self A"
      "wb_PeerSelf A' = wb_PeerSelf A" "wf_wb (self_key A) A'" "wb_PeerTable A' = wb_PeerTable A"
    using holder_sends [OF A B ne d off queue [unfolded st fst_conv] t(2,1) tr(1) _ il laws] cov by auto
  obtain B2 B' party' where B': "processMessage L t (line j) B = Ret B2" "wb_VerifiedBlockWriter NoFault B2 = Ret B'"
      "wb_Parties B' = [(pid, party')]" "pair_party pid ia ib party'" "pl_Packs party' = [(h, pack)]" "wb_Files B' fb = Some pfi'"
      "wb_VerifiedBlockChan B' = []" "wb_Disk B' = dsk'" "wb_Self B' = wb_Self B" "wb_PeerSelf B' = wb_PeerSelf B"
      "wf_wb (self_key B) B'"
    using requester_receives [OF A B op B1 tr(1) A'(4,5) t(3)] by blast
  have "pf_Hash pfi' = fh" using tr(1) B1(7) by (simp add: transfers_def)
  with B' B1(4,5) tr(2) have "fetches L C pfi0 pid h fh ia ib (Suc k) (cov_words pfi') B'" by (auto simp: fetches_def)
  moreover have "linked L C spfi T pid h fh a ia b ib (A', B')"
  proof -
    note sA = self_cong [OF A'(8,9)] and sB = self_cong [OF B'(9,10)]
    have "participant L a ia A'" by (rule sA(7) [OF A'(10) A])
    moreover have "participant L b ib B'" by (rule sB(7) [OF B'(11) B])
    moreover have "directs A' (pe_SignPub (wb_PeerSelf B')) b" using d A'(11) B'(10) by (simp add: directs_def all_entries_def)
    moreover have "opens L A' B'" using op sA(5) sB(6) by simp
    ultimately show ?thesis
      using ne sA(1) sB(1) laws A'(6) fulfills_cong [OF A'(8,9) B'(9,10)] by (simp add: linked_def)
  qed
  moreover have "delivery_round L b t st (A', B')"
    using A'(1-3) B'(1,2) unfolding delivery_round_def st fst_conv snd_conv by blast
  ultimately show ?thesis using A'(7) by (intro exI [of _ "(A', B')"] exI [of _ "cov_words pfi'"]) simp
qed

lemma deliveries_run:
  assumes "linked L C spfi T pid h fh a ia b ib st" and "queued pid h fh ib lim cov (fst st)"
    and "fetches L C pfi0 pid h fh ia ib k cov (snd st)" and "k + length ts = nblocks (pf_Size pfi0)"
    and "nblocks (pf_Size pfi0) \<le> 31" and "\<And>x. length (l_sha L x) = 32" and "inj_on (ghash (l_sha L) C) {..last_index C}"
    and "\<And>n. 0 < n \<Longrightarrow> l_rnd L n < n" and "\<forall>t \<in> set ts. t \<in> T \<and> t \<le> lim \<and> t \<noteq> 0"
  shows "\<exists>st' cov'. deliveries L b ts st st' \<and> linked L C spfi T pid h fh a ia b ib st' \<and>
    fetches L C pfi0 pid h fh ia ib (nblocks (pf_Size pfi0)) cov' (snd st')"
  using assms(1-4,9)
proof (induction ts arbitrary: st cov k)
  case Nil
  then show ?case by auto
next
  case (Cons t ts)
  have k: "k < nblocks (pf_Size pfi0)" using Cons.prems(4) by simp
  have t: "t \<in> T" "t \<le> lim" "t \<noteq> 0" using Cons.prems(5) by simp_all
  from delivery_round_run [OF Cons.prems(1,2,3) k assms(5,6,7,8) t] obtain st1 cov1 where
    s: "delivery_round L b t st st1" "linked L C spfi T pid h fh a ia b ib st1" "queued pid h fh ib lim cov1 (fst st1)"
      "fetches L C pfi0 pid h fh ia ib (Suc k) cov1 (snd st1)" by blast
  have "Suc k + length ts = nblocks (pf_Size pfi0)" "\<forall>t \<in> set ts. t \<in> T \<and> t \<le> lim \<and> t \<noteq> 0" using Cons.prems(4,5) by simp_all
  from Cons.IH [OF s(2,3,4) this] s(1) show ?case unfolding deliveries.simps by blast
qed

text \<open>
  C11: A file is delivered between two nodes. Let \<open>A\<close> and \<open>B\<close> be the two members of a party, at each other's
  known addresses; \<open>A\<close> shares a pack with a file of 1 to 31 blocks and has no request queued, and \<open>B\<close> has started
  the pack. Then \<open>FileRequester\<close> of \<open>B\<close> writes a datagram to \<open>A\<close>; once \<open>A\<close> has received it, as many rounds of
  \<open>RequestSender\<close> of \<open>A\<close>, each followed by the receipt of the datagram it writes to \<open>B\<close> and by
  \<open>VerifiedBlockWriter\<close> of \<open>B\<close>, as the file has blocks, within six seconds, leave the file on \<open>B\<close>'s disk byte
  for byte, and the next round of \<open>FileRequester\<close> marks the pack complete. JSON, signatures and sealed boxes have to
  carry the request and the blocks, the digest has 32 bytes and the file's own blocks have different hashes.
\<close>

theorem file_delivered:
  assumes "participant L a ia A" and "participant L b ib B" and "self_key A \<noteq> self_key B"
    and "directs A (pe_SignPub (wb_PeerSelf B)) b" and "directs B (pe_SignPub (wb_PeerSelf A)) a"
    and "opens L A B" and "opens L B A" and "each_once L"
    and "offers L C spfi pid h fh ia ib A" and "wb_RequestChan A = []"
    and "wb_FreshRequests A (request_key L ib pid h fh) = None"
    and "fetches L C pfi0 pid h fh ia ib 0 cov B"
    and "0 < nblocks (pf_Size pfi0)" and "nblocks (pf_Size pfi0) \<le> 31" and "length ts = nblocks (pf_Size pfi0)"
    and "\<forall>t \<in> set ts. t \<le> t1 + 6 * 10 ^ 9 \<and> t \<noteq> 0" and "t0 \<noteq> 0"
    and "asks L \<lparr>rq_PeerId = ib, rq_PackHash = h, rq_FileHash = fh, rq_Coverage = cov, rq_Time = t0, rq_PartyId = pid\<rparr> k"
    and "posts L t0 (file_env ''request'' ib pid (signed L k B)) B ib A ia j"
    and "fulfills L (set ts) pid h fh C A ia B ib"
    and "\<forall>x. length (l_sha L x) = 32" and "inj_on (ghash (l_sha L) C) {..last_index C}" and "\<forall>n > 0. l_rnd L n < n"
  shows "\<exists>B1 A1 A2 B2 B3 party pack. FileRequester L t0 B = Ret B1 \<and> WriteOut a (line j) \<in> set (wb_out B1) \<and>
    processMessage L t1 (line j) A = Ret A1 \<and> deliveries L b ts (A1, B1) (A2, B2) \<and>
    wb_Disk B2 (pf_Path pfi0) = Some C \<and> FileRequester L t2 B2 = Ret B3 \<and> wb_Disk B3 = wb_Disk B2 \<and>
    map_get (wb_Parties B3) pid = Some party \<and> map_get (pl_Packs party) h = Some pack \<and> pk_State pack = COMPLETE"
proof -
  note A = assms(1) and B = assms(2)
  have "unat (pf_Size pfi0) \<le> 31 * BLK" using less_nblocks_iff [of 31 "pf_Size pfi0"] assms(14) by simp
  then have ns: "0 \<le> sint (pf_Size pfi0)" by (simp add: nonneg_unat)
  from requester_asks [OF A B assms(3,5,8,12,13) ns assms(18)] obtain out where
    B1: "FileRequester L t0 B = Ret (B\<lparr>wb_out := wb_out B @ out\<rparr>)" "WriteOut a (line j) \<in> set out" using assms(19) by blast
  from request_queued [OF A B assms(3,4,7,8,9,10,11,18,19,17), of t1] obtain A1 where
    A1: "processMessage L t1 (line j) A = Ret A1" "offers L C spfi pid h fh ia ib A1"
      "queued pid h fh ib (t1 + 6 * 10 ^ 9) cov A1" "wb_Self A1 = wb_Self A" "wb_PeerSelf A1 = wb_PeerSelf A"
      "wf_wb (self_key A) A1" "wb_PeerTable A1 = wb_PeerTable A" by blast
  let ?B1 = "B\<lparr>wb_out := wb_out B @ out\<rparr>"
  have sB: "wb_Self ?B1 = wb_Self B" "wb_PeerSelf ?B1 = wb_PeerSelf B" "wf_wb (self_key B) ?B1"
    using B by (simp_all add: participant_def)
  have f: "fetches L C pfi0 pid h fh ia ib 0 cov ?B1" using assms(12) by (simp add: fetches_def)
  note cA = self_cong [OF A1(4,5)] and cB = self_cong [OF sB(1,2)]
  have "directs A1 (pe_SignPub (wb_PeerSelf ?B1)) b" using assms(4) A1(7) by (simp add: directs_def all_entries_def)
  moreover have "opens L A1 ?B1" using assms(6) cA(5) cB(6) by simp
  ultimately have lk: "linked L C spfi (set ts) pid h fh a ia b ib (A1, ?B1)"
    using cA(7) [OF A1(6) A] cB(7) [OF sB(3) B] assms(3) cA(1) cB(1) A1(2) assms(20) fulfills_cong [OF A1(4,5) sB(1,2)]
    by (simp add: linked_def)
  have "\<forall>t \<in> set ts. t \<in> set ts \<and> t \<le> t1 + 6 * 10 ^ 9 \<and> t \<noteq> 0" using assms(16) by blast
  moreover have "0 + length ts = nblocks (pf_Size pfi0)" using assms(15) by simp
  ultimately obtain st cov' where st: "deliveries L b ts (A1, ?B1) st" "fetches L C pfi0 pid h fh ia ib (nblocks (pf_Size pfi0)) cov' (snd st)"
    using deliveries_run [OF lk, unfolded fst_conv snd_conv, OF A1(3) f _ assms(14) _ assms(22)] assms(21,23) by blast
  have "wb_Disk (snd st) (pf_Path pfi0) = Some C"
    using st(2) exchange_inv_full(1) [OF _ ns] unfolding fetches_def by blast
  moreover from requester_completes [OF assms(8) st(2) ns, of t2] obtain B3 party pack where
    "FileRequester L t2 (snd st) = Ret B3" "wb_Disk B3 = wb_Disk (snd st)" "map_get (wb_Parties B3) pid = Some party"
    "map_get (pl_Packs party) h = Some pack" "pk_State pack = COMPLETE" by blast
  moreover have "deliveries L b ts (A1, ?B1) (fst st, snd st)" using st(1) by simp
  moreover have "WriteOut a (line j) \<in> set (wb_out ?B1)" using B1(2) by simp
  ultimately show ?thesis using B1(1) A1(1) by blast
qed

section \<open>Starting\<close>

lemma fold_setStatus_fields [simp]:
  "wb_Self (fold setStatus ms wb) = wb_Self wb" "wb_PeerSelf (fold setStatus ms wb) = wb_PeerSelf wb"
  "wb_Parties (fold setStatus ms wb) = wb_Parties wb" "wb_Files (fold setStatus ms wb) = wb_Files wb"
  "wb_Disk (fold setStatus ms wb) = wb_Disk wb" "wb_VerifiedBlockChan (fold setStatus ms wb) = wb_VerifiedBlockChan wb"
  by (induction ms arbitrary: wb) (simp_all add: setStatus_def)

text \<open>
  \<open>StartPack\<close> of the pack that an advertisement left, as \<open>handleGet\<close> calls it, makes the node a requester
  without blocks, when the directory and the files can be made and the path of the file is free.
\<close>

lemma StartPack_fetches:
  assumes B: "wb_Parties B = [(pid, party)]" "pair_party pid ia ib party" "pl_Packs party = [(h, pack)]"
      "pk_Files pack = [Some fb]" "wb_Files B fb = Some pfi" "wb_VerifiedBlockChan B = []"
    and pfi: "pf_Hash pfi = fh" "pf_BlockMap pfi = Map.empty" "pf_BlockLookup pfi = Map.empty"
      "pf_FirstBlockHash pfi = ghash (l_sha L) C 0" "unat (pf_Size pfi) = length C" "0 \<le> sint (pf_Size pfi)"
    and dir: "l_abs L (Join (wb_SharedDir B) pid) = Some dir" "\<not> sublist ''..'' (pk_Name pack)" "l_mkdir L dir"
    and pending: "\<forall>p. l_ofPendingPack L p \<noteq> None" "l_writeFile L (Join dir (pk_Name pack @ ''.pending''))"
      "q \<noteq> Join dir (pk_Name pack @ ''.pending'')"
    and path: "q = Join dir (pf_Name pfi)" "prefix dir q" "wb_Disk B q = None" "l_zeroFaults L q = Writes (\<lambda>_. None)"
  shows "\<exists>party' B'. StartPack L h party B = Ret (party', B') \<and>
    fetches L C (pfi\<lparr>pf_Path := q\<rparr>) pid h fh ia ib 0 (emptyCoverage (pf_Size pfi))
      (B'\<lparr>wb_Parties := map_put pid party' (wb_Parties B')\<rparr>) \<and> wb_Self B' = wb_Self B \<and> wb_PeerSelf B' = wb_PeerSelf B"
proof -
  let ?pend = "Join dir (pk_Name pack @ ''.pending'')" and ?pfi = "pfi\<lparr>pf_Path := q\<rparr>"
  let ?new = "?pfi\<lparr>pf_Coverage := Some (emptyCoverage (pf_Size pfi))\<rparr>"
  have id: "pl_Id party = pid" using B(2) by (simp add: pair_party_def)
  obtain hash where pp: "ToPendingPack L (wb_Files B) pack = Ret (pack, \<lparr>pp_Name = pk_Name pack, pp_Hash = hash, pp_Files = [pfi]\<rparr>)"
    using B(4,5) by (simp add: ToPendingPack_def sha256Pack_def sortFiles_def deref_def)
  obtain json where json: "l_ofPendingPack L \<lparr>pp_Name = pk_Name pack, pp_Hash = hash, pp_Files = [pfi]\<rparr> = Some json"
    using pending(1) by blast
  have paths: "SetPaths dir [Some fb] (wb_Files B) = Ret ((wb_Files B)(fb \<mapsto> ?pfi))"
    using B(5) path(1,2) by (simp add: SetPaths_def Let_def)
  let ?B = "B\<lparr>wb_Disk := (wb_Disk B)(?pend \<mapsto> json), wb_Files := (wb_Files B)(fb \<mapsto> ?pfi)\<rparr>"
  obtain dsk msgs where z: "writeZeroFile (Writes (\<lambda>_. None)) q (pf_Size pfi) ((wb_Disk B)(?pend \<mapsto> json)) = (dsk, msgs)" by fastforce
  have "((wb_Disk B)(?pend \<mapsto> json)) q = None" using path(3) pending(3) by simp
  then have dq: "dsk q = Some (zeros (length C))"
    using writeZeroFile_content [of q "pf_Size pfi" "(wb_Disk B)(?pend \<mapsto> json)"] pfi(5) by (simp add: z nat_sint [OF pfi(6)])
  let ?B' = "fold setStatus msgs (?B\<lparr>wb_Disk := dsk\<rparr>)"
  let ?B'' = "?B'\<lparr>wb_Files := (wb_Files ?B')(fb \<mapsto> ?new)\<rparr>"
  let ?party = "party\<lparr>pl_Packs := [(h, pack\<lparr>pk_State := ACTIVE\<rparr>)]\<rparr>"
  have start: "start_pack_file L (Some fb) ?B = Ret ?B''"
    by (simp add: start_pack_file_def wb_writeZeroFile_def path(4) z)
  have run: "StartPack L h party B = Ret (?party, ?B'')"
    using B(3,4) dir pp json pending(2) paths start by (simp add: StartPack_def id Let_def)
  have "exchange_inv (l_sha L) C 0 ?pfi (dsk, ?new)"
    unfolding exchange_inv_def
    by (rule exI [of _ "{}"], rule exI [of _ "zeros (length C)"])
      (use dq pfi in \<open>auto simp: holds_def cov_words_def disk_ok_def zeros_def\<close>)
  moreover have "pair_party pid ia ib ?party" using B(2) by (simp add: pair_party_def)
  ultimately show ?thesis
    using B(1,4,6) pfi(1) by (intro exI [of _ ?party] exI [of _ ?B''] conjI run) (simp_all add: fetches_def cov_words_def)
qed

section \<open>Two nodes and a file of one block\<close>

definition abc_wanted :: PackFileInfo where
  "abc_wanted = abc_shared\<lparr>pf_BlockMap := Map.empty, pf_BlockLookup := Map.empty, pf_Coverage := Some [0]\<rparr>"

definition abc_party :: "pack_state \<Rightarrow> PartyLine" where
  "abc_party s = talk_party\<lparr>pl_Packs := [(''h'', \<lparr>pk_Name = ''n'', pk_Files = [Some 0], pk_State = s, pk_Peers = Map.empty\<rparr>)]\<rparr>"

text \<open>A node with the pack in a state, the file info and the file.\<close>

definition abc_node :: "pack_state \<Rightarrow> PackFileInfo \<Rightarrow> bytes \<Rightarrow> WhiteBox \<Rightarrow> WhiteBox" where
  "abc_node s pfi content wb = wb\<lparr>wb_Parties := [(join_pid, abc_party s)], wb_Files := [0 \<mapsto> pfi],
     wb_Disk := [''f'' \<mapsto> content], wb_RequestChan := [], wb_FreshRequests := Map.empty, wb_VerifiedBlockChan := []\<rparr>"

definition abc_lib :: "lib \<Rightarrow> lib" where
  "abc_lib L = (join_lib L)\<lparr>l_sha := \<lambda>_. replicate 32 CHR ''x'', l_rnd := \<lambda>_. 0,
     l_ofRequest := \<lambda>_. Some [], l_toRequest := \<lambda>_. Some \<lparr>rq_PeerId = meet_id key_b, rq_PackHash = ''h'', rq_FileHash = [],
       rq_Coverage = [0], rq_Time = 1, rq_PartyId = join_pid\<rparr>,
     l_ofFulfillment := \<lambda>_. Some [], l_toFulfillment := \<lambda>_. Some \<lparr>fl_PeerId = meet_id key_a, fl_PackHash = ''h'',
       fl_FileHash = [], fl_PartyId = join_pid, fl_Block = gblock (\<lambda>_. replicate 32 CHR ''x'') ''abc'' 0\<rparr>,
     l_ofPartyEnvelope := \<lambda>pe. Some (pv_Type pe),
     l_toPartyEnvelope := \<lambda>q. Some (file_env q (if q = ''request'' then meet_id key_b else meet_id key_a) join_pid []),
     l_ofEnvelope := \<lambda>e. Some (if env_To e = meet_id key_a then ''1'' else ''2''),
     l_toEnvelope := \<lambda>j. Some (if j = line ''1''
       then (mk_env ''party'' (meet_id key_b) (meet_id key_a))\<lparr>env_Data := ''request'', env_Time := 1\<rparr>
       else (mk_env ''party'' (meet_id key_a) (meet_id key_b))\<lparr>env_Data := ''fulfillment'', env_Time := 3\<rparr>)\<rparr>"

lemma abc_node_simps [simp]:
  "wb_Self (abc_node s pfi c wb) = wb_Self wb" "wb_PeerSelf (abc_node s pfi c wb) = wb_PeerSelf wb"
  "directs (abc_node s pfi c wb) pub addr \<longleftrightarrow> directs wb pub addr" "wf_wb n (abc_node s pfi c wb) \<longleftrightarrow> wf_wb n wb"
  by (simp_all add: abc_node_def directs_def all_entries_def) (simp add: wf_wb_def)

lemma abc_participant [simp]: "participant L x i (abc_node s pfi c wb) \<longleftrightarrow> participant L x i wb" "self_key (abc_node s pfi c wb) = self_key wb"
  by (simp_all add: participant_def self_key_def signs_def signed_def)

lemma abc_pair: "pair_party join_pid (meet_id key_a) (meet_id key_b) (abc_party s)"
  by (auto simp: pair_party_def abc_party_def talk_party_def join_party_def meet_id_inj)

lemma abc_offers: "offers (abc_lib L) ''abc'' abc_shared join_pid ''h'' [] (meet_id key_a) (meet_id key_b) (abc_node COMPLETE abc_shared ''abc'' wb)"
  using abc_pair abc_serves
  by (simp add: offers_def abc_node_def abc_lib_def) (simp add: abc_party_def deref_def abc_shared_def)

lemma abc_fetches: "fetches (abc_lib L) ''abc'' abc_wanted join_pid ''h'' [] (meet_id key_a) (meet_id key_b) 0 [0] (abc_node ACTIVE abc_wanted (zeros 3) wb)"
proof -
  have "exchange_inv (\<lambda>_. replicate 32 CHR ''x'') ''abc'' 0 abc_wanted ([''f'' \<mapsto> zeros 3], abc_wanted)"
    unfolding exchange_inv_def
    by (rule exI [of _ "{}"], rule exI [of _ "zeros 3"])
      (use cov_bits_replicate_0 [of 1] in \<open>auto simp: abc_wanted_def abc_shared_def holds_def cov_words_def disk_ok_def zeros_def
        length_emptyCoverage nblocks_def\<close>)
  then show ?thesis
    using abc_pair [of ACTIVE] unfolding fetches_def abc_node_def abc_lib_def
    by (simp add: abc_party_def) (simp add: abc_wanted_def abc_shared_def cov_words_def)
qed

theorem file_delivered_witness:
  "\<forall>L. \<exists>A B B1 A1 A2 B2 B3 party pack. FileRequester (abc_lib L) 1 B = Ret B1 \<and>
    processMessage (abc_lib L) 2 (line ''1'') A = Ret A1 \<and> deliveries (abc_lib L) ''b'' [3] (A1, B1) (A2, B2) \<and>
    wb_Disk B2 ''f'' = Some ''abc'' \<and> FileRequester (abc_lib L) 4 B2 = Ret B3 \<and>
    map_get (wb_Parties B3) join_pid = Some party \<and> map_get (pl_Packs party) ''h'' = Some pack \<and> pk_State pack = COMPLETE"
proof
  fix L :: lib
  let ?L = "abc_lib L"
  obtain A B where p: "participant ?L ''a'' (meet_id key_a) A" "participant ?L ''b'' (meet_id key_b) B" "self_key A \<noteq> self_key B"
      "directs A (pe_SignPub (wb_PeerSelf B)) ''b''" "directs B (pe_SignPub (wb_PeerSelf A)) ''a''"
    using two_nodes [of ?L] by (auto simp: abc_lib_def join_lib_def)
  let ?A = "abc_node COMPLETE abc_shared ''abc'' A" and ?B = "abc_node ACTIVE abc_wanted (zeros 3) B"
  have n: "participant ?L ''a'' (meet_id key_a) ?A" "participant ?L ''b'' (meet_id key_b) ?B" "self_key ?A \<noteq> self_key ?B"
      "directs ?A (pe_SignPub (wb_PeerSelf ?B)) ''b''" "directs ?B (pe_SignPub (wb_PeerSelf ?A)) ''a''"
    using p by simp_all
  have law: "opens ?L ?A ?B" "opens ?L ?B ?A" "each_once ?L"
    by (simp_all add: opens_def each_once_def abc_lib_def join_lib_def)
  have free: "wb_RequestChan ?A = []" "wb_FreshRequests ?A (request_key ?L (meet_id key_b) join_pid ''h'' []) = None"
    by (simp_all add: abc_node_def)
  have size: "0 < nblocks (pf_Size abc_wanted)" "nblocks (pf_Size abc_wanted) \<le> 31" "length [3 :: int] = nblocks (pf_Size abc_wanted)"
    by (simp_all add: abc_wanted_def abc_shared_def nblocks_def)
  have time: "\<forall>t \<in> set [3 :: int]. t \<le> 2 + 6 * 10 ^ 9 \<and> t \<noteq> 0" "(1 :: int) \<noteq> 0" by simp_all
  have json: "asks ?L \<lparr>rq_PeerId = meet_id key_b, rq_PackHash = ''h'', rq_FileHash = [], rq_Coverage = [0], rq_Time = 1,
      rq_PartyId = join_pid\<rparr> []"
    "posts ?L 1 (file_env ''request'' (meet_id key_b) join_pid (signed ?L [] ?B)) ?B (meet_id key_b) ?A (meet_id key_a) ''1''"
    by (simp_all add: asks_def posts_def mails_def sealed_env_def timed_def abc_lib_def join_lib_def mk_env_def file_env_def signed_def)
  have blocks: "fulfills ?L (set [3]) join_pid ''h'' [] ''abc'' ?A (meet_id key_a) ?B (meet_id key_b)"
    by (simp add: fulfills_def last_index_def posts_def mails_def sealed_env_def timed_def abc_lib_def join_lib_def mk_env_def
        file_env_def signed_def meet_id_inj line_def key_ab(3) [symmetric])
  have hash: "\<forall>x. length (l_sha ?L x) = 32" "inj_on (ghash (l_sha ?L) ''abc'') {..last_index ''abc''}" "\<forall>n > 0. l_rnd ?L n < n"
    by (simp_all add: abc_lib_def last_index_def)
  have path: "pf_Path abc_wanted = ''f''" by (simp add: abc_wanted_def abc_shared_def)
  from file_delivered [OF n law abc_offers free abc_fetches size time json blocks hash, unfolded path, of 4]
  show "\<exists>A B B1 A1 A2 B2 B3 party pack. FileRequester ?L 1 B = Ret B1 \<and>
    processMessage ?L 2 (line ''1'') A = Ret A1 \<and> deliveries ?L ''b'' [3] (A1, B1) (A2, B2) \<and>
    wb_Disk B2 ''f'' = Some ''abc'' \<and> FileRequester ?L 4 B2 = Ret B3 \<and>
    map_get (wb_Parties B3) join_pid = Some party \<and> map_get (pl_Packs party) ''h'' = Some pack \<and> pk_State pack = COMPLETE"
    by (elim exE conjE) (intro exI conjI; assumption)
qed

end
