(* ===== verification/DownloadSteps.thy ===== *)
theory DownloadSteps
  imports Download
begin

text \<open>
  A download as a step relation (\<open>ProcessFulfillment\<close> and \<open>VerifiedBlockWriter\<close> of
  \<open>white-box/party.go\<close>): blocks arrive from anyone in any order, those that verify wait in
  \<open>VerifiedBlockChan\<close> (capacity 100), and the writer takes them one by one and meets any I/O fault.
  The lemmas: everything a download marks as written is on disk as in the shared file, and a block
  0 with forged link fields stops a download for good.
\<close>

section \<open>Steps\<close>

record download =
  dl_Info :: PackFileInfo
  dl_Disk :: disk
  dl_Chan :: "(Block \<times> string) list"

inductive dl_step :: "(bytes \<Rightarrow> bytes) \<Rightarrow> (Block \<Rightarrow> bool) \<Rightarrow> download \<Rightarrow> download \<Rightarrow> bool"
  for sha :: "bytes \<Rightarrow> bytes" and arrives :: "Block \<Rightarrow> bool" where
  fulfil: "arrives block \<Longrightarrow> verifyBlock sha (dl_Info d) block = Some hash \<Longrightarrow> length (dl_Chan d) < 100 \<Longrightarrow>
    dl_step sha arrives d (d\<lparr>dl_Chan := dl_Chan d @ [(block, hash)]\<rparr>)"
| reject: "arrives block \<Longrightarrow> verifyBlock sha (dl_Info d) block = None \<Longrightarrow> dl_step sha arrives d d"
| written: "dl_Chan d = (block, hash) # rest \<Longrightarrow>
    VerifiedBlockWriter fault (dl_Disk d) (dl_Info d) block hash = Some (dsk, pfi, msg) \<Longrightarrow>
    dl_step sha arrives d \<lparr>dl_Info = pfi, dl_Disk = dsk, dl_Chan = rest\<rparr>"

inductive_cases dl_stepE: "dl_step sha arrives d d'"

text \<open>
  \<open>StartPack\<close> for one file: the destination is prepared, with whatever faults \<open>writeZeroFile\<close> meets and
  whatever file is already on the path, and the bitmap is emptied.
\<close>

definition dl_start :: "zero_faults \<Rightarrow> disk \<Rightarrow> PackFileInfo \<Rightarrow> download" where
  "dl_start faults dsk pfi = (let (dsk', pfi') = start_file faults (dsk, pfi)
     in \<lparr>dl_Info = pfi', dl_Disk = dsk', dl_Chan = []\<rparr>)"

section \<open>What a verified block is\<close>

text \<open>The link fields of block \<open>i\<close> of the file, as they enter its hash.\<close>

definition glinks :: "(bytes \<Rightarrow> bytes) \<Rightarrow> bytes \<Rightarrow> nat \<Rightarrow> string" where
  "glinks sha C i = ghash sha C (Suc i) @ ghash sha C (2 * i + 1) @ ghash sha C (2 * i + 2)"

definition info_links :: "BlockInfo \<Rightarrow> string" where
  "info_links info = bi_NextBlockHash info @ bi_LeftBlockHash info @ bi_RightBlockHash info"

text \<open>A block that agrees with block \<open>i\<close> of the file up to how its link fields are divided.\<close>

definition block_of :: "(bytes \<Rightarrow> bytes) \<Rightarrow> bytes \<Rightarrow> Block \<Rightarrow> bool" where
  "block_of sha C block \<longleftrightarrow> (\<exists>i \<le> last_index C. b_Index block = of_nat i \<and> b_Data block = blk_data C i \<and>
     info_links (ToBlockInfo block) = glinks sha C i)"

text \<open>
  What is assumed of the digest, for one arriving block: its hash is not the hash of block 0, nor
  a part of the link fields of a block of the file, unless the block agrees with a block of the file.
\<close>

definition second_preimage_free :: "(bytes \<Rightarrow> bytes) \<Rightarrow> bytes \<Rightarrow> Block \<Rightarrow> bool" where
  "second_preimage_free sha C block \<longleftrightarrow>
     (sha256Bytes sha (b_Data block) = b_DataHash block \<longrightarrow>
      sha256Block sha (Some block) = ghash sha C 0 \<or>
        (\<exists>i \<le> last_index C. sublist (sha256Block sha (Some block)) (glinks sha C i)) \<longrightarrow>
      block_of sha C block)"

definition info_ok :: "(bytes \<Rightarrow> bytes) \<Rightarrow> bytes \<Rightarrow> PackFileInfo \<Rightarrow> bool" where
  "info_ok sha C pfi \<longleftrightarrow> pf_FirstBlockHash pfi = ghash sha C 0 \<and>
     (\<forall>h info. pf_BlockMap pfi h = Some info \<longrightarrow> (\<exists>i \<le> last_index C. info_links info = glinks sha C i))"

lemma sublist_info_links:
  "sublist (bi_NextBlockHash info) (info_links info)" "sublist (bi_LeftBlockHash info) (info_links info)"
  "sublist (bi_RightBlockHash info) (info_links info)"
  using sublist_appendI [of "bi_LeftBlockHash info" "bi_NextBlockHash info" "bi_RightBlockHash info"]
    sublist_append_leftI [of "bi_RightBlockHash info" "bi_NextBlockHash info @ bi_LeftBlockHash info"]
  by (simp_all add: info_links_def)

lemma verifyBlock_link:
  assumes "verifyBlock sha pfi block = Some hash"
  shows "sha256Bytes sha (b_Data block) = b_DataHash block" "hash = sha256Block sha (Some block)"
    "hash = pf_FirstBlockHash pfi \<or> (\<exists>h info. pf_BlockMap pfi h = Some info \<and> sublist hash (info_links info))"
proof -
  obtain pp tp where
    pp: "Option.bind (pf_BlockLookup pfi (b_Index block - 1)) (pf_BlockMap pfi) = pp" and
    tp: "Option.bind (pf_BlockLookup pfi (treeParent (b_Index block))) (pf_BlockMap pfi) = tp" by blast
  have in_map: "\<exists>h. pf_BlockMap pfi h = Some info" if "pp = Some info \<or> tp = Some info" for info
    using that pp tp by (auto simp: bind_eq_Some_conv)
  show "sha256Bytes sha (b_Data block) = b_DataHash block" "hash = sha256Block sha (Some block)"
    using assms unfolding verifyBlock_def Let_def pp tp
    by (simp_all split: if_split_asm option.split_asm)
  have "hash = pf_FirstBlockHash pfi \<or> (\<exists>info. (pp = Some info \<or> tp = Some info) \<and>
      hash \<in> {bi_NextBlockHash info, bi_LeftBlockHash info, bi_RightBlockHash info})"
    using assms unfolding verifyBlock_def Let_def pp tp
    by (simp split: if_split_asm option.split_asm) blast+
  then show "hash = pf_FirstBlockHash pfi \<or>
      (\<exists>h info. pf_BlockMap pfi h = Some info \<and> sublist hash (info_links info))"
    using in_map sublist_info_links by blast
qed

lemma verified_is_genuine:
  assumes "verifyBlock sha pfi block = Some hash" and "info_ok sha C pfi" and "second_preimage_free sha C block"
  shows "block_of sha C block"
  using verifyBlock_link [OF assms(1)] assms(2,3)
  unfolding info_ok_def second_preimage_free_def by metis

section \<open>A file on disk of any length\<close>

text \<open>
  The first \<open>n\<close> bytes of a file, zero where the file is shorter. A write inside the first \<open>n\<close> bytes acts
  on them as on a file of length \<open>n\<close>, and leaves what lies behind.
\<close>

definition padded :: "nat \<Rightarrow> bytes \<Rightarrow> bytes" where
  "padded n D = take n (D @ zeros (n - length D))"

lemma length_padded [simp]: "length (padded n D) = n"
  by (simp add: padded_def zeros_def)

lemma padded_write:
  assumes "off + length bs \<le> n"
  shows "padded n (write_at off bs D) = write_at off bs (padded n D)"
proof (rule nth_equalityI)
  have len: "length (write_at off bs (padded n D)) = n" using assms by (simp add: length_write_at)
  then show "length (padded n (write_at off bs D)) = length (write_at off bs (padded n D))" by simp
  fix x assume "x < length (padded n (write_at off bs D))"
  then have x: "x < n" by simp
  then have r: "write_at off bs (padded n D) ! x =
      (if off \<le> x \<and> x < off + length bs then bs ! (x - off) else padded n D ! x)"
    using assms by (simp add: nth_write_at)
  have mo: "min (length D) off + (off - length D) = off" by (simp add: min_def)
  show "padded n (write_at off bs D) ! x = write_at off bs (padded n D) ! x"
    unfolding r using x assms mo
    by (auto simp: padded_def write_at_def zeros_def nth_append)
qed

lemma drop_write: "off + length bs \<le> n \<Longrightarrow> drop n (write_at off bs D) = drop n D"
  by (simp add: write_at_def) (auto simp: min_def)

lemma length_write_ge: "length D \<le> length (write_at off bs D)"
  and length_write_end: "bs \<noteq> [] \<Longrightarrow> off + length bs \<le> length (write_at off bs D)"
  by (auto simp: write_at_def)

lemma blk_padded:
  assumes "j * BLK + length (blk_data C j) \<le> length D"
  shows "take (length (blk_data C j)) (drop (j * BLK) (padded (length C) D)) =
    take (length (blk_data C j)) (drop (j * BLK) D)"
proof -
  consider "blk_data C j = []" | "j * BLK < length C"
    by (metis length_0_conv length_blk_data linorder_not_le min_0R diff_is_0_eq)
  then show ?thesis
  proof cases
    case 2
    then have "j * BLK + length (blk_data C j) \<le> length C" by (simp add: length_blk_data)
    then have "length (blk_data C j) \<le> length D - j * BLK" "length (blk_data C j) \<le> length C - j * BLK"
      using assms by linarith+
    then show ?thesis by (simp add: padded_def drop_take min_absorb1)
  qed simp
qed

text \<open>
  The blocks of \<open>S\<close> are on disk, in a file that may be shorter or longer than the shared file; what an
  older file had beyond the length of the shared file is untouched.
\<close>

definition part_ok :: "bytes \<Rightarrow> bytes \<Rightarrow> nat set \<Rightarrow> bytes \<Rightarrow> bool" where
  "part_ok C old S D \<longleftrightarrow> drop (length C) D = drop (length C) old \<and> disk_ok C S (padded (length C) D) \<and>
     (\<forall>j \<in> S. blk_data C j \<noteq> [] \<longrightarrow> j * BLK + length (blk_data C j) \<le> length D)"

lemma part_ok_empty: "drop (length C) D = drop (length C) old \<Longrightarrow> part_ok C old {} D"
  by (simp add: part_ok_def disk_ok_def)

lemma part_ok_insert:
  assumes p: "part_ok C old S D" and i: "i * BLK \<le> length C"
  shows "part_ok C old (insert i S) (write_at (i * BLK) (blk_data C i) D)"
proof -
  have le: "i * BLK + length (blk_data C i) \<le> length C" using i by (simp add: length_blk_data)
  have "disk_ok C (insert i S) (padded (length C) (write_at (i * BLK) (blk_data C i) D))"
    unfolding padded_write [OF le] using p i by (intro disk_ok_insert) (simp_all add: part_ok_def)
  with p show ?thesis
    using length_write_ge [of D "i * BLK" "blk_data C i"] length_write_end [of "blk_data C i" "i * BLK" D]
    by (auto simp: part_ok_def drop_write [OF le] intro: le_trans)
qed

lemma disk_ok_partial:
  assumes "disk_ok C S D" and "i \<notin> S" and "i * BLK \<le> length C"
  shows "disk_ok C S (write_at (i * BLK) (take n (blk_data C i)) D)"
proof -
  have le: "i * BLK + length (take n (blk_data C i)) \<le> length D" "length (take n (blk_data C i)) \<le> BLK"
    using assms by (simp_all add: disk_ok_def length_blk_data)
  show ?thesis
    using assms blk_write_other [OF le] length_write_at [OF le(1)]
    unfolding disk_ok_def by metis
qed

lemma part_ok_partial:
  assumes p: "part_ok C old S D" and i: "i \<notin> S" "i * BLK \<le> length C"
  shows "part_ok C old S (write_at (i * BLK) (take n (blk_data C i)) D)"
proof -
  have le: "i * BLK + length (take n (blk_data C i)) \<le> length C" using i by (simp add: length_blk_data)
  have "disk_ok C S (padded (length C) (write_at (i * BLK) (take n (blk_data C i)) D))"
    unfolding padded_write [OF le] using p i by (intro disk_ok_partial) (simp_all add: part_ok_def)
  with p show ?thesis
    using length_write_ge [of D "i * BLK" "take n (blk_data C i)"]
    by (auto simp: part_ok_def drop_write [OF le] intro: le_trans)
qed

lemma part_ok_mono: "part_ok C old S D \<Longrightarrow> T \<subseteq> S \<Longrightarrow> part_ok C old T D"
  by (auto simp: part_ok_def disk_ok_def)

lemma part_ok_block:
  assumes p: "part_ok C old S D" and j: "j \<in> S"
  shows "take (length (blk_data C j)) (drop (j * BLK) D) = blk_data C j"
proof (cases "blk_data C j = []")
  case False
  with p j have l: "j * BLK + length (blk_data C j) \<le> length D" by (simp add: part_ok_def)
  have "blk_data (padded (length C) D) j = blk_data C j" using p j by (simp add: part_ok_def disk_ok_def)
  moreover have "take (length (blk_data C j)) (drop (j * BLK) E) = blk_data E j" if "length E = length C" for E
    using that by (simp add: length_blk_data blk_data_def min_def)
  ultimately show ?thesis using blk_padded [OF l] by simp
qed simp

lemma part_ok_full:
  assumes p: "part_ok C old S D" and all: "\<And>x. x < length C \<Longrightarrow> x div BLK \<in> S"
  shows "D = C @ drop (length C) old"
proof -
  have C: "padded (length C) D = C"
    using p all by (intro disk_ok_full [of C S]) (auto simp: part_ok_def)
  have "length C \<le> length D"
  proof (cases "C = []")
    case False
    define x where "x = length C - 1"
    have x: "x < length C" "Suc x = length C" using False by (simp_all add: x_def)
    have d: "x div BLK * BLK \<le> x" "x < x div BLK * BLK + BLK"
      using div_mult_mod_eq [of x BLK] mod_less_divisor [of BLK x] by linarith+
    then have "x div BLK * BLK + length (blk_data C (x div BLK)) = length C" "blk_data C (x div BLK) \<noteq> []"
      using x by (simp_all only: length_blk_data flip: length_greater_0_conv)
    with p all [OF x(1)] show ?thesis by (auto simp: part_ok_def)
  qed simp
  then have "take (length C) D = C" using C by (simp add: padded_def)
  with p show ?thesis by (metis append_take_drop_id part_ok_def)
qed

section \<open>The invariant\<close>

definition dl_inv :: "(bytes \<Rightarrow> bytes) \<Rightarrow> bytes \<Rightarrow> u64 \<Rightarrow> string \<Rightarrow> bytes \<Rightarrow> download \<Rightarrow> bool" where
  "dl_inv sha C sz path old d \<longleftrightarrow>
     info_ok sha C (dl_Info d) \<and> pf_Size (dl_Info d) = sz \<and> pf_Path (dl_Info d) = path \<and>
     pf_Coverage (dl_Info d) \<noteq> None \<and> length (cov_words (dl_Info d)) = length (emptyCoverage sz) \<and>
     (\<forall>(block, hash) \<in> set (dl_Chan d). block_of sha C block) \<and>
     part_ok C old (cov_bits (cov_words (dl_Info d))) (file_bytes (dl_Disk d) path)"

lemma writer_inv:
  assumes inv: "dl_inv sha C sz path old d" and small: "length C < 2 ^ 63" and b: "block_of sha C block"
    and w: "VerifiedBlockWriter fault (dl_Disk d) (dl_Info d) block hash = Some (dsk, pfi, msg)"
    and rest: "set rest \<subseteq> set (dl_Chan d)"
  shows "dl_inv sha C sz path old \<lparr>dl_Info = pfi, dl_Disk = dsk, dl_Chan = rest\<rparr>"
proof -
  let ?pfi = "dl_Info d" and ?D = "file_bytes (dl_Disk d) (pf_Path (dl_Info d))"
  have D: "part_ok C old (cov_bits (cov_words ?pfi)) ?D" using inv by (auto simp: dl_inv_def)
  obtain i where i: "i \<le> last_index C" "b_Index block = of_nat i" "b_Data block = blk_data C i"
      "info_links (ToBlockInfo block) = glinks sha C i" using b by (auto simp: block_of_def)
  have idx: "unat (b_Index block) = i" using unat_idx [OF small i(1)] i(2) by simp
  have iC: "i * BLK \<le> length C"
    using i(1) by (simp add: last_index_def less_eq_div_iff_mult_less_eq)
  note off = block_offset [OF idx iC small]
  obtain have0 where have0: "haveBlock ?pfi block = Some have0" using w
    by (auto simp: VerifiedBlockWriter_def split: Option.bind_splits)
  have upd: "dl_inv sha C sz path old \<lparr>dl_Info = ?pfi, dl_Disk = (dl_Disk d)(pf_Path ?pfi \<mapsto> D'), dl_Chan = rest\<rparr>"
    if "part_ok C old (cov_bits (cov_words ?pfi)) D'" for D'
    using inv rest that by (auto simp: dl_inv_def file_bytes_def)
  have same: "dl_inv sha C sz path old \<lparr>dl_Info = ?pfi, dl_Disk = dl_Disk d, dl_Chan = rest\<rparr>"
    using inv rest by (auto simp: dl_inv_def)
  show ?thesis
  proof (cases have0)
    case True
    then show ?thesis using w have0 same by (simp add: VerifiedBlockWriter_def)
  next
    case False
    then have iS: "i \<notin> cov_bits (cov_words ?pfi)" and cap: "unat (b_Index block) < cov_cap (cov_words ?pfi)"
      using have0 idx by (auto simp: haveBlock_def cov.get_eq split: if_splits)
    obtain c' where c': "cov_set (b_Index block) (cov_words ?pfi) = Some c'"
        "cov_bits c' = insert i (cov_bits (cov_words ?pfi))" "cov_cap c' = cov_cap (cov_words ?pfi)"
      using cov.set_ret [OF cap] idx by auto
    have full: "part_ok C old (insert i (cov_bits (cov_words ?pfi))) (write_at (i * BLK) (blk_data C i) ?D)"
      by (rule part_ok_insert [OF D iC])
    note wr = w [unfolded VerifiedBlockWriter_def setBlockWritten_def have0 c'(1) Let_def off(1) i(3)
        bind.bind_lunit, folded file_bytes_def]
    show ?thesis
    proof (cases fault)
      case OpenFault
      with wr False same show ?thesis by simp
    next
      case SeekFault
      with wr False upd [OF D] show ?thesis by auto
    next
      case (WriteFault n)
      with wr False off(2) upd [OF part_ok_partial [OF D iS iC]] show ?thesis by auto
    next
      case CloseFault
      with wr False off(2) upd [OF part_ok_mono [OF full subset_insertI]] show ?thesis by auto
    next
      case NoFault
      with wr False off(2) have r: "dsk = (dl_Disk d)(pf_Path ?pfi \<mapsto> write_at (i * BLK) (blk_data C i) ?D)"
          "pfi = ?pfi\<lparr>pf_Coverage := Some c', pf_BlockMap := (pf_BlockMap ?pfi)(hash \<mapsto> ToBlockInfo block),
            pf_BlockLookup := (pf_BlockLookup ?pfi)(b_Index block \<mapsto> hash)\<rparr>"
        by auto
      have "info_ok sha C pfi" using inv i(1,4) by (auto simp: r dl_inv_def info_ok_def)
      moreover have "path = pf_Path ?pfi" using inv by (simp add: dl_inv_def)
      moreover have "file_bytes dsk (pf_Path ?pfi) = write_at (i * BLK) (blk_data C i) ?D"
        by (simp add: r(1) file_bytes_def)
      ultimately show ?thesis using inv c' rest full
        by (auto simp: r(2) dl_inv_def cov_words_def cov_cap_def)
    qed
  qed
qed

lemma dl_step_inv:
  assumes "dl_step sha arrives d d'" and "dl_inv sha C sz path old d" and "length C < 2 ^ 63"
    and "\<And>block. arrives block \<Longrightarrow> second_preimage_free sha C block"
  shows "dl_inv sha C sz path old d'"
  using assms(1)
proof (rule dl_stepE)
  fix block hash
  assume "arrives block" "verifyBlock sha (dl_Info d) block = Some hash"
    and d': "d' = d\<lparr>dl_Chan := dl_Chan d @ [(block, hash)]\<rparr>"
  then have "block_of sha C block"
    using verified_is_genuine assms(2,4) by (auto simp: dl_inv_def)
  with d' assms(2) show ?thesis by (auto simp: dl_inv_def)
next
  fix block hash rest fault dsk pfi msg
  assume "dl_Chan d = (block, hash) # rest"
    and w: "VerifiedBlockWriter fault (dl_Disk d) (dl_Info d) block hash = Some (dsk, pfi, msg)"
    and d': "d' = \<lparr>dl_Info = pfi, dl_Disk = dsk, dl_Chan = rest\<rparr>"
  with assms(2) have "block_of sha C block" "set rest \<subseteq> set (dl_Chan d)" by (auto simp: dl_inv_def)
  with writer_inv [OF assms(2,3) _ w] d' show ?thesis by simp
qed (use assms(2) in simp)

lemma dl_reach_inv:
  assumes "(dl_step sha arrives)\<^sup>*\<^sup>* d d'" and "dl_inv sha C sz path old d" and "length C < 2 ^ 63"
    and "\<And>block. arrives block \<Longrightarrow> second_preimage_free sha C block"
  shows "dl_inv sha C sz path old d'"
  using assms(1,2) by (induction rule: rtranclp_induct) (auto intro: dl_step_inv assms(3,4))

text \<open>The preparation writes inside the first \<open>n\<close> bytes only, and no fault changes that.\<close>

lemma writeZero_loop_drop:
  "pos + nat remaining \<le> n \<Longrightarrow> drop n (fst (writeZero_loop writes k pos remaining content)) = drop n content"
proof (induction writes k pos remaining content rule: writeZero_loop.induct)
  case (1 writes k pos remaining content)
  have z: "drop n (write_at pos (zeros m) content) = drop n content" if "pos + m \<le> n" for m
    using that by (intro drop_write) (simp add: zeros_def)
  show ?case
    by (subst writeZero_loop.simps)
      (use 1 in \<open>auto simp: z nat_diff_distrib split: option.split\<close>)
qed

lemma writeZeroFile_drop:
  assumes "nat (sint sz) \<le> n"
  shows "drop n (file_bytes (fst (writeZeroFile faults name sz dsk)) name) = drop n (file_bytes dsk name)"
  using writeZero_loop_drop [of 0 "sint sz" n] assms
  by (auto simp: writeZeroFile_def file_bytes_def split: zero_faults.split prod.split)
    (metis fst_conv option.case)+

lemma dl_start_inv:
  assumes "0 \<le> sint (pf_Size pfi)" and "unat (pf_Size pfi) = length C" and "pf_FirstBlockHash pfi = ghash sha C 0"
    and "pf_BlockMap pfi = Map.empty"
  shows "dl_inv sha C (pf_Size pfi) (pf_Path pfi) (file_bytes dsk (pf_Path pfi)) (dl_start faults dsk pfi)"
  using part_ok_empty [OF writeZeroFile_drop [of "pf_Size pfi" "length C" faults "pf_Path pfi" dsk]] assms
  by (simp add: dl_start_def start_file_def dl_inv_def info_ok_def cov_words_def nat_sint)

section \<open>Properties\<close>

text \<open>
  C1: What a download puts on disk. A download starts on any disk, with any earlier file on the path and
  whatever faults the preparation meets; blocks arrive from anyone in any order, and the writer meets
  any I/O fault. Then every block marked in the bitmap is on disk as in the shared file, what an
  older, longer file had beyond the end of the shared file is still there, and once the bitmap is full
  the file on disk is the shared file followed by that remainder: exactly the shared file when there was
  no longer file. Assumed: no arriving block is a second preimage of a hash of the shared file, and
  nothing else writes to the path.
\<close>

theorem download_integrity:
  assumes "(dl_step sha arrives)\<^sup>*\<^sup>* (dl_start faults dsk pfi) d"
    and "0 \<le> sint (pf_Size pfi)" and "unat (pf_Size pfi) = length C" and "pf_FirstBlockHash pfi = ghash sha C 0"
    and "pf_BlockMap pfi = Map.empty"
    and "\<And>block. arrives block \<Longrightarrow> second_preimage_free sha C block"
  shows "let old = file_bytes dsk (pf_Path pfi); D = file_bytes (dl_Disk d) (pf_Path pfi) in
    (\<forall>i \<in> cov_bits (cov_words (dl_Info d)). take (length (blk_data C i)) (drop (i * BLK) D) = blk_data C i) \<and>
    drop (length C) D = drop (length C) old \<and>
    (isFullCoverage (pf_Size (dl_Info d)) (pf_Coverage (dl_Info d)) = Some True \<longrightarrow>
      D = C @ drop (length C) old \<and> (length old \<le> length C \<longrightarrow> D = C))"
proof -
  let ?old = "file_bytes dsk (pf_Path pfi)" and ?D = "file_bytes (dl_Disk d) (pf_Path pfi)"
  have small: "length C < 2 ^ 63" using assms(2,3) by (simp add: nonneg_unat)
  have inv: "dl_inv sha C (pf_Size pfi) (pf_Path pfi) ?old d"
    by (rule dl_reach_inv [OF assms(1) dl_start_inv [where dsk = dsk, OF assms(2-5)] small assms(6)])
  then have p: "part_ok C ?old (cov_bits (cov_words (dl_Info d))) ?D" and sz: "pf_Size (dl_Info d) = pf_Size pfi"
    by (auto simp: dl_inv_def)
  have "?D = C @ drop (length C) ?old" if "isFullCoverage (pf_Size (dl_Info d)) (pf_Coverage (dl_Info d)) = Some True"
  proof -
    obtain c where c: "pf_Coverage (dl_Info d) = Some c" "cov_words (dl_Info d) = c"
      using inv by (auto simp: dl_inv_def cov_words_def)
    with that isFullCoverage_eq [OF assms(2)] sz have "cov_bits c = {..<nblocks (pf_Size pfi)}"
      by (simp split: if_splits)
    with p c(2) div_less_nblocks [OF assms(3)] show ?thesis by (intro part_ok_full [of C _ _ ?D]) auto
  qed
  with p part_ok_block [OF p] show ?thesis by (auto simp: part_ok_def)
qed

definition abc_wanted :: "PackFileInfo" where
  "abc_wanted = abc_shared\<lparr>pf_BlockMap := Map.empty, pf_BlockLookup := Map.empty, pf_Coverage := None\<rparr>"

lemma abc_reach:
  "\<exists>d. (dl_step (\<lambda>_. replicate 32 CHR ''x'') (\<lambda>b. b = gblock (\<lambda>_. replicate 32 CHR ''x'') ''abc'' 0))\<^sup>*\<^sup>*
      (dl_start faults dsk abc_wanted) d \<and> isFullCoverage (pf_Size (dl_Info d)) (pf_Coverage (dl_Info d)) = Some True"
proof -
  let ?sha = "\<lambda>_ :: bytes. replicate 32 CHR ''x''" and ?st = "dl_start faults dsk abc_wanted"
  let ?b = "gblock ?sha ''abc'' 0" and ?h = "ghash ?sha ''abc'' 0"
  have st: "dl_Chan ?st = []" "pf_Size (dl_Info ?st) = 3"
    by (simp_all add: dl_start_def start_file_def abc_wanted_def abc_shared_def)
  have h: "holds ?sha ''abc'' {} (dl_Info ?st)"
    by (simp add: dl_start_def start_file_def abc_wanted_def abc_shared_def holds_def cov_words_def Let_def)
  have v: "verifyBlock ?sha (dl_Info ?st) ?b = Some ?h"
    by (rule verify_genuine [OF h]) (simp_all add: last_index_def)
  obtain dsk' pfi' where w: "VerifiedBlockWriter NoFault (dl_Disk ?st) (dl_Info ?st) ?b ?h = Some (dsk', pfi', None)"
      "holds ?sha ''abc'' {0} pfi'" "pf_Size pfi' = 3"
    using write_genuine_info [OF h, where dsk = "dl_Disk ?st" and i = 0] st
    by (auto simp: last_index_def nblocks_def)
  let ?d1 = "?st\<lparr>dl_Chan := dl_Chan ?st @ [(?b, ?h)]\<rparr>"
  have "dl_step ?sha (\<lambda>b. b = ?b) ?st ?d1" using v st by (intro dl_step.fulfil) simp_all
  moreover have "dl_step ?sha (\<lambda>b. b = ?b) ?d1 \<lparr>dl_Info = pfi', dl_Disk = dsk', dl_Chan = []\<rparr>"
    using w st by (intro dl_step.written [of _ ?b ?h _ NoFault]) simp_all
  moreover have "isFullCoverage (pf_Size pfi') (pf_Coverage pfi') = Some True"
    using w(2,3) isFullCoverage_eq [of 3 "cov_words pfi'"]
    by (cases "pf_Coverage pfi'")
      (simp_all add: holds_def cov_words_def nblocks_def lessThan_Suc nonneg_unat)
  ultimately show ?thesis
    by (intro exI [of _ "\<lparr>dl_Info = pfi', dl_Disk = dsk', dl_Chan = []\<rparr>"])
      (auto intro: converse_rtranclp_into_rtranclp)
qed

text \<open>A preparation that stops after one byte, over an older file of five bytes.\<close>

theorem download_integrity_witness:
  "\<exists>d. (dl_step (\<lambda>_. replicate 32 CHR ''x'') (\<lambda>b. b = gblock (\<lambda>_. replicate 32 CHR ''x'') ''abc'' 0))\<^sup>*\<^sup>*
      (dl_start (Writes (\<lambda>_. Some 1)) [''f'' \<mapsto> ''older''] abc_wanted) d \<and> file_bytes (dl_Disk d) ''f'' = ''abcer''"
proof -
  let ?sha = "\<lambda>_ :: bytes. replicate 32 CHR ''x''" and ?dsk = "[''f'' \<mapsto> ''older'']"
  obtain d where d: "(dl_step ?sha (\<lambda>b. b = gblock ?sha ''abc'' 0))\<^sup>*\<^sup>*
        (dl_start (Writes (\<lambda>_. Some 1)) ?dsk abc_wanted) d"
      "isFullCoverage (pf_Size (dl_Info d)) (pf_Coverage (dl_Info d)) = Some True" using abc_reach by blast
  have "block_of ?sha ''abc'' (gblock ?sha ''abc'' 0)"
    by (auto simp: block_of_def gblock_def ToBlockInfo_def info_links_def glinks_def)
  then have "file_bytes (dl_Disk d) ''f'' = ''abcer''"
    using download_integrity [OF d(1), of "''abc''"] d(2)
    by (auto simp: abc_wanted_def abc_shared_def second_preimage_free_def file_bytes_def Let_def)
  with d(1) show ?thesis by blast
qed

section \<open>Forged link fields\<close>

text \<open>Block 0 with its three link fields run together in the first: the hashed bytes are the same.\<close>

definition forged_block0 :: "(bytes \<Rightarrow> bytes) \<Rightarrow> bytes \<Rightarrow> Block" where
  "forged_block0 sha C = (gblock sha C 0)\<lparr>b_NextBlockHash := glinks sha C 0, b_LeftBlockHash := [],
     b_RightBlockHash := []\<rparr>"

text \<open>Block 0 is marked, its block info has a next hash and no children, and nothing else is known.\<close>

definition poisoned :: "(bytes \<Rightarrow> bytes) \<Rightarrow> bytes \<Rightarrow> download \<Rightarrow> bool" where
  "poisoned sha C d \<longleftrightarrow>
     (\<exists>info. pf_BlockLookup (dl_Info d) = [0 \<mapsto> ghash sha C 0] \<and> pf_BlockMap (dl_Info d) (ghash sha C 0) = Some info \<and>
        bi_NextBlockHash info = glinks sha C 0 \<and> bi_LeftBlockHash info = [] \<and> bi_RightBlockHash info = []) \<and>
     cov_bits (cov_words (dl_Info d)) = {0} \<and> (\<forall>(block, hash) \<in> set (dl_Chan d). b_Index block = 0)"

lemma verify_poisoned:
  assumes p: "poisoned sha C d" and C: "1 \<le> last_index C" and sha: "\<And>x. length (sha x) = 32"
    and idx: "b_Index block \<noteq> 0"
  shows "verifyBlock sha (dl_Info d) block = None"
proof -
  have ne: "glinks sha C 0 \<noteq> []" using ghash_not_Nil [of sha 1 C] sha C by (auto simp: glinks_def)
  obtain info where info: "pf_BlockLookup (dl_Info d) = [0 \<mapsto> ghash sha C 0]"
      "pf_BlockMap (dl_Info d) (ghash sha C 0) = Some info" "bi_NextBlockHash info = glinks sha C 0"
      "bi_LeftBlockHash info = []" "bi_RightBlockHash info = []"
    using p by (auto simp: poisoned_def)
  show ?thesis
  proof (cases "treeParent (b_Index block) = 0")
    case True
    with info idx ne show ?thesis by (simp add: verifyBlock_def Let_def)
  next
    case False
    then have "b_Index block - 1 \<noteq> 0"
      using idx by (auto simp: treeParent_def leftParent_def)
    with False info idx show ?thesis by (simp add: verifyBlock_def Let_def)
  qed
qed

lemma poisoned_step:
  assumes "dl_step sha arrives d d'" and p: "poisoned sha C d" and C: "1 \<le> last_index C"
    and sha: "\<And>x. length (sha x) = 32"
  shows "poisoned sha C d'"
  using assms(1)
proof (rule dl_stepE)
  fix block hash
  assume v: "verifyBlock sha (dl_Info d) block = Some hash"
    and d': "d' = d\<lparr>dl_Chan := dl_Chan d @ [(block, hash)]\<rparr>"
  then have "b_Index block = 0" using verify_poisoned [OF p C sha, of block] by (metis option.distinct(1))
  with d' p show ?thesis by (auto simp: poisoned_def)
next
  fix block hash rest fault dsk pfi msg
  assume ch: "dl_Chan d = (block, hash) # rest"
    and w: "VerifiedBlockWriter fault (dl_Disk d) (dl_Info d) block hash = Some (dsk, pfi, msg)"
    and d': "d' = \<lparr>dl_Info = pfi, dl_Disk = dsk, dl_Chan = rest\<rparr>"
  have "b_Index block = 0" "0 \<in> cov_bits (cov_words (dl_Info d))" using ch p by (auto simp: poisoned_def)
  then have "haveBlock (dl_Info d) block = Some True"
    by (auto simp: haveBlock_def cov.get_eq cov_bits_def cov_cap_def)
  with w have "pfi = dl_Info d" by (simp add: VerifiedBlockWriter_def)
  with p ch d' show ?thesis by (auto simp: poisoned_def)
qed (use p in simp)

lemma poisoned_reach:
  assumes "(dl_step sha arrives)\<^sup>*\<^sup>* d d'" and "poisoned sha C d" and "1 \<le> last_index C"
    and "\<And>x. length (sha x) = 32"
  shows "poisoned sha C d'"
  using assms(1,2) by (induction rule: rtranclp_induct) (auto intro: poisoned_step assms(3,4))

lemma forged_accepted:
  assumes pfi: "unat (pf_Size pfi) = length C" "pf_FirstBlockHash pfi = ghash sha C 0"
      "pf_BlockMap pfi = Map.empty" "pf_BlockLookup pfi = Map.empty"
    and C: "1 \<le> last_index C"
  shows "\<exists>d. (dl_step sha (\<lambda>b. b = forged_block0 sha C))\<^sup>*\<^sup>* (dl_start faults dsk pfi) d \<and> poisoned sha C d"
proof -
  let ?f = "forged_block0 sha C" and ?d = "dl_start faults dsk pfi" and ?h = "ghash sha C 0"
  let ?c = "emptyCoverage (pf_Size pfi)"
  have idx: "b_Index ?f = 0" by (simp add: forged_block0_def gblock_def)
  have "sha256Block sha (Some ?f) = sha256Block sha (Some (gblock sha C 0))"
    by (simp add: forged_block0_def glinks_def sha256Block_def preimage_def gblock_def)
  then have h: "sha256Block sha (Some ?f) = ?h" by (simp add: sha256Block_gblock)
  have info: "dl_Info ?d = pfi\<lparr>pf_Coverage := Some ?c\<rparr>" and ch: "dl_Chan ?d = []"
    by (simp_all add: dl_start_def start_file_def Let_def)
  have v: "verifyBlock sha (dl_Info ?d) ?f = Some ?h"
    by (simp add: verifyBlock_def Let_def idx h info pfi) (simp add: forged_block0_def gblock_def)
  have "0 < nblocks (pf_Size pfi)"
    using C pfi(1) by (auto simp: less_nblocks_iff last_index_def intro: gr0I)
  then have cap: "unat (0 :: u64) < cov_cap ?c" by (simp add: cov_cap_def length_emptyCoverage div_greater_zero_iff)
  then obtain c' where c': "cov_set 0 ?c = Some c'" "cov_bits c' = {0}"
    using cov.set_ret [of 0 ?c] by auto
  have w0: "cov_words (dl_Info ?d) = ?c" by (simp add: info cov_words_def)
  have have0: "haveBlock (dl_Info ?d) ?f = Some False"
    using cap by (simp add: haveBlock_def idx w0 cov.get_eq)
  obtain dsk' where w: "VerifiedBlockWriter NoFault (dl_Disk ?d) (dl_Info ?d) ?f ?h = Some (dsk',
      (dl_Info ?d)\<lparr>pf_Coverage := Some c', pf_BlockMap := [?h \<mapsto> ToBlockInfo ?f], pf_BlockLookup := [0 \<mapsto> ?h]\<rparr>, None)"
    using c'(1) by (simp add: VerifiedBlockWriter_def info have0 [unfolded info] Let_def setBlockWritten_def idx
        w0 [unfolded info] pfi)
  let ?d1 = "?d\<lparr>dl_Chan := dl_Chan ?d @ [(?f, ?h)]\<rparr>"
  let ?d2 = "\<lparr>dl_Info = (dl_Info ?d)\<lparr>pf_Coverage := Some c', pf_BlockMap := [?h \<mapsto> ToBlockInfo ?f],
    pf_BlockLookup := [0 \<mapsto> ?h]\<rparr>, dl_Disk = dsk', dl_Chan = []\<rparr>"
  have "dl_step sha (\<lambda>b. b = ?f) ?d ?d1" using v ch by (intro dl_step.fulfil) simp_all
  moreover have "dl_step sha (\<lambda>b. b = ?f) ?d1 ?d2"
    using w ch by (intro dl_step.written [of _ ?f ?h _ NoFault]) simp_all
  moreover have "poisoned sha C ?d2"
    using c'(2) by (simp add: poisoned_def cov_words_def) (simp add: forged_block0_def ToBlockInfo_def)
  ultimately show ?thesis
    by (intro exI [of _ ?d2]) (auto intro: converse_rtranclp_into_rtranclp)
qed

text \<open>
  C20: A forged block 0 stops a download for good. The fields of a block are hashed one after the other
  with nothing in between, so block 0 with its three link fields run together in the first has the
  hash the pack advertises. Any file of more than one block can be brought into a state, by that one
  fulfillment, from which no sequence of arriving blocks and writes ever verifies or writes a block
  other than block 0.
\<close>

theorem forged_links_stall:
  assumes "1 \<le> last_index C" and "\<And>x. length (sha x) = 32"
    and "unat (pf_Size pfi) = length C" and "pf_FirstBlockHash pfi = ghash sha C 0"
    and "pf_BlockMap pfi = Map.empty" and "pf_BlockLookup pfi = Map.empty"
  shows "\<exists>d. (dl_step sha (\<lambda>b. b = forged_block0 sha C))\<^sup>*\<^sup>* (dl_start faults dsk pfi) d \<and>
    (\<forall>arrives d'. (dl_step sha arrives)\<^sup>*\<^sup>* d d' \<longrightarrow> cov_bits (cov_words (dl_Info d')) = {0} \<and>
      (\<forall>block. b_Index block \<noteq> 0 \<longrightarrow> verifyBlock sha (dl_Info d') block = None))"
proof -
  obtain d where d: "(dl_step sha (\<lambda>b. b = forged_block0 sha C))\<^sup>*\<^sup>* (dl_start faults dsk pfi) d" "poisoned sha C d"
    using forged_accepted [OF assms(3-6,1)] by blast
  have "cov_bits (cov_words (dl_Info d')) = {0}"
      "\<And>block. b_Index block \<noteq> 0 \<Longrightarrow> verifyBlock sha (dl_Info d') block = None"
    if "(dl_step sha arrives)\<^sup>*\<^sup>* d d'" for arrives d'
    using poisoned_reach [OF that d(2) assms(1,2)] verify_poisoned [OF _ assms(1,2)]
    by (auto simp: poisoned_def)
  with d(1) show ?thesis by blast
qed

theorem forged_links_stall_witness:
  "\<exists>d. (dl_step (\<lambda>_. replicate 32 CHR ''x'')
      (\<lambda>b. b = forged_block0 (\<lambda>_. replicate 32 CHR ''x'') (zeros 20000)))\<^sup>*\<^sup>*
      (dl_start CreateFault Map.empty (abc_wanted\<lparr>pf_Size := 20000,
        pf_FirstBlockHash := ghash (\<lambda>_. replicate 32 CHR ''x'') (zeros 20000) 0\<rparr>)) d \<and>
    verifyBlock (\<lambda>_. replicate 32 CHR ''x'') (dl_Info d)
      (gblock (\<lambda>_. replicate 32 CHR ''x'') (zeros 20000) 1) = None"
proof -
  let ?sha = "\<lambda>_ :: bytes. replicate 32 CHR ''x''"
  have "1 \<le> last_index (zeros 20000)" "20000 = length (zeros 20000)"
    by (simp_all only: last_index_def zeros_def length_replicate)
  then show ?thesis
    using forged_links_stall [of "zeros 20000" ?sha "abc_wanted\<lparr>pf_Size := 20000,
        pf_FirstBlockHash := ghash ?sha (zeros 20000) 0\<rparr>" CreateFault Map.empty]
    by (auto simp: abc_wanted_def gblock_def)
qed

text \<open>
  The empty last block. The chain of a file whose size is a multiple of 64 blocks ends in an empty
  block whose bit is outside the bitmap; when it arrives at a requester that holds its predecessor
  (or the file is empty) it verifies, and the writer then panics.
\<close>

theorem empty_last_block_panics:
  assumes "holds sha C S pfi" and "length C mod (64 * BLK) = 0" and "length C < 2 ^ 63"
    and "\<And>x. length (sha x) = 32" and "last_index C = 0 \<or> last_index C - 1 \<in> S"
  shows "verifyBlock sha pfi (gblock sha C (last_index C)) = Some (ghash sha C (last_index C)) \<and>
    VerifiedBlockWriter fault dsk pfi (gblock sha C (last_index C)) (ghash sha C (last_index C)) = Panic"
proof -
  let ?i = "last_index C"
  obtain q where q: "length C = 64 * BLK * q" using assms(2) by auto
  then have i: "?i = 64 * q" by (simp add: last_index_def)
  have "nblocks (pf_Size pfi) = 64 * q"
    unfolding nblocks_def using assms(1) q by (intro div_nat_eqI) (simp_all add: holds_def)
  then have "cov_cap (cov_words pfi) = 64 * q"
    using assms(1) by (auto simp: holds_def cov_cap_def length_emptyCoverage intro: div_nat_eqI)
  moreover have "unat (b_Index (gblock sha C ?i)) = ?i"
    using unat_idx [OF assms(3), of ?i] by (simp add: gblock_def)
  ultimately have "haveBlock pfi (gblock sha C ?i) = None"
    using i by (simp add: haveBlock_def cov.get_eq)
  then show ?thesis
    using verify_genuine [OF assms(1,3,4) order_refl] assms(5) by (auto simp: VerifiedBlockWriter_def)
qed

theorem empty_last_block_panics_witness:
  "VerifiedBlockWriter NoFault Map.empty (abc_wanted\<lparr>pf_Size := 0,
      pf_FirstBlockHash := ghash (\<lambda>_. replicate 32 CHR ''x'') [] 0, pf_Coverage := Some []\<rparr>)
    (gblock (\<lambda>_. replicate 32 CHR ''x'') [] 0) (ghash (\<lambda>_. replicate 32 CHR ''x'') [] 0) = Panic"
proof -
  let ?sha = "\<lambda>_ :: bytes. replicate 32 CHR ''x''"
  have "holds ?sha [] {} (abc_wanted\<lparr>pf_Size := 0, pf_FirstBlockHash := ghash ?sha [] 0, pf_Coverage := Some []\<rparr>)"
    using cov_bits_replicate_0 [of 0]
    by (simp add: holds_def abc_wanted_def cov_words_def length_emptyCoverage nblocks_def)
  then show ?thesis
    using empty_last_block_panics [of ?sha "[]" "{}", where fault = NoFault and dsk = Map.empty]
    by (simp add: last_index_def)
qed

end
