(* ===== verification/NodeInv.thy ===== *)
theory NodeInv
  imports PartyFacts Routing
begin

text \<open>
  The invariant of a node and its preservation by every message: the routing table is well-formed, the
  parties are filed under their own valid ids, and \<open>NoReroute\<close> is empty. \<open>tame wb wb'\<close>: the step keeps a
  well-formed table well-formed and touches neither parties nor chats; all handlers of messages between
  peers are tame except for the chat that \<open>processChat\<close> shows.
\<close>

section \<open>Tame steps\<close>

definition aside :: "WhiteBox \<Rightarrow> WhiteBox \<Rightarrow> bool" where
  "aside wb wb' \<longleftrightarrow> wb_SeenChats wb' = wb_SeenChats wb \<and> wb_NoReroute wb' = wb_NoReroute wb \<and>
     wb_Parties wb' = wb_Parties wb \<and> wb_PendingInvites wb' = wb_PendingInvites wb \<and>
     wb_PeerSelf wb' = wb_PeerSelf wb \<and> chats_of (wb_out wb') = chats_of (wb_out wb)"

definition tame :: "WhiteBox \<Rightarrow> WhiteBox \<Rightarrow> bool" where
  "tame wb wb' \<longleftrightarrow> (\<forall>s. wf_wb s wb \<longrightarrow> wf_wb s wb') \<and> aside wb wb'"

lemma tame_refl [simp]: "tame wb wb"
  by (simp add: tame_def aside_def)

lemma tame_trans [trans]: "tame a b \<Longrightarrow> tame b c \<Longrightarrow> tame a c"
  by (simp add: tame_def aside_def)

lemma calm_tame: "calm a b \<Longrightarrow> tame a b"
  using calm_wf by (auto simp: tame_def aside_def) (simp_all add: calm_def)

lemma quiet_tame: "quiet a b \<Longrightarrow> tame a b"
  by (rule calm_tame) (rule quiet_calm)

lemma tame_status [simp]: "tame a (setStatus m wb) \<longleftrightarrow> tame a wb" "tame a (chatStatus m wb) \<longleftrightarrow> tame a wb"
  by (simp_all add: tame_def aside_def setStatus_def chatStatus_def)

lemma tame_status_left [simp]: "tame (setStatus m wb) a \<longleftrightarrow> tame wb a" "tame (chatStatus m wb) a \<longleftrightarrow> tame wb a"
  by (simp_all add: tame_def aside_def setStatus_def chatStatus_def)

lemma tame_ofold:
  assumes "ofold f xs wb = Ret wb'" and "\<And>x a b. f x a = Ret b \<Longrightarrow> tame a b"
  shows "tame wb wb'"
  using assms(1) tame_refl by (rule ofold_invariant) (blast intro: tame_trans assms(2))

lemma aside_wb_simps [simp]: "aside a (wb\<lparr>wb_PeerTable := t\<rparr>) \<longleftrightarrow> aside a wb"
    "aside a (wb\<lparr>wb_PeerCache := c\<rparr>) \<longleftrightarrow> aside a wb" "aside a (wb\<lparr>wb_EmptyList := e\<rparr>) \<longleftrightarrow> aside a wb"
    "aside a (setStatus m wb) \<longleftrightarrow> aside a wb" "aside a (chatStatus m wb) \<longleftrightarrow> aside a wb" "aside wb wb"
  by (simp_all add: aside_def setStatus_def chatStatus_def)

lemma addPeer_tame: "addPeer now peer t wb = Ret wb' \<Longrightarrow> pe_Conn peer \<noteq> None \<Longrightarrow> tame wb wb'"
  using addPeer_wf [of _ wb now peer t wb']
  by (auto simp: tame_def addPeer_def Let_def elim!: bindE split: if_splits)

lemma removePeer_tame: "removePeer i wb = Ret wb' \<Longrightarrow> tame wb wb'"
  using removePeer_wf [of _ wb i]
  by (auto simp: tame_def removePeer_def Let_def elim!: bindE split: option.splits)

lemma removeStale_entry_aside: "removeStale_entry e wb = Ret wb' \<Longrightarrow> aside a wb \<Longrightarrow> aside a wb'"
  by (auto simp: removeStale_entry_def Let_def elim!: bindE split: option.splits)

lemma removeStalePeers_aside:
  assumes "removeStalePeers now wb = Ret wb'"
  shows "aside wb wb'"
proof -
  let ?body = "\<lambda>i (removed, wb). do {
         let removeList = filter (stale now) (wb_PeerTable wb ! i);
         wb \<leftarrow> ofold removeStale_entry removeList
           (wb\<lparr>wb_PeerTable := (wb_PeerTable wb)[i := filter (\<lambda>entry. \<not> stale now entry) (wb_PeerTable wb ! i)]\<rparr>);
         Some (removed \<or> removeList \<noteq> [], wb) }"
  obtain removed w where w: "ofold ?body [0..<256] (False, wb) = Some (removed, w)"
      and wb': "wb' = (if removed \<and> \<not> havePeers w \<and> \<not> wb_EmptyList w
          then (chatStatus ''all friends gone, bootstrap some new ones'' w)\<lparr>wb_EmptyList := True\<rparr> else w)"
    using assms by (auto simp: removeStalePeers_def elim!: bindE split: prod.splits)
  have "aside wb (snd (removed, w))"
    using w by (rule ofold_invariant [where P = "\<lambda>st. aside wb (snd st)"])
      (auto simp: Let_def elim!: bindE ofold_invariant intro: removeStale_entry_aside)
  then show ?thesis by (simp add: wb')
qed

lemma removeStalePeers_tame: "removeStalePeers now wb = Ret wb' \<Longrightarrow> tame wb wb'"
  using removeStalePeers_table [of _ wb now] removeStalePeers_aside [of now wb wb'] by (auto simp: tame_def)

lemma refreshPeer_tame: "tame wb (refreshPeer now i wb)"
  using refreshPeer_wf [of _ wb now i] by (auto simp: tame_def refreshPeer_def split: option.splits)

lemma cacheMin_tame: "cacheMin minp wb = Ret wb' \<Longrightarrow> tame wb wb'"
  using cacheMin_wf [of _ wb minp wb'] by (auto simp: tame_def cacheMin_def Let_def elim!: bindE)

section \<open>The handlers\<close>

lemma with_messageE:
  assumes "with_message L env caller decode wb k = Ret wb'"
  obtains m where "wb' = setStatus m wb" | m where "k m = Ret wb'"
  using assms by (auto simp: with_message_def elim!: bindE split: sum.splits option.splits)

lemma with_message_tame:
  assumes "with_message L env caller decode wb k = Ret wb'" and "\<And>m. k m = Ret wb' \<Longrightarrow> tame wb wb'"
  shows "tame wb wb'"
  using assms(1) by (rule with_messageE) (simp_all add: assms(2))

lemma processBootstrap_tame:
  assumes "processBootstrap L now env wb = Ret wb'"
  shows "tame wb wb'"
  using assms unfolding processBootstrap_def
  by (rule with_message_tame) (auto simp: Let_def elim!: bindE split: if_splits
      dest!: quiet_sendVerify quiet_tame addPeer_tame; blast intro: tame_trans)

lemma processVerify_tame:
  assumes "processVerify L now env wb = Ret wb'"
  shows "tame wb wb'"
  using assms unfolding processVerify_def
  by (rule with_message_tame) (auto simp: Let_def elim!: bindE split: if_splits
      dest!: quiet_sendAnnounce quiet_sendSuggestionRequest quiet_tame addPeer_tame; blast intro: tame_trans)

lemma cache_announced_tame:
  "tame wb (wb\<lparr>wb_PeerCache := (wb_PeerCache wb)(key \<mapsto> (cache_get key wb)\<lparr>ca_Announced := True\<rparr>)\<rparr>)"
  unfolding tame_def by (auto simp: cache_get_def intro!: wf_cache)

lemma processAnnounce_tame:
  assumes "processAnnounce L now env wb = Ret wb'"
  shows "tame wb wb'"
proof -
  have add: "tame wb1 wb2" if "addPeer now (peer\<lparr>pe_Conn := Some a\<rparr>) t wb1 = Ret wb2" for peer a t wb1 wb2
    using addPeer_tame [OF that] by simp
  have fl: "tame wb1 (wb2\<lparr>wb_PeerCache := (wb_PeerCache wb2)(key \<mapsto> (cache_get key wb2)\<lparr>ca_Announced := True\<rparr>)\<rparr>)"
    if "flood L env wb1 = Ret wb2" for wb1 wb2 key
    using quiet_tame [OF quiet_flood [OF that]] cache_announced_tame tame_trans by blast
  show ?thesis
    using assms unfolding processAnnounce_def
    by (rule with_message_tame) (auto simp: Let_def elim!: bindE split: if_splits dest!: add fl; blast intro: tame_trans fl)
qed

lemma processSuggestionRequest_tame:
  assumes "processSuggestionRequest L now env wb = Ret wb'"
  shows "tame wb wb'"
  using assms unfolding processSuggestionRequest_def
  by (rule with_message_tame) (auto simp: Let_def elim!: bindE split: if_splits
      dest!: quiet_sendSuggestions quiet_tame addPeer_tame; blast intro: tame_trans)

lemma consider_peer_tame: "consider_peer L now peer wb = Ret wb' \<Longrightarrow> tame wb wb'"
  by (auto simp: consider_peer_def Let_def elim!: bindE split: if_splits dest!: quiet_sendSuggestionRequest quiet_tame)

lemma processSuggestions_tame:
  assumes "processSuggestions L now env wb = Ret wb'"
  shows "tame wb wb'"
  using assms unfolding processSuggestions_def
  by (rule with_message_tame) (auto simp: Let_def elim!: bindE split: if_splits
      dest!: addPeer_tame tame_ofold [OF _ consider_peer_tame]; blast intro: tame_trans)

lemma processPing_tame:
  assumes "processPing L now env wb = Ret wb'"
  shows "tame wb wb'"
  using assms unfolding processPing_def
  by (rule with_message_tame) (auto split: if_splits dest!: quiet_sendPulse quiet_tame)

lemma processPulse_tame:
  assumes "processPulse L now env wb = Ret wb'"
  shows "tame wb wb'"
  using assms unfolding processPulse_def
  by (rule with_message_tame) (auto elim!: bindE split: if_splits option.splits dest!: quiet_IdFront quiet_tame;
      blast intro: tame_trans refreshPeer_tame)

lemma IdToMin_Peer_Id:
  assumes "Peer_Id peer = Ret i" and "IdToMin spare i = Ret (Inr minp)"
  shows "mi_SignPub minp = pe_SignPub peer"
  using assms split_two [of "CHR ''.''" "hexEncode (pe_SignPub peer)"] hexEncode_no_dot
  by (auto simp: Peer_Id_def IdToMin_def Let_def split: option.splits if_splits)

lemma wf_forget:
  assumes wf: "wf_wb s wb" and "\<forall>i < 256. \<forall>e \<in> set (wb_PeerTable wb ! i). entry_key e \<noteq> Some key"
  shows "wf_wb s (wb\<lparr>wb_PeerCache := (wb_PeerCache wb)(key := c)\<rparr>)"
proof -
  have "entry_ok s ((wb_PeerCache wb)(key := c)) i e" if "i < 256" "e \<in> set (wb_PeerTable wb ! i)" for i e
    by (rule entry_ok_cache_mono [of s "wb_PeerCache wb"]) (use wf assms(2) that in \<open>auto simp: wf_wb_def bucket_ok_def\<close>)
  then have "bucket_ok s ((wb_PeerCache wb)(key := c)) i (wb_PeerTable wb ! i)" if "i < 256" for i
    using wf that by (simp add: wf_wb_def bucket_ok_def)
  with wf show ?thesis by (simp add: wf_wb_def)
qed

lemma disconnect_tame:
  assumes "IdToMin (l_spare L) i = Ret (Inr minp)" and "removePeer (hexEncode (mi_SignPub minp)) wb = Ret wb1"
  shows "tame wb (wb1\<lparr>wb_PeerCache := (wb_PeerCache wb1)(i \<mapsto> c)\<rparr>)"
proof -
  have "wf_wb s (wb1\<lparr>wb_PeerCache := (wb_PeerCache wb1)(i \<mapsto> c)\<rparr>)" if wf: "wf_wb s wb" for s
  proof (rule wf_forget)
    from removePeer_table [OF wf hexDecode_hexEncode, of "mi_SignPub minp"] assms(2)
    have wf1: "wf_wb s wb1" and t: "wb_PeerTable wb1 = (wb_PeerTable wb)[bucket_of (s XOR SetBytes (mi_SignPub minp)) :=
        filter (\<lambda>e. pn_Id e \<noteq> mi_SignPub minp) (wb_PeerTable wb ! bucket_of (s XOR SetBytes (mi_SignPub minp)))]"
      by auto
    from wf1 show "wf_wb s wb1" .
    show "\<forall>j < 256. \<forall>e \<in> set (wb_PeerTable wb1 ! j). entry_key e \<noteq> Some i"
    proof (intro allI impI ballI notI)
      fix j e assume j: "j < 256" and e: "e \<in> set (wb_PeerTable wb1 ! j)" and key: "entry_key e = Some i"
      have ok: "entry_ok s (wb_PeerCache wb1) j e" using wf1 j e by (simp add: wf_wb_def bucket_ok_def)
      then obtain peer where "pn_Peer e = Some peer" "pe_SignPub peer = pn_Id e" "Peer_Id peer = Some i"
        using key by (auto simp: entry_ok_def entry_key_def)
      with IdToMin_Peer_Id assms(1) have id: "pn_Id e = mi_SignPub minp" by metis
      with ok have "j = bucket_of (s XOR SetBytes (mi_SignPub minp))" by (simp add: entry_ok_def)
      with e id j wf show False by (simp add: t wf_wb_def)
    qed
  qed
  moreover have "aside wb wb1" using removePeer_tame [OF assms(2)] by (simp add: tame_def)
  ultimately show ?thesis by (simp add: tame_def)
qed

lemma processDisconnect_tame:
  assumes "processDisconnect L env wb = Ret wb'"
  shows "tame wb wb'"
  using assms unfolding processDisconnect_def
proof (rule with_message_tame)
  fix m assume m: "(if mt_MessageType m \<noteq> - 1
     then Ret (setStatus ''error invalid message type (disconnect)'' wb)
     else do {
       (front, wb) \<leftarrow> IdFront L (env_From env) wb;
       case front of
         None \<Rightarrow> Ret (setStatus ''error bad id (disconnect)'' wb)
       | Some idShort \<Rightarrow> do {
           wb \<leftarrow> removePeer idShort wb;
           if wb_PeerCache wb (env_From env) = None \<or> \<not> ca_Disconnected (cache_get (env_From env) wb)
           then flood L env (wb\<lparr>wb_PeerCache := (wb_PeerCache wb)
                  (env_From env \<mapsto> (cache_get (env_From env) wb)\<lparr>ca_Disconnected := True\<rparr>)\<rparr>)
           else Ret wb } }) = Ret wb'"
  show "tame wb wb'"
  proof (cases "mt_MessageType m = - 1")
    case True
    with m show ?thesis
      by (auto simp: IdFront_def elim!: bindE split: sum.splits if_splits dest!: quiet_flood quiet_tame)
        (blast intro: removePeer_tame disconnect_tame tame_trans)+
  qed (use m in auto)
qed

section \<open>Chats and parties\<close>

definition mainline :: "WhiteBox \<Rightarrow> Chat list" where
  "mainline wb = filter (\<lambda>c. ch_Channel c = ''mainline'') (chats_of (wb_out wb))"

definition parties_ok :: "WhiteBox \<Rightarrow> bool" where
  "parties_ok wb \<longleftrightarrow> (\<forall>k p. (k, p) \<in> set (wb_Parties wb) \<or> (k, p) \<in> set (wb_PendingInvites wb) \<longrightarrow> pl_Id p = k \<and> valid_party_id k) \<and>
     distinct (map_keys (wb_Parties wb)) \<and> distinct (map_keys (wb_PendingInvites wb))"

definition node_inv :: "nat \<Rightarrow> WhiteBox \<Rightarrow> bool" where
  "node_inv s wb \<longleftrightarrow> wf_wb s wb \<and> SetBytes (pe_SignPub (wb_PeerSelf wb)) = s \<and> parties_ok wb \<and>
     wb_NoReroute wb = Map.empty"

text \<open>A key under which a shown chat is remembered: its sender and a time.\<close>

definition chat_key :: "lib \<Rightarrow> Chat \<Rightarrow> string \<Rightarrow> bool" where
  "chat_key L c k \<longleftrightarrow> (\<exists>t. k = ch_Id c @ ''.'' @ l_timeString L t)"

text \<open>A step shows no chat of the main channel, or one whose key was not seen before.\<close>

definition chat_step :: "lib \<Rightarrow> WhiteBox \<Rightarrow> WhiteBox \<Rightarrow> bool" where
  "chat_step L wb wb' \<longleftrightarrow> (wb_SeenChats wb' = wb_SeenChats wb \<and> mainline wb' = mainline wb) \<or>
     (\<exists>k c. wb_SeenChats wb k = None \<and> wb_SeenChats wb' = (wb_SeenChats wb)(k \<mapsto> True) \<and>
        mainline wb' = mainline wb @ [c] \<and> chat_key L c k)"

lemma tame_inv: "tame wb wb' \<Longrightarrow> node_inv s wb \<Longrightarrow> node_inv s wb'"
  by (simp add: tame_def aside_def node_inv_def parties_ok_def)

lemma tame_chat: "tame wb wb' \<Longrightarrow> chat_step L wb wb'"
  by (simp add: tame_def aside_def chat_step_def mainline_def)

lemma processChat_step:
  assumes "processChat L now env wb = Ret wb'" and "node_inv s wb"
  shows "node_inv s wb' \<and> chat_step L wb wb'"
  using assms(1) unfolding processChat_def
proof (rule with_messageE)
  show "node_inv s wb' \<and> chat_step L wb wb'" if "wb' = setStatus m wb" for m
    using that assms(2) tame_inv [of wb wb' s] tame_chat [of wb wb'] by simp
next
  fix m
  let ?key = "env_From env @ ''.'' @ l_timeString L (mc_Time m)"
  let ?chat = "\<lparr>ch_Time = now, ch_Id = env_From env, ch_Channel = ''mainline'', ch_Message = mc_Message m\<rparr>"
  assume "(do {
     minId \<leftarrow> MinPeer_Id (mc_Min m);
     if minId \<noteq> env_From env then Ret (setStatus ''error invalid peer (chat)'' wb)
     else do {
       let uniqueId = env_From env @ ''.'' @ l_timeString L (mc_Time m);
       wb \<leftarrow> (if wb_SeenChats wb uniqueId = None
               then do {
                 let wb = addChat \<lparr>ch_Time = now, ch_Id = env_From env, ch_Channel = ''mainline'',
                       ch_Message = mc_Message m\<rparr> wb;
                 wb \<leftarrow> flood L env wb;
                 Ret (wb\<lparr>wb_SeenChats := (wb_SeenChats wb)(uniqueId \<mapsto> True)\<rparr>) }
               else Ret wb);
       cacheMin (mc_Min m) wb } }) = Ret wb'"
  then consider "tame wb wb'"
    | wb1 where "wb_SeenChats wb ?key = None" "flood L env (addChat ?chat wb) = Ret wb1"
        "cacheMin (mc_Min m) (wb1\<lparr>wb_SeenChats := (wb_SeenChats wb1)(?key \<mapsto> True)\<rparr>) = Ret wb'"
    by (auto simp: Let_def elim!: bindE split: if_splits) (blast dest: cacheMin_tame)
  then show "node_inv s wb' \<and> chat_step L wb wb'"
  proof cases
    case 1
    with assms(2) tame_inv tame_chat show ?thesis by blast
  next
    case 2
    let ?wb2 = "wb1\<lparr>wb_SeenChats := (wb_SeenChats wb1)(?key \<mapsto> True)\<rparr>"
    note q = quiet_flood [OF 2(2)]
    have f: "wb_SeenChats wb1 = wb_SeenChats wb" "wb_NoReroute wb1 = wb_NoReroute wb" "wb_Parties wb1 = wb_Parties wb"
        "wb_PendingInvites wb1 = wb_PendingInvites wb" "wb_PeerSelf wb1 = wb_PeerSelf wb"
        "chats_of (wb_out wb1) = chats_of (wb_out wb) @ [?chat]"
      using quiet_fields [OF q] by (simp_all add: addChat_def)
    have "wf_wb s wb1" using assms(2) quiet_wf [OF q] by (simp add: node_inv_def)
    then have "wf_wb s ?wb2" by (rule iffD2 [OF wf_wb_cong, rotated 4]) simp_all
    then have "node_inv s ?wb2" "chat_step L wb ?wb2"
      using assms(2) f 2(1) by (auto simp: node_inv_def parties_ok_def chat_step_def mainline_def chat_key_def)
    moreover note t = cacheMin_tame [OF 2(3)]
    moreover have "chat_step L wb wb' \<longleftrightarrow> chat_step L wb ?wb2"
      using t unfolding tame_def aside_def chat_step_def mainline_def by simp
    ultimately show ?thesis using tame_inv by blast
  qed
qed

text \<open>A chat whose sender is its signer is answered without a panic, whatever was seen before.\<close>

lemma flood_entry_returns:
  assumes "pn_Peer e = None \<or> (\<exists>p i. pn_Peer e = Some p \<and> Peer_Id p = Ret i)"
  shows "\<exists>st'. flood_entry j e st = Ret st'"
  using assms by (cases st) (auto simp: flood_entry_def conn_write_def split: option.split)

lemma flood_returns:
  assumes "wf_wb s wb"
  shows "\<exists>wb'. flood L env wb = Ret wb'"
proof (cases "l_ofEnvelope L env")
  case (Some j)
  have "\<exists>st'. flood_entry j e st = Ret st'" if "bucket \<in> set (wb_PeerTable wb)" "e \<in> set bucket" for bucket e st
  proof -
    have "length (wb_PeerTable wb) = 256" using assms by (simp add: wf_wb_def)
    with that(1) obtain i where "i < 256" "wb_PeerTable wb ! i = bucket" unfolding in_set_conv_nth by auto
    then have "entry_ok s (wb_PeerCache wb) i e"
      using that(2) assms unfolding wf_wb_def bucket_ok_def by blast
    then show ?thesis by (intro flood_entry_returns) (auto simp: entry_ok_def)
  qed
  then have "\<exists>st'. ofold (\<lambda>bucket. ofold (flood_entry j) bucket) (wb_PeerTable wb) ([], wb) = Ret st'"
    by (intro ofold_runs)
  with Some show ?thesis by (auto simp: flood_def)
qed (simp add: flood_def)

text \<open>What makes an envelope a chat of its sender: the id, the signature, the content, the id in the content.\<close>

definition chat_arrives :: "lib \<Rightarrow> Envelope \<Rightarrow> MessageChat \<Rightarrow> bool" where
  "chat_arrives L env m \<longleftrightarrow> (\<exists>minp. IdToMin (l_spare L) (env_From env) = Ret (Inr minp) \<and>
     l_verify L (env_Data env) (mi_SignPub minp)) \<and> l_sigSize L \<le> length (env_Data env) \<and>
     l_toChat L (drop (l_sigSize L) (env_Data env)) = Some m \<and> MinPeer_Id (mc_Min m) = Ret (env_From env)"

lemma processChat_arrives:
  fixes now :: int
  assumes a: "chat_arrives L env m" and wf: "wf_wb s wb"
  defines "k \<equiv> env_From env @ ''.'' @ l_timeString L (mc_Time m)"
    and "c \<equiv> \<lparr>ch_Time = now, ch_Id = env_From env, ch_Channel = ''mainline'', ch_Message = mc_Message m\<rparr>"
  shows "\<exists>wb'. processChat L now env wb = Ret wb' \<and>
    (if wb_SeenChats wb k = None
     then wb_SeenChats wb' = (wb_SeenChats wb)(k \<mapsto> True) \<and> chats_of (wb_out wb') = chats_of (wb_out wb) @ [c]
     else wb_SeenChats wb' = wb_SeenChats wb \<and> chats_of (wb_out wb') = chats_of (wb_out wb))"
proof -
  have v: "verifyEnvelope L env ''chat'' = Ret (Inr (drop (l_sigSize L) (env_Data env)))"
    using a by (auto simp: chat_arrives_def verifyEnvelope_def)
  have id: "MinPeer_Id (mc_Min m) = Ret (env_From env)" and m: "l_toChat L (drop (l_sigSize L) (env_Data env)) = Some m"
    using a by (simp_all add: chat_arrives_def)
  have "wf_wb s (addChat c wb)" by (rule iffD2 [OF wf_wb_cong wf]) (simp_all add: addChat_def)
  then obtain wb1 where f: "flood L env (addChat c wb) = Ret wb1" using flood_returns by blast
  have q: "wb_SeenChats wb1 = wb_SeenChats wb" "chats_of (wb_out wb1) = chats_of (wb_out wb) @ [c]"
    using quiet_fields(7,18) [OF quiet_flood [OF f]] by (simp_all add: addChat_def)
  show ?thesis
    unfolding processChat_def with_message_def v
    using q f by (auto simp: m id cacheMin_def Let_def k_def c_def)
qed

section \<open>Party messages\<close>

text \<open>A handler of a party keeps its id, and shows no chat or one of its channel with a new key.\<close>

definition party_step :: "lib \<Rightarrow> PartyLine \<Rightarrow> WhiteBox \<Rightarrow> PartyLine \<Rightarrow> WhiteBox \<Rightarrow> bool" where
  "party_step L party wb party' wb' \<longleftrightarrow> pl_Id party' = pl_Id party \<and>
     ((calm wb wb' \<and> pl_SeenChats party' = pl_SeenChats party) \<or>
      (\<exists>k c. pl_SeenChats party k = None \<and> pl_SeenChats party' = (pl_SeenChats party)(k \<mapsto> True) \<and>
         ch_Channel c = pl_Id party \<and> chat_key L c k \<and> calm (addChat c wb) wb'))"

lemma ProcessChat_party_step:
  assumes "ProcessChat L now env party wb = Ret (party', wb')"
  shows "party_step L party wb party' wb'"
proof -
  obtain r where r: "party_message L ''chat'' (l_toPartyChat L) pc_PeerId pc_PartyId ''error invalid party (party:chat)''
            (pl_Id party) (pv_Data env) wb = Ret r"
    using assms by (auto simp: ProcessChat_def elim!: bindE)
  show ?thesis
  proof (cases r)
    case (Inl wb1)
    with r assms show ?thesis
      by (auto simp: ProcessChat_def party_step_def dest!: party_message_Inl quiet_calm)
  next
    case (Inr mp)
    obtain m minp where mp: "mp = (m, minp)" by (cases mp)
    let ?k = "pc_PeerId m @ ''.'' @ l_timeString L (pc_Time m)"
    let ?c = "\<lparr>ch_Time = now, ch_Id = pc_PeerId m, ch_Channel = pl_Id party, ch_Message = pc_Message m\<rparr>"
    show ?thesis
    proof (cases "pl_SeenChats party ?k = None")
      case True
      with assms r Inr mp have "party' = party\<lparr>pl_SeenChats := (pl_SeenChats party)(?k \<mapsto> True)\<rparr>"
          "quiet (addChat ?c wb) wb'"
        by (auto simp: ProcessChat_def Let_def elim!: bindE dest: quiet_sendToNeighbors)
      with True show ?thesis
        unfolding party_step_def by (intro conjI disjI2 exI [of _ ?k] exI [of _ ?c]) (auto simp: quiet_calm chat_key_def)
    next
      case False
      with assms r Inr mp show ?thesis by (auto simp: ProcessChat_def Let_def party_step_def)
    qed
  qed
qed

lemma dispatch_party_step:
  assumes "dispatch_party L now env party wb = Ret (party', wb')"
  shows "party_step L party wb party' wb'"
proof (cases "pv_Type env = ''chat''")
  case True
  with assms show ?thesis by (simp add: dispatch_party_def ProcessChat_party_step)
next
  case False
  with assms have "calm wb wb' \<and> pl_Id party' = pl_Id party \<and> pl_SeenChats party' = pl_SeenChats party"
    unfolding dispatch_party_def
    by (auto elim!: bindE split: if_splits dest: ProcessAdvertisement_calm ProcessRequest_calm ProcessFulfillment_calm
        ProcessAnnounce_calm ProcessDisconnect_calm quiet_calm)
  then show ?thesis by (simp add: party_step_def)
qed

lemma valid_not_mainline: "valid_party_id i \<Longrightarrow> i \<noteq> ''mainline''"
  by (auto simp: valid_party_id_def)

lemma node_inv_put:
  assumes "node_inv s wb" and "pl_Id party = k" and "valid_party_id k"
  shows "node_inv s (wb\<lparr>wb_Parties := map_put k party (wb_Parties wb)\<rparr>)"
    "node_inv s (wb\<lparr>wb_PendingInvites := map_put k party (wb_PendingInvites wb)\<rparr>)"
proof -
  have "wf_wb s (wb\<lparr>wb_Parties := m\<rparr>)" "wf_wb s (wb\<lparr>wb_PendingInvites := m\<rparr>)" for m
    using assms(1) by (auto simp: node_inv_def wf_wb_def)
  with assms show "node_inv s (wb\<lparr>wb_Parties := map_put k party (wb_Parties wb)\<rparr>)"
    "node_inv s (wb\<lparr>wb_PendingInvites := map_put k party (wb_PendingInvites wb)\<rparr>)"
    by (auto simp: node_inv_def parties_ok_def distinct_update dest!: map_put_set)
qed

lemma node_inv_del:
  assumes "node_inv s wb"
  shows "node_inv s (wb\<lparr>wb_Parties := map_del k (wb_Parties wb)\<rparr>)"
    "node_inv s (wb\<lparr>wb_PendingInvites := map_del k (wb_PendingInvites wb)\<rparr>)"
proof -
  have "wf_wb s (wb\<lparr>wb_Parties := m\<rparr>)" "wf_wb s (wb\<lparr>wb_PendingInvites := m\<rparr>)" for m
    using assms(1) by (auto simp: node_inv_def wf_wb_def)
  with assms show "node_inv s (wb\<lparr>wb_Parties := map_del k (wb_Parties wb)\<rparr>)"
    "node_inv s (wb\<lparr>wb_PendingInvites := map_del k (wb_PendingInvites wb)\<rparr>)"
    by (auto simp: node_inv_def parties_ok_def distinct_delete dest!: map_del_set)
qed

lemma node_inv_party: "node_inv s wb \<Longrightarrow> map_get (wb_Parties wb) k = Some p \<Longrightarrow> pl_Id p = k \<and> valid_party_id k"
  by (auto simp: node_inv_def parties_ok_def dest!: map_of_SomeD)

lemma addChat_inv: "node_inv s (addChat c wb) \<longleftrightarrow> node_inv s wb"
  by (simp add: node_inv_def parties_ok_def) (simp add: addChat_def)

lemma processParty_step:
  assumes "processParty L now env wb = Ret wb'" and inv: "node_inv s wb"
  shows "node_inv s wb' \<and> chat_step L wb wb'"
proof -
  consider m where "wb' = setStatus m wb"
    | pe party party1 wb1 ml where "map_get (wb_Parties wb) (pv_PartyId pe) = Some party"
        "dispatch_party L now pe party wb = Ret (party1, wb1)"
        "wb' = wb1\<lparr>wb_Parties := map_put (pv_PartyId pe) (party1\<lparr>pl_MinList := ml\<rparr>) (wb_Parties wb1)\<rparr>"
    using assms(1) by (auto simp: processParty_def elim!: bindE split: sum.splits option.splits)
  then show ?thesis
  proof cases
    case 1
    with inv tame_inv [of wb wb' s] tame_chat [of wb wb'] show ?thesis by simp
  next
    case 2
    note st = dispatch_party_step [OF 2(2), unfolded party_step_def]
    note id = node_inv_party [OF inv 2(1)]
    have "node_inv s wb1"
      using st inv tame_inv [OF calm_tame] addChat_inv by blast
    moreover have "wb_SeenChats wb1 = wb_SeenChats wb" "mainline wb1 = mainline wb"
      using st id valid_not_mainline by (auto simp: calm_def mainline_def addChat_def)
    ultimately show ?thesis
      using node_inv_put(1) [of s wb1 "party1\<lparr>pl_MinList := ml\<rparr>"] st id 2(3)
      by (auto simp: chat_step_def mainline_def)
  qed
qed

lemma processInvite_cases:
  assumes "processInvite L env wb = Ret wb'"
  shows "\<exists>m k party. wb' = setStatus m wb \<or> (pl_Id party = k \<and> valid_party_id k \<and>
     wb' = setStatus m (wb\<lparr>wb_PendingInvites := map_put k party (wb_PendingInvites wb)\<rparr>))"
proof -
  obtain r where r: "IdToMin (l_spare L) (env_From env) = Ret r"
    using assms by (auto simp: processInvite_def elim!: bindE)
  show ?thesis
  proof (cases "(\<exists>e. r = Inl e) \<or> l_open L (env_Data env) (mi_EncPub (projr r)) (se_EncPrv (wb_Self wb)) = None")
    case True
    with assms r show ?thesis by (auto simp: processInvite_def split: sum.splits)
  next
    case False
    then obtain minp json where "r = Inr minp" "l_open L (env_Data env) (mi_EncPub minp) (se_EncPrv (wb_Self wb)) = Some json"
      by (cases r) auto
    moreover from this assms r obtain party where "l_toParty L json = Some party"
      by (cases "l_toParty L json") (simp_all add: processInvite_def)
    ultimately have eq: "processInvite L env wb =
        (if \<not> valid_party_id (pl_Id party) then Ret (setStatus ''error invalid party id (invite)'' wb)
         else let party = party\<lparr>pl_SeenChats := Map.empty, pl_Packs := []\<rparr> in
           if map_get (wb_PendingInvites wb) (pl_Id party) \<noteq> None \<or> map_get (wb_Parties wb) (pl_Id party) \<noteq> None
           then Ret (setStatus (''reinvite ignored for '' @ pl_Id party) wb)
           else Ret (setStatus (''invite received for '' @ pl_Id party)
             (wb\<lparr>wb_PendingInvites := map_put (pl_Id party) party (wb_PendingInvites wb)\<rparr>)))"
      using r by (simp add: processInvite_def)
    show ?thesis
    proof (cases "valid_party_id (pl_Id party)")
      case True
      show ?thesis
      proof (cases "map_get (wb_PendingInvites wb) (pl_Id party) \<noteq> None \<or> map_get (wb_Parties wb) (pl_Id party) \<noteq> None")
        case True
        with eq assms \<open>valid_party_id (pl_Id party)\<close> show ?thesis by (simp only: Let_def) auto
      next
        case False
        with eq assms True have "wb' = setStatus (''invite received for '' @ pl_Id party)
            (wb\<lparr>wb_PendingInvites := map_put (pl_Id party) (party\<lparr>pl_SeenChats := Map.empty, pl_Packs := []\<rparr>)
              (wb_PendingInvites wb)\<rparr>)"
          by (simp add: Let_def)
        moreover have "pl_Id (party\<lparr>pl_SeenChats := Map.empty, pl_Packs := []\<rparr>) = pl_Id party" by simp
        ultimately show ?thesis using True by blast
      qed
    next
      case False
      with eq assms show ?thesis by auto
    qed
  qed
qed

lemma processInvite_step:
  assumes "processInvite L env wb = Ret wb'" and inv: "node_inv s wb"
  shows "node_inv s wb' \<and> chat_step L wb wb'"
proof -
  from processInvite_cases [OF assms(1)] consider m where "wb' = setStatus m wb"
    | m k party where "pl_Id party = k" "valid_party_id k"
        "wb' = setStatus m (wb\<lparr>wb_PendingInvites := map_put k party (wb_PendingInvites wb)\<rparr>)"
    by blast
  then show ?thesis
  proof cases
    case 1
    with inv tame_inv [of wb wb' s] tame_chat [of wb wb'] show ?thesis by simp
  next
    case 2
    let ?wb = "wb\<lparr>wb_PendingInvites := map_put k party (wb_PendingInvites wb)\<rparr>"
    have "node_inv s ?wb" by (rule node_inv_put(2) [OF inv 2(1,2)])
    moreover have "tame ?wb wb'" by (simp add: 2(3))
    moreover have "chat_step L wb wb'" by (simp add: 2(3) chat_step_def mainline_def setStatus_def)
    ultimately show ?thesis using tame_inv by blast
  qed
qed

lemma ifE:
  assumes "(if c then a else b) = r"
  obtains c and "a = r" | "\<not> c" and "b = r"
  using assms by (auto split: if_splits)

lemma processMessage_step:
  assumes r: "processMessage L now msg wb = Ret wb'" and inv: "node_inv s wb"
  shows "node_inv s wb' \<and> chat_step L wb wb'"
proof -
  define good where "good w \<longleftrightarrow> node_inv s w \<and> chat_step L wb w" for w
  have tame: "good w" if "tame wb w" for w
    using tame_inv [OF that inv] tame_chat [OF that] by (simp add: good_def)
  have other: "processChat L now env wb = Ret w \<Longrightarrow> good w" "processParty L now env wb = Ret w \<Longrightarrow> good w"
      "processInvite L env wb = Ret w \<Longrightarrow> good w" for env w
    using processChat_step processParty_step processInvite_step inv unfolding good_def by blast+
  note handlers = processAnnounce_tame processBootstrap_tame processDisconnect_tame processSuggestionRequest_tame
      processSuggestions_tame processPing_tame processPulse_tame processVerify_tame
  have start: "good wb" "good (setStatus m wb)" "good (chatStatus m wb)" for m
    by (simp_all add: tame)
  have unknown: "wb = w \<Longrightarrow> good w" "chatStatus m wb = w \<Longrightarrow> good w" for m w
    using start by auto
  have nr: "wb_NoReroute wb = Map.empty" using inv by (simp add: node_inv_def)
  show ?thesis
  proof (cases "l_toEnvelope L msg")
    case None
    with r start show ?thesis by (auto simp: processMessage_def good_def)
  next
    case (Some env)
    have "good wb'"
      using r unfolding processMessage_def Some option.case nr
      by (elim bindE ifE) (simp_all add: start other handlers [THEN tame], (erule unknown)+)
    then show ?thesis by (simp add: good_def)
  qed
qed

end
