(* ===== verification/Rescan.thy ===== *)
theory Rescan
  imports PartyFacts
begin

text \<open>
  Sharing files (\<open>white-box/files.go\<close>, lines 235-252, 274-298 and 483-644): hashing an open file, reading
  a \<open>.pack\<close> file, making a pack of the files it lists, and the walk over the shared directory.
  What the file system answers is \<open>fs_env\<close>: the visits \<open>filepath.Walk\<close> makes below a directory (path,
  whether there was an error, whether it is a directory), the fault schedule of a file that can be opened,
  and whether \<open>Stat\<close> works. The content of a file is that of the node's disk.
\<close>

record fs_env =
  fe_walk :: "string \<Rightarrow> (string \<times> bool \<times> bool) list"
  fe_open :: "string \<Rightarrow> bool list option"
  fe_stat :: "string \<Rightarrow> bool"

section \<open>Files\<close>

definition os_Open :: "fs_env \<Rightarrow> disk \<Rightarrow> string \<Rightarrow> osfile option" where
  "os_Open env dsk path = (case (fe_open env path, dsk path) of
     (Some faults, Some content) \<Rightarrow> Some \<lparr>of_Data = content, of_Pos = 0, of_Faults = faults\<rparr>
   | _ \<Rightarrow> None)"

text \<open>\<open>io.Copy\<close> and \<open>ioutil.ReadAll\<close>: reads of up to \<open>n\<close> bytes until the end; \<open>None\<close> is a read error.\<close>

function readAll :: "nat \<Rightarrow> osfile \<Rightarrow> bytes option \<times> osfile" where
  "readAll n f = (case Read n f of
     (ReadErr, f') \<Rightarrow> (None, f')
   | (ReadEOF, f') \<Rightarrow> (Some [], f')
   | (ReadOK buf, f') \<Rightarrow> (let (rest, f'') = readAll n f' in (map_option (append buf) rest, f'')))"
  by pat_completeness auto
termination
  by (relation "measure (\<lambda>(n, f). length (of_Data f) - of_Pos f)") (auto dest!: Read_progress [OF sym])

declare readAll.simps [simp del]

definition sha256File :: "lib \<Rightarrow> osfile \<Rightarrow> WhiteBox \<Rightarrow> (string option \<times> osfile) \<times> WhiteBox" where
  "sha256File L targetFile wb =
     (let (err, f) = Seek 0 0 targetFile in
      if err then ((None, f), setStatus ''error could not seek to start of file'' wb)
      else case readAll 32768 f of
        (None, f) \<Rightarrow> ((None, f), setStatus ''error could not read file for hash'' wb)
      | (Some content, f) \<Rightarrow> ((Some (sha256Bytes (l_sha L) content), f), wb))"

definition unpackFile :: "lib \<Rightarrow> osfile \<Rightarrow> WhiteBox \<Rightarrow> DotPack option \<times> WhiteBox" where
  "unpackFile L targetFile wb =
     (let (err, f) = Seek 0 0 targetFile in
      if err then (None, setStatus ''error seek to start of file for unpack'' wb)
      else case readAll 512 f of
        (None, f) \<Rightarrow> (None, setStatus ''error could not read file for unpack'' wb)
      | (Some contents, f) \<Rightarrow>
          (case l_toDotPack L contents of
             None \<Rightarrow> (None, setStatus ''error could not unmarshal json for unpack'' wb)
           | Some dotPack \<Rightarrow> (Some dotPack, wb)))"

section \<open>Packs\<close>

text \<open>
  One file of a pack; \<open>Inl\<close> is an early return of \<open>buildPack\<close>. The name is the path below the party's
  directory. When \<open>calculateChain\<close> fails it sets a status and the caller sets another.
\<close>

definition build_file ::
    "lib \<Rightarrow> fs_env \<Rightarrow> string \<Rightarrow> string \<Rightarrow> string \<Rightarrow> WhiteBox \<Rightarrow> (WhiteBox + PackFileInfo \<times> WhiteBox) go" where
  "build_file L env partyDir dirPath shortFilePath wb =
     (case l_abs L (Join dirPath shortFilePath) of
        None \<Rightarrow> Ret (Inl (setStatus ''error could not get absolute path for file'' wb))
      | Some sharedFilePathAbs \<Rightarrow>
          if \<not> prefix partyDir sharedFilePathAbs
          then Ret (Inl (setStatus ''error pack file outside of channel dir'' wb))
          else
            let relativePath = TrimLeft (drop (length partyDir) sharedFilePathAbs) in
            case os_Open env (wb_Disk wb) sharedFilePathAbs of
              None \<Rightarrow> Ret (Inl (setStatus ''error opening file in pack'' wb))
            | Some sharedFile \<Rightarrow>
                if \<not> fe_stat env sharedFilePathAbs
                then Ret (Inl (setStatus ''error getting file info for file in pack'' wb))
                else (case sha256File L sharedFile wb of
                  ((None, _), wb) \<Rightarrow> Ret (Inl (setStatus ''error hashing shared file'' wb))
                | ((Some fileHash, sharedFile), wb) \<Rightarrow> do {
                    let sharedFileSize = (of_nat (length (of_Data sharedFile)) :: u64);
                    chain \<leftarrow> calculateChain (l_sha L) sharedFile sharedFileSize;
                    case chain of
                      Inl (status, err) \<Rightarrow> Ret (Inl (setStatus err (setStatus status wb)))
                    | Inr (firstBlockHash, blockMap) \<Rightarrow> do {
                        coverage \<leftarrow> fullCoverage sharedFileSize;
                        blockLookup \<leftarrow> buildBlockLookup blockMap firstBlockHash;
                        Ret (Inr (\<lparr>pf_Name = relativePath, pf_Hash = fileHash, pf_FirstBlockHash = firstBlockHash,
                          pf_Size = sharedFileSize, pf_BlockMap = blockMap, pf_BlockLookup = blockLookup,
                          pf_Coverage = Some coverage, pf_Path = sharedFilePathAbs\<rparr>, wb)) } }))"

fun build_files ::
    "lib \<Rightarrow> fs_env \<Rightarrow> string \<Rightarrow> string \<Rightarrow> string list \<Rightarrow> WhiteBox \<Rightarrow> (WhiteBox + PackFileInfo list \<times> WhiteBox) go" where
  "build_files L env partyDir dirPath [] wb = Ret (Inr ([], wb))"
| "build_files L env partyDir dirPath (p # ps) wb = do {
     r \<leftarrow> build_file L env partyDir dirPath p wb;
     case r of
       Inl wb \<Rightarrow> Ret (Inl wb)
     | Inr (info, wb) \<Rightarrow> do {
         rs \<leftarrow> build_files L env partyDir dirPath ps wb;
         case rs of
           Inl wb \<Rightarrow> Ret (Inl wb)
         | Inr (infos, wb) \<Rightarrow> Ret (Inr (info # infos, wb)) } }"

text \<open>\<open>buildPack\<close>: an unknown party is a nil dereference at the end.\<close>

definition buildPack :: "lib \<Rightarrow> fs_env \<Rightarrow> int \<Rightarrow> string \<Rightarrow> string \<Rightarrow> osfile \<Rightarrow> WhiteBox \<Rightarrow> WhiteBox go" where
  "buildPack L env now partyId path targetFile wb =
     (let partyDir = Join (wb_SharedDir wb) partyId in
      case l_abs L partyDir of
        None \<Rightarrow> Ret (setStatus ''error could not get absolute path for party dir'' wb)
      | Some partyDirAbs \<Rightarrow>
          if \<not> prefix (wb_SharedDir wb) partyDirAbs
          then Ret (setStatus ''error party dir traverses directories'' wb)
          else do {
            selfId \<leftarrow> Peer_Id (wb_PeerSelf wb);
            let (unpacked, wb) = unpackFile L targetFile wb;
            case unpacked of
              None \<Rightarrow> Ret (setStatus ''error unpacking pack file'' wb)
            | Some dotPack \<Rightarrow>
                if dp_Files dotPack = [] then Ret (setStatus ''error no files in pack'' wb)
                else do {
                  r \<leftarrow> build_files L env partyDir (Dir path) (dp_Files dotPack) wb;
                  case r of
                    Inl wb \<Rightarrow> Ret wb
                  | Inr (infos, wb) \<Rightarrow> do {
                      let (ptrs, wb) = alloc_files (map Some infos) wb;
                      files \<leftarrow> sortFiles L (wb_Files wb) ptrs;
                      (pack, packHash) \<leftarrow> sha256Pack L (wb_Files wb)
                        \<lparr>pk_Name = dp_Name dotPack, pk_Files = files, pk_State = COMPLETE, pk_Peers = [selfId \<mapsto> now]\<rparr>;
                      party \<leftarrow> map_get (wb_Parties wb) partyId;
                      Ret (wb\<lparr>wb_Parties := map_put partyId
                        (party\<lparr>pl_Packs := map_put packHash pack (pl_Packs party)\<rparr>) (wb_Parties wb)\<rparr>) } } })"

section \<open>The walk over the shared directory\<close>

text \<open>One visit; the boolean is false when the walker returns an error, which ends the walk.\<close>

definition walker :: "lib \<Rightarrow> fs_env \<Rightarrow> int \<Rightarrow> string \<times> bool \<times> bool \<Rightarrow> WhiteBox \<Rightarrow> (bool \<times> WhiteBox) go" where
  "walker L env now visit wb = (case visit of (path, err, isDir) \<Rightarrow>
     if err then Ret (False, wb)
     else if length path < length (wb_SharedDir wb) then Panic
     else
       let relPath = TrimLeft (drop (length (wb_SharedDir wb)) path);
           partyId = hd (split_on CHR ''/'' relPath)
       in if isDir then Ret (True, wb)
          else case os_Open env (wb_Disk wb) path of
            None \<Rightarrow> Ret (True, setStatus ''could not open files'' wb)
          | Some targetFile \<Rightarrow>
              if \<not> suffix ''.pack'' path then Ret (True, wb)
              else do { wb \<leftarrow> buildPack L env now partyId path targetFile wb; Ret (True, wb) })"

fun Walk :: "lib \<Rightarrow> fs_env \<Rightarrow> int \<Rightarrow> (string \<times> bool \<times> bool) list \<Rightarrow> WhiteBox \<Rightarrow> WhiteBox go" where
  "Walk L env now [] wb = Ret wb"
| "Walk L env now (visit # visits) wb = do {
     (go_on, wb) \<leftarrow> walker L env now visit wb;
     if go_on then Walk L env now visits wb else Ret wb }"

definition rescan_party :: "lib \<Rightarrow> fs_env \<Rightarrow> int \<Rightarrow> string \<Rightarrow> WhiteBox \<Rightarrow> WhiteBox go" where
  "rescan_party L env now partyId wb = (case map_get (wb_Parties wb) partyId of
     None \<Rightarrow> Ret wb
   | Some party \<Rightarrow>
       let wb = wb\<lparr>wb_Parties := map_put partyId (ClearPacks party) (wb_Parties wb)\<rparr>;
           targetDir = Join (wb_SharedDir wb) partyId
       in if \<not> fe_stat env targetDir then Ret wb else Walk L env now (fe_walk env targetDir) wb)"

definition rescan_parties :: "lib \<Rightarrow> fs_env \<Rightarrow> int \<Rightarrow> WhiteBox \<Rightarrow> WhiteBox go" where
  "rescan_parties L env now wb = ofold (rescan_party L env now) (l_keys L (map_keys (wb_Parties wb))) wb"

definition RescanPacks :: "lib \<Rightarrow> fs_env \<Rightarrow> int \<Rightarrow> WhiteBox \<Rightarrow> WhiteBox go" where
  "RescanPacks L env now wb = do {
     wb \<leftarrow> rescan_parties L env now wb;
     advertiseAll L now wb }"

end
