(* ===== verification/RescanFacts.thy ===== *)
theory RescanFacts
  imports Rescan Node
begin

text \<open>
  What a rescan shares. When opened files can be read, the packs that \<open>buildPack\<close> makes list files that
  the node can serve: hash, chain, coverage and block index are those of the file on disk (the condition
  \<open>serves\<close> of \<open>Download\<close>). A rescan leaves every party with such packs only.
\<close>

section \<open>Files\<close>

text \<open>A file info that describes a file on disk, ready to be served.\<close>

definition shared_file :: "lib \<Rightarrow> disk \<Rightarrow> PackFileInfo \<Rightarrow> bool" where
  "shared_file L dsk info \<longleftrightarrow> (\<exists>C. dsk (pf_Path info) = Some C \<and> pf_Hash info = sha256Bytes (l_sha L) C \<and>
     pf_FirstBlockHash info = ghash (l_sha L) C 0 \<and> serves (l_sha L) C dsk info)"

text \<open>Files that can be opened can be read; they are not too long and their blocks have different hashes.\<close>

definition sound_files :: "lib \<Rightarrow> fs_env \<Rightarrow> disk \<Rightarrow> bool" where
  "sound_files L env dsk \<longleftrightarrow> (\<forall>p. fe_open env p = None \<or> fe_open env p = Some []) \<and>
     (\<forall>p C. dsk p = Some C \<longrightarrow> length C < 2 ^ 63 \<and> inj_on (ghash (l_sha L) C) {..last_index C}) \<and>
     (\<forall>x. length (l_sha L x) = 32) \<and>
     (\<forall>names. mset (l_sortNames L names) = mset [0..<length names])"

lemma readAll_spec:
  assumes "of_Faults f = []" and "0 < n"
  shows "\<exists>f'. readAll n f = (Some (drop (of_Pos f) (of_Data f)), f') \<and> of_Data f' = of_Data f \<and> of_Faults f' = []"
  using assms
proof (induction n f rule: readAll.induct)
  case (1 n f)
  show ?case
  proof (cases "of_Pos f < length (of_Data f)")
    case False
    with 1 show ?thesis by (subst readAll.simps) (simp add: Read_def next_fault_def)
  next
    case True
    let ?buf = "take n (drop (of_Pos f) (of_Data f))"
    let ?f = "f\<lparr>of_Pos := of_Pos f + length ?buf\<rparr>"
    have rd: "Read n f = (ReadOK ?buf, ?f)" using True 1 by (simp add: Read_def next_fault_def Let_def)
    have "?buf @ drop (of_Pos f + length ?buf) (of_Data f) = drop (of_Pos f) (of_Data f)"
      using append_take_drop_id [of n "drop (of_Pos f) (of_Data f)"] by (auto simp: min_def add.commute)
    with 1 "1.IH" [OF rd [symmetric] refl] show ?thesis
      by (subst readAll.simps) (auto simp: rd)
  qed
qed

lemma os_Open_sound:
  assumes "sound_files L env dsk" and "os_Open env dsk p = Some f"
  obtains C where "dsk p = Some C" "f = \<lparr>of_Data = C, of_Pos = 0, of_Faults = []\<rparr>" "length C < 2 ^ 63"
    "inj_on (ghash (l_sha L) C) {..last_index C}"
proof -
  from assms(2) obtain faults C where "fe_open env p = Some faults" "dsk p = Some C"
      "f = \<lparr>of_Data = C, of_Pos = 0, of_Faults = faults\<rparr>"
    by (auto simp: os_Open_def split: option.splits)
  moreover from this(1,2) assms(1) have "faults = []" "length C < 2 ^ 63" "inj_on (ghash (l_sha L) C) {..last_index C}"
    unfolding sound_files_def by (metis option.distinct(1) option.inject, metis, metis)
  ultimately show thesis using that by simp
qed

lemma sha256File_spec:
  assumes "of_Faults f = []"
  shows "\<exists>f'. sha256File L f wb = ((Some (sha256Bytes (l_sha L) (of_Data f)), f'), wb) \<and>
    of_Data f' = of_Data f \<and> of_Faults f' = []"
  using readAll_spec [of "f\<lparr>of_Pos := 0\<rparr>" 32768] assms
  by (auto simp: sha256File_def Seek_start)

lemma unpackFile_quiet: "unpackFile L f wb = (r, wb') \<Longrightarrow> quiet wb wb'"
  by (auto simp: unpackFile_def Let_def split: prod.splits if_splits option.splits)

lemma sha256File_quiet: "sha256File L f wb = (r, wb') \<Longrightarrow> quiet wb wb'"
  by (auto simp: sha256File_def Let_def split: prod.splits if_splits option.splits)

lemma build_file_quiet:
  assumes "build_file L env partyDir dirPath p wb = Ret r"
  shows "case r of Inl wb' \<Rightarrow> quiet wb wb' | Inr (info, wb') \<Rightarrow> quiet wb wb'"
  using assms unfolding build_file_def Let_def
  by (auto elim!: bindE split: prod.splits if_splits option.splits sum.splits dest!: sha256File_quiet)

text \<open>The file can be named, lies below the party's directory, and can be opened.\<close>

definition can_share :: "lib \<Rightarrow> fs_env \<Rightarrow> disk \<Rightarrow> string \<Rightarrow> string \<Rightarrow> bool" where
  "can_share L env dsk partyDir path \<longleftrightarrow> (\<exists>q. l_abs L path = Some q \<and> prefix partyDir q \<and>
     os_Open env dsk q \<noteq> None \<and> fe_stat env q)"

lemma build_file_at:
  assumes sound: "sound_files L env (wb_Disk wb)" and at: "l_abs L (Join dirPath p) = Some q" "prefix partyDir q"
      "os_Open env (wb_Disk wb) q \<noteq> None" "fe_stat env q"
  shows "\<exists>info. build_file L env partyDir dirPath p wb = Ret (Inr (info, wb)) \<and> shared_file L (wb_Disk wb) info \<and>
    pf_Path info = q"
proof -
  from at obtain f where q: "l_abs L (Join dirPath p) = Some q" "prefix partyDir q"
      "os_Open env (wb_Disk wb) q = Some f" "fe_stat env q" by auto
  obtain C where C: "wb_Disk wb q = Some C" "f = \<lparr>of_Data = C, of_Pos = 0, of_Faults = []\<rparr>" "length C < 2 ^ 63"
      "inj_on (ghash (l_sha L) C) {..last_index C}"
    by (rule os_Open_sound [OF sound q(3)])
  from sha256File_spec [of f L wb] C(2) obtain f' where f': "of_Data f' = C" "of_Faults f' = []"
      "sha256File L f wb = ((Some (sha256Bytes (l_sha L) C), f'), wb)" by auto
  let ?sz = "of_nat (length C) :: u64"
  have sz: "unat ?sz = length C" using C(3) by (intro unat_of_nat_u64) simp
  then have nonneg: "0 \<le> sint ?sz" using C(3) by (simp add: nonneg_unat)
  from calculateChain_genuine [OF f'(1,2) sz [symmetric] nonneg C(4)] obtain m where
    m: "calculateChain (l_sha L) f' ?sz = Some (Inr (ghash (l_sha L) C 0, m))"
      "\<forall>i \<le> last_index C. m (ghash (l_sha L) C i) = Some (ToBlockInfo (gblock (l_sha L) C i))" by blast
  from fullCoverage_returns [OF nonneg] obtain cov where cov: "fullCoverage ?sz = Ret cov"
      "length cov = length (emptyCoverage ?sz)" "cov_bits cov = {..<nblocks ?sz}" .
  have lookup: "buildBlockLookup m (ghash (l_sha L) C 0) = Some (glookup (l_sha L) C)"
    using buildBlockLookup_loop_genuine [of C "l_sha L" m 0] C(3) m(2) sound
    by (simp add: buildBlockLookup_def sound_files_def)
  show ?thesis
    using q f' C(1) m cov lookup sz
    by (simp add: build_file_def Let_def shared_file_def serves_def cov_words_def)
qed

lemma build_file_ok:
  assumes "sound_files L env (wb_Disk wb)" and "can_share L env (wb_Disk wb) partyDir (Join dirPath p)"
  shows "\<exists>info. build_file L env partyDir dirPath p wb = Ret (Inr (info, wb)) \<and> shared_file L (wb_Disk wb) info"
  using assms build_file_at unfolding can_share_def by blast

lemma build_file_spec:
  assumes sound: "sound_files L env (wb_Disk wb)"
  shows "\<exists>r. build_file L env partyDir dirPath p wb = Ret r \<and>
    (\<forall>info wb'. r = Inr (info, wb') \<longrightarrow> shared_file L (wb_Disk wb) info)"
proof (cases "can_share L env (wb_Disk wb) partyDir (Join dirPath p)")
  case False
  then show ?thesis unfolding build_file_def Let_def can_share_def by (fastforce split: option.split)
next
  case True
  from build_file_ok [OF sound this] show ?thesis by auto
qed

lemma build_files_quiet:
  assumes "build_files L env partyDir dirPath ps wb = Ret r"
  shows "case r of Inl wb' \<Rightarrow> quiet wb wb' | Inr (infos, wb') \<Rightarrow> quiet wb wb'"
  using assms
proof (induction ps arbitrary: wb r)
  case (Cons p ps)
  then show ?case
    by (fastforce elim!: bindE split: sum.splits prod.splits dest!: build_file_quiet intro: quiet_trans)
qed simp

lemma build_files_spec:
  assumes "sound_files L env (wb_Disk wb)"
  shows "\<exists>r. build_files L env partyDir dirPath ps wb = Ret r \<and>
    (\<forall>infos wb'. r = Inr (infos, wb') \<longrightarrow> (\<forall>info \<in> set infos. shared_file L (wb_Disk wb) info))"
  using assms
proof (induction ps arbitrary: wb)
  case (Cons p ps)
  from build_file_spec [OF Cons.prems, of partyDir dirPath p] obtain r where
    r: "build_file L env partyDir dirPath p wb = Ret r"
      "\<And>info wb'. r = Inr (info, wb') \<Longrightarrow> shared_file L (wb_Disk wb) info" by blast
  show ?case
  proof (cases r)
    case (Inr iw)
    obtain info wb1 where iw: "iw = (info, wb1)" by force
    have "quiet wb wb1" using build_file_quiet [OF r(1)] Inr iw by simp
    then have dsk: "wb_Disk wb1 = wb_Disk wb" by (rule quiet_fields)
    with Cons.IH [of wb1] Cons.prems r iw Inr show ?thesis
      by (auto split: sum.split)
  qed (use r in simp)
qed simp

lemma build_files_length:
  "build_files L env d dp ps wb = Ret (Inr (infos, wb')) \<Longrightarrow> length infos = length ps"
  by (induction ps arbitrary: wb infos) (auto elim!: bindE split: sum.splits)

section \<open>Packs\<close>

lemma alloc_files_spec:
  "alloc_files (map Some infos) wb = (ps, wb') \<Longrightarrow>
    ps = map Some [wb_NextFile wb..<wb_NextFile wb + length infos] \<and>
    wb' = wb\<lparr>wb_Files := wb_Files wb', wb_NextFile := wb_NextFile wb + length infos\<rparr> \<and>
    (\<forall>i < length infos. wb_Files wb' (wb_NextFile wb + i) = Some (infos ! i)) \<and>
    (\<forall>a < wb_NextFile wb. wb_Files wb' a = wb_Files wb a)"
proof (induction infos arbitrary: wb ps wb')
  case (Cons f fs)
  let ?wb = "wb\<lparr>wb_Files := (wb_Files wb)(wb_NextFile wb \<mapsto> f), wb_NextFile := Suc (wb_NextFile wb)\<rparr>"
  obtain ps1 wb1 where al: "alloc_files (map Some fs) ?wb = (ps1, wb1)" by force
  with Cons.prems have res: "ps = Some (wb_NextFile wb) # ps1" "wb' = wb1" by (simp_all add: Let_def)
  from Cons.IH [OF al] have ih: "ps1 = map Some [Suc (wb_NextFile wb)..<Suc (wb_NextFile wb) + length fs]"
      "wb1 = ?wb\<lparr>wb_Files := wb_Files wb1, wb_NextFile := Suc (wb_NextFile wb) + length fs\<rparr>"
      "\<And>i. i < length fs \<Longrightarrow> wb_Files wb1 (Suc (wb_NextFile wb) + i) = Some (fs ! i)"
      "\<And>a. a < Suc (wb_NextFile wb) \<Longrightarrow> wb_Files wb1 a = ((wb_Files wb)(wb_NextFile wb \<mapsto> f)) a"
    by simp_all
  show ?case
  proof (intro conjI allI impI)
    show "ps = map Some [wb_NextFile wb..<wb_NextFile wb + length (f # fs)]"
      using res ih(1) by (simp add: upt_conv_Cons del: upt_Suc)
    show "wb' = wb\<lparr>wb_Files := wb_Files wb', wb_NextFile := wb_NextFile wb + length (f # fs)\<rparr>"
      by (subst res(2), subst ih(2)) (simp add: res(2))
    show "wb_Files wb' (wb_NextFile wb + i) = Some ((f # fs) ! i)" if "i < length (f # fs)" for i
      using res ih(3) [of "i - 1"] ih(4) [of "wb_NextFile wb"] that by (cases i) simp_all
    show "wb_Files wb' a = wb_Files wb a" if "a < wb_NextFile wb" for a
      using res ih(4) [of a] that by simp
  qed
qed simp

section \<open>What a rescan changes\<close>

text \<open>
  A step of a rescan emits status lines and datagrams, allocates file infos and changes the packs of
  parties, nothing else.
\<close>

definition frozen :: "WhiteBox \<Rightarrow> WhiteBox" where
  "frozen wb = wb\<lparr>wb_Parties := [], wb_Files := Map.empty, wb_NextFile := 0, wb_out := []\<rparr>"

definition sharing :: "WhiteBox \<Rightarrow> WhiteBox \<Rightarrow> bool" where
  "sharing wb wb' \<longleftrightarrow> frozen wb' = frozen wb \<and> chats_of (wb_out wb') = chats_of (wb_out wb) \<and>
     map (map_prod id ClearPacks) (wb_Parties wb') = map (map_prod id ClearPacks) (wb_Parties wb) \<and>
     wb_NextFile wb \<le> wb_NextFile wb' \<and> (\<forall>a < wb_NextFile wb. wb_Files wb' a = wb_Files wb a)"

lemma frozen_fields:
  assumes "frozen wb' = frozen wb"
  shows "wb_PeerTable wb' = wb_PeerTable wb" "wb_PeerCache wb' = wb_PeerCache wb"
    "wb_IdealPeerIds wb' = wb_IdealPeerIds wb" "wb_EmptyList wb' = wb_EmptyList wb"
    "wb_PeerSelf wb' = wb_PeerSelf wb" "wb_SeenChats wb' = wb_SeenChats wb"
    "wb_PendingInvites wb' = wb_PendingInvites wb" "wb_NoReroute wb' = wb_NoReroute wb"
    "wb_Disk wb' = wb_Disk wb" "wb_SharedDir wb' = wb_SharedDir wb"
  using assms by (simp_all add: frozen_def WhiteBox.defs) (cases wb; cases wb'; simp)+

lemma sharing_fields:
  assumes "sharing wb wb'"
  shows "wb_PeerTable wb' = wb_PeerTable wb" "wb_PeerCache wb' = wb_PeerCache wb"
    "wb_IdealPeerIds wb' = wb_IdealPeerIds wb" "wb_EmptyList wb' = wb_EmptyList wb"
    "wb_PeerSelf wb' = wb_PeerSelf wb" "wb_SeenChats wb' = wb_SeenChats wb"
    "wb_PendingInvites wb' = wb_PendingInvites wb" "wb_NoReroute wb' = wb_NoReroute wb"
    "wb_Disk wb' = wb_Disk wb" "wb_SharedDir wb' = wb_SharedDir wb"
  by (rule frozen_fields [OF conjunct1 [OF assms [unfolded sharing_def]]])+

lemma sharing_refl [simp]: "sharing wb wb"
  by (simp add: sharing_def)

lemma sharing_trans [trans]: "sharing a b \<Longrightarrow> sharing b c \<Longrightarrow> sharing a c"
  by (auto simp: sharing_def)

lemma quiet_sharing: "quiet wb wb' \<Longrightarrow> sharing wb wb'"
  by (auto simp: quiet_def sharing_def frozen_def)

lemma sharing_status [simp]: "sharing a (setStatus m wb) \<longleftrightarrow> sharing a wb"
  by (simp add: sharing_def frozen_def setStatus_def emit_def)

lemma alloc_files_sharing:
  assumes "alloc_files (map Some infos) wb = (ps, wb')"
  shows "sharing wb wb'"
proof -
  note a = alloc_files_spec [OF assms]
  then have eq: "wb' = wb\<lparr>wb_Files := wb_Files wb', wb_NextFile := wb_NextFile wb + length infos\<rparr>" by blast
  have "frozen wb' = frozen wb" "wb_Parties wb' = wb_Parties wb" "wb_out wb' = wb_out wb"
      "wb_NextFile wb \<le> wb_NextFile wb'"
    by (subst eq, simp add: frozen_def)+
  with a show ?thesis by (simp add: sharing_def)
qed

lemma put_existing:
  assumes "map_get ps k = Some party" and "f party' = f party"
  shows "map (map_prod id f) (map_put k party' ps) = map (map_prod id f) ps"
  using assms by (induction ps) (auto split: if_splits)

lemma sharing_put:
  assumes "map_get (wb_Parties wb) k = Some party" and "ClearPacks party' = ClearPacks party"
  shows "sharing wb (wb\<lparr>wb_Parties := map_put k party' (wb_Parties wb)\<rparr>)"
  using put_existing [where f = ClearPacks, OF assms] by (simp add: sharing_def frozen_def)

lemma sharing_keys: "sharing wb wb' \<Longrightarrow> map_keys (wb_Parties wb') = map_keys (wb_Parties wb)"
proof -
  assume "sharing wb wb'"
  then have "map fst (map (map_prod id ClearPacks) (wb_Parties wb')) = map fst (map (map_prod id ClearPacks) (wb_Parties wb))"
    by (simp add: sharing_def)
  then show ?thesis by (simp add: comp_def)
qed

lemma buildPack_sharing:
  assumes "buildPack L env now partyId path f wb = Ret wb'"
  shows "sharing wb wb'"
proof -
  have built: "sharing wb wb4"
    if "sharing wb wb1" "build_files L env d dp ps wb1 = Ret (Inr (infos, wb2))"
      "alloc_files (map Some infos) wb2 = (ptrs, wb3)" "map_get (wb_Parties wb3) partyId = Some party"
      "wb4 = wb3\<lparr>wb_Parties := map_put partyId (party\<lparr>pl_Packs := packs\<rparr>) (wb_Parties wb3)\<rparr>"
    for wb1 d dp ps infos wb2 ptrs wb3 party packs wb4
  proof -
    have "sharing wb wb1" by (rule that(1))
    also have "sharing wb1 wb2" using build_files_quiet [OF that(2)] by (simp add: quiet_sharing)
    also have "sharing wb2 wb3" by (rule alloc_files_sharing [OF that(3)])
    also have "sharing wb3 wb4"
      unfolding that(5) using that(4) by (rule sharing_put) (simp add: ClearPacks_def)
    finally show ?thesis .
  qed
  have early: "sharing wb wb2"
    if "sharing wb wb1" "build_files L env d dp ps wb1 = Ret (Inl wb2)" for wb1 d dp ps wb2
    using that(1) build_files_quiet [OF that(2)] by (auto intro: sharing_trans quiet_sharing)
  show ?thesis
    using assms unfolding buildPack_def Let_def
    by (auto elim!: bindE split: option.splits if_splits prod.splits sum.splits
        dest!: unpackFile_quiet quiet_sharing) (blast intro: early built)+
qed

lemma walker_sharing: "walker L env now visit wb = Ret (b, wb') \<Longrightarrow> sharing wb wb'"
  unfolding walker_def Let_def
  by (auto elim!: bindE split: option.splits if_splits prod.splits intro: buildPack_sharing)

lemma Walk_sharing: "Walk L env now visits wb = Ret wb' \<Longrightarrow> sharing wb wb'"
proof (induction visits arbitrary: wb)
  case (Cons v vs)
  then show ?case by (auto elim!: bindE split: if_splits dest!: walker_sharing intro: sharing_trans)
qed simp

lemma rescan_party_sharing: "rescan_party L env now k wb = Ret wb' \<Longrightarrow> sharing wb wb'"
proof -
  have put: "sharing wb (wb\<lparr>wb_Parties := map_put k (ClearPacks party) (wb_Parties wb)\<rparr>)"
    if "map_get (wb_Parties wb) k = Some party" for party
    using that by (rule sharing_put) (simp add: ClearPacks_def)
  show "rescan_party L env now k wb = Ret wb' \<Longrightarrow> sharing wb wb'"
    unfolding rescan_party_def Let_def
    by (auto split: option.splits if_splits intro: put sharing_trans [OF put] dest!: Walk_sharing)
qed

lemma rescan_parties_sharing: "rescan_parties L env now wb = Ret wb' \<Longrightarrow> sharing wb wb'"
  unfolding rescan_parties_def
  by (erule ofold_invariant) (auto intro: sharing_trans dest: rescan_party_sharing)

section \<open>Packs that are ready to be served\<close>

text \<open>The key of a pack of this name with these files.\<close>

definition pack_key :: "lib \<Rightarrow> string \<Rightarrow> PackFileInfo list \<Rightarrow> string" where
  "pack_key L name infos = hexEncode (l_sha L (pack_preimage name infos))"

definition shared_pack :: "lib \<Rightarrow> WhiteBox \<Rightarrow> string \<Rightarrow> Pack \<Rightarrow> bool" where
  "shared_pack L wb h pack \<longleftrightarrow> pk_State pack = COMPLETE \<and> pk_Files pack \<noteq> [] \<and>
     (\<forall>p \<in> set (pk_Files pack). \<exists>a info. p = Some a \<and> a < wb_NextFile wb \<and> wb_Files wb a = Some info \<and>
        shared_file L (wb_Disk wb) info) \<and>
     (\<exists>infos. deref_all (wb_Files wb) (pk_Files pack) = Ret infos \<and> h = pack_key L (pk_Name pack) infos)"

lemma shared_pack_sharing:
  assumes "shared_pack L wb h pack" and sh: "sharing wb wb'"
  shows "shared_pack L wb' h pack"
proof -
  have heap: "wb_Files wb' a = wb_Files wb a" if "a < wb_NextFile wb" for a using sh that by (simp add: sharing_def)
  have le: "wb_NextFile wb \<le> wb_NextFile wb'" using sh by (simp add: sharing_def)
  have ptr: "\<forall>p \<in> set (pk_Files pack). \<exists>a. p = Some a \<and> a < wb_NextFile wb"
    using assms(1) unfolding shared_pack_def by metis
  have "deref_all (wb_Files wb') ps = deref_all (wb_Files wb) ps" if "\<forall>p \<in> set ps. \<exists>a. p = Some a \<and> a < wb_NextFile wb" for ps
    using that by (induction ps) (auto simp: deref_def heap)
  from this [OF ptr] assms(1) heap le sharing_fields(9) [OF sh] show ?thesis
    unfolding shared_pack_def by (metis less_le_trans)
qed

definition ready :: "lib \<Rightarrow> string set \<Rightarrow> WhiteBox \<Rightarrow> bool" where
  "ready L D wb \<longleftrightarrow> (\<forall>k \<in> D. \<forall>party h pack. map_get (wb_Parties wb) k = Some party \<longrightarrow>
     (h, pack) \<in> set (pl_Packs party) \<longrightarrow> shared_pack L wb h pack)"

text \<open>What the loop of a rescan needs of the node and the files.\<close>

definition can_rescan :: "lib \<Rightarrow> fs_env \<Rightarrow> WhiteBox \<Rightarrow> bool" where
  "can_rescan L env wb \<longleftrightarrow> sound_files L env (wb_Disk wb) \<and> pe_EncPub (wb_PeerSelf wb) \<noteq> None"

lemma can_rescan_sharing: "sharing wb wb' \<Longrightarrow> can_rescan L env wb \<Longrightarrow> can_rescan L env wb'"
  using sharing_fields(5,9) [of wb wb'] by (simp add: can_rescan_def)

lemma deref_all_returns: "\<forall>p \<in> set ps. deref heap p \<noteq> None \<Longrightarrow> \<exists>infos. deref_all heap ps = Ret infos"
  by (induction ps) auto

lemma sortFiles_returns:
  assumes "\<forall>names. mset (l_sortNames L names) = mset [0..<length names]"
    and "\<forall>p \<in> set ps. deref heap p \<noteq> None"
  shows "\<exists>qs. sortFiles L heap ps = Ret qs \<and> mset qs = mset ps"
proof (cases "length ps < 2")
  case False
  obtain infos where infos: "deref_all heap ps = Ret infos" using deref_all_returns [OF assms(2)] by blast
  then have "length infos = length ps" by (simp add: deref_all_conv list_all2_lengthD [symmetric])
  with assms(1) have "mset (l_sortNames L (map pf_Name infos)) = mset [0..<length ps]" by simp
  then have "mset (map (\<lambda>i. ps ! i) (l_sortNames L (map pf_Name infos))) = mset ps"
    by (metis map_nth mset_map)
  with False infos show ?thesis by (simp add: sortFiles_def)
qed (simp add: sortFiles_def)

lemma sha256Pack_returns:
  assumes "\<forall>names. mset (l_sortNames L names) = mset [0..<length names]"
    and "\<forall>p \<in> set (pk_Files pack). deref heap p \<noteq> None"
  shows "\<exists>qs infos. sha256Pack L heap pack = Ret (pack\<lparr>pk_Files := qs\<rparr>, pack_key L (pk_Name pack) infos) \<and>
    mset qs = mset (pk_Files pack) \<and> deref_all heap qs = Ret infos"
proof -
  from sortFiles_returns [OF assms] obtain qs where qs: "sortFiles L heap (pk_Files pack) = Ret qs"
      "mset qs = mset (pk_Files pack)" by blast
  then have "\<forall>p \<in> set qs. deref heap p \<noteq> None" using assms(2) by (metis mset_eq_setD)
  then obtain infos where "deref_all heap qs = Ret infos" using deref_all_returns [of qs heap] by blast
  with qs show ?thesis by (intro exI [of _ qs] exI [of _ infos]) (simp add: sha256Pack_def pack_key_def)
qed

lemma ready_cong: "wb_Parties wb' = wb_Parties wb \<Longrightarrow> sharing wb wb' \<Longrightarrow> ready L D wb \<Longrightarrow> ready L D wb'"
  unfolding ready_def using shared_pack_sharing by metis

lemma ready_put:
  assumes "ready L D wb" and "\<And>h pack. (h, pack) \<in> set (pl_Packs party) \<Longrightarrow> shared_pack L wb h pack"
  shows "ready L (insert k D) (wb\<lparr>wb_Parties := map_put k party (wb_Parties wb)\<rparr>)"
  using assms unfolding ready_def shared_pack_def by (auto simp: map_simps split: if_splits)

lemma ready_add:
  assumes "ready L D wb" and "map_get (wb_Parties wb) k = Some party" and "shared_pack L wb h pack"
  shows "ready L D (wb\<lparr>wb_Parties := map_put k (party\<lparr>pl_Packs := map_put h pack (pl_Packs party)\<rparr>) (wb_Parties wb)\<rparr>)"
  using assms map_put_set [of _ h pack "pl_Packs party"]
  unfolding ready_def shared_pack_def by (auto simp: map_simps split: if_splits) blast+

lemma alloc_shared:
  assumes "alloc_files (map Some infos) wb = (ps, wb')" and "\<forall>info \<in> set infos. shared_file L (wb_Disk wb) info"
    and "p \<in> set ps"
  shows "\<exists>a info. p = Some a \<and> a < wb_NextFile wb' \<and> wb_Files wb' a = Some info \<and> shared_file L (wb_Disk wb') info"
proof -
  note a = alloc_files_spec [OF assms(1)]
  from assms(3) a obtain b where b: "p = Some b" "wb_NextFile wb \<le> b" "b < wb_NextFile wb + length infos"
    by auto
  have nf: "wb_NextFile wb' = wb_NextFile wb + length infos"
    using a by (metis (no_types, lifting) WhiteBox.select_convs WhiteBox.surjective WhiteBox.update_convs)
  have dsk: "wb_Disk wb' = wb_Disk wb"
    by (rule sharing_fields [OF alloc_files_sharing [OF assms(1)]])
  obtain i where i: "b = wb_NextFile wb + i" "i < length infos" using b by (metis le_Suc_ex nat_add_left_cancel_less)
  with a have "wb_Files wb' b = Some (infos ! i)" by simp
  with b nf dsk i assms(2) show ?thesis by simp
qed

text \<open>With readable files \<open>buildPack\<close> returns, and any pack it adds can be served.\<close>

lemma buildPack_ready:
  assumes can: "can_rescan L env wb" and known: "map_get (wb_Parties wb) partyId \<noteq> None" and ready: "ready L D wb"
  shows "\<exists>wb'. buildPack L env now partyId path f wb = Ret wb' \<and> ready L D wb'"
proof -
  obtain selfId where self: "Peer_Id (wb_PeerSelf wb) = Ret selfId"
    using can by (auto simp: can_rescan_def Peer_Id_def)
  let ?d = "Join (wb_SharedDir wb) partyId"
  obtain u wb1 where u: "unpackFile L f wb = (u, wb1)" by force
  have q1: "quiet wb wb1" by (rule unpackFile_quiet [OF u])
  show ?thesis
  proof (cases "\<exists>x dotPack. l_abs L ?d = Some x \<and> prefix (wb_SharedDir wb) x \<and> u = Some dotPack \<and> dp_Files dotPack \<noteq> []")
    case False
    have st: "ready L D (setStatus m wb)" "ready L D (setStatus m wb1)" for m
      using ready ready_cong [of "setStatus m wb" wb L D] ready_cong [of "setStatus m wb1" wb L D] q1
      by (simp_all add: setStatus_def [symmetric] quiet_sharing quiet_fields) (simp_all add: setStatus_def quiet_fields)
    from False show ?thesis
      by (auto simp: buildPack_def self u Let_def st split: option.split)
  next
    case True
    then obtain x dotPack where ok: "l_abs L ?d = Some x" "prefix (wb_SharedDir wb) x" "u = Some dotPack"
        "dp_Files dotPack \<noteq> []" by blast
    have dsk1: "wb_Disk wb1 = wb_Disk wb" using q1 by (rule quiet_fields)
    from can have "sound_files L env (wb_Disk wb1)" by (simp add: can_rescan_def dsk1)
    from build_files_spec [OF this, of ?d "Dir path" "dp_Files dotPack"] obtain r where
      r: "build_files L env ?d (Dir path) (dp_Files dotPack) wb1 = Ret r"
        "\<And>infos wb2. r = Inr (infos, wb2) \<Longrightarrow> \<forall>info \<in> set infos. shared_file L (wb_Disk wb1) info" by blast
    note eq = buildPack_def Let_def self u ok r(1)
    show ?thesis
    proof (cases r)
      case (Inl wb2)
      with build_files_quiet [OF r(1)] q1 have "quiet wb wb2" by (auto intro: quiet_trans)
      with ready ready_cong [of wb2 wb L D] have "ready L D wb2" by (simp add: quiet_sharing quiet_fields)
      with Inl show ?thesis by (simp add: eq)
    next
      case (Inr iw)
      obtain infos wb2 where iw: "iw = (infos, wb2)" by force
      with build_files_quiet [OF r(1)] q1 Inr have q2: "quiet wb wb2" by (auto intro: quiet_trans)
      obtain ptrs wb3 where al: "alloc_files (map Some infos) wb2 = (ptrs, wb3)" by force
      have s23: "sharing wb2 wb3" by (rule alloc_files_sharing [OF al])
      from r(2) Inr iw dsk1 q2 have shared: "\<forall>info \<in> set infos. shared_file L (wb_Disk wb2) info"
        by (simp add: quiet_fields)
      have "wb_Parties wb3 = wb_Parties wb2"
        using alloc_files_spec [OF al] by (metis (no_types, lifting) WhiteBox.ext_inject WhiteBox.surjective WhiteBox.update_convs)
      then have ps: "wb_Parties wb3 = wb_Parties wb" using q2 by (simp add: quiet_fields)
      have s3: "sharing wb wb3" using quiet_sharing [OF q2] s23 by (rule sharing_trans)
      note alloc = alloc_shared [OF al shared]
      have sorts: "\<forall>names. mset (l_sortNames L names) = mset [0..<length names]"
        using can by (simp add: can_rescan_def sound_files_def)
      have ptr: "\<forall>p \<in> set ptrs. deref (wb_Files wb3) p \<noteq> None"
        using alloc by (fastforce simp: deref_def)
      from sortFiles_returns [OF sorts ptr] obtain files where files: "sortFiles L (wb_Files wb3) ptrs = Ret files"
          "mset files = mset ptrs" by blast
      let ?pack = "\<lparr>pk_Name = dp_Name dotPack, pk_Files = files, pk_State = COMPLETE, pk_Peers = [selfId \<mapsto> now]\<rparr>"
      from sha256Pack_returns [OF sorts, of ?pack "wb_Files wb3"] mset_eq_setD [OF files(2)] files(2) ptr
      obtain qs ordered where qs: "sha256Pack L (wb_Files wb3) ?pack = Ret (?pack\<lparr>pk_Files := qs\<rparr>, pack_key L (dp_Name dotPack) ordered)"
          "mset qs = mset ptrs" "deref_all (wb_Files wb3) qs = Ret ordered" by auto
      have ne: "ptrs \<noteq> []" using alloc_files_spec [OF al] build_files_length [OF r(1) [unfolded Inr iw]] ok(4) by auto
      have "set qs = set ptrs" using qs(2) by (rule mset_eq_setD)
      then have pack: "shared_pack L wb3 (pack_key L (dp_Name dotPack) ordered) (?pack\<lparr>pk_Files := qs\<rparr>)"
        using alloc qs(3) ne unfolding shared_pack_def by auto
      obtain party where party: "map_get (wb_Parties wb3) partyId = Some party" using known ps by auto
      from ready_add [OF ready_cong [OF ps s3 ready] party pack] show ?thesis
        using party qs(1) files(1) by (auto simp: eq Inr iw al)
    qed
  qed
qed

text \<open>Every path the walk visits lies below the shared directory, in the directory of a party.\<close>

definition visits_parties :: "WhiteBox \<Rightarrow> (string \<times> bool \<times> bool) list \<Rightarrow> bool" where
  "visits_parties wb visits \<longleftrightarrow> (\<forall>(path, err, isDir) \<in> set visits. \<not> err \<longrightarrow>
     length (wb_SharedDir wb) \<le> length path \<and>
     (\<not> isDir \<longrightarrow> map_get (wb_Parties wb)
       (hd (split_on CHR ''/'' (TrimLeft (drop (length (wb_SharedDir wb)) path)))) \<noteq> None))"

lemma sharing_known: "sharing wb wb' \<Longrightarrow> map_get (wb_Parties wb') k = None \<longleftrightarrow> map_get (wb_Parties wb) k = None"
  using sharing_keys [of wb wb'] by (simp add: map_of_eq_None_iff) (metis list.set_map)

lemma visits_sharing: "sharing wb wb' \<Longrightarrow> visits_parties wb' visits \<longleftrightarrow> visits_parties wb visits"
  by (simp add: visits_parties_def sharing_known sharing_fields(10))

lemma walker_ready:
  assumes "can_rescan L env wb" and "visits_parties wb (visit # visits)" and "ready L D wb"
  shows "\<exists>go_on wb'. walker L env now visit wb = Ret (go_on, wb') \<and> ready L D wb'"
proof -
  obtain path err isDir where v: "visit = (path, err, isDir)" by (cases visit)
  show ?thesis
  proof (cases "err \<or> isDir \<or> os_Open env (wb_Disk wb) path = None \<or> \<not> suffix ''.pack'' path")
    case True
    have "ready L D (setStatus ''could not open files'' wb)"
      using assms(3) by (rule ready_cong [rotated 2]) (simp_all, simp add: setStatus_def)
    with True assms(2,3) show ?thesis
      by (auto simp: walker_def v Let_def visits_parties_def split: option.split)
  next
    case False
    then obtain f where f: "os_Open env (wb_Disk wb) path = Some f" by auto
    from buildPack_ready [OF assms(1) _ assms(3),
        of "hd (split_on CHR ''/'' (TrimLeft (drop (length (wb_SharedDir wb)) path)))" now path f] assms(2) False f
    show ?thesis by (auto simp: walker_def v Let_def visits_parties_def)
  qed
qed

lemma Walk_ready:
  assumes "can_rescan L env wb" and "visits_parties wb visits" and "ready L D wb"
  shows "\<exists>wb'. Walk L env now visits wb = Ret wb' \<and> ready L D wb'"
  using assms
proof (induction visits arbitrary: wb)
  case (Cons v vs)
  from walker_ready [OF Cons.prems] obtain go_on wb1 where
    w: "walker L env now v wb = Ret (go_on, wb1)" "ready L D wb1" by blast
  have s: "sharing wb wb1" by (rule walker_sharing [OF w(1)])
  have "visits_parties wb vs" using Cons.prems(2) by (simp add: visits_parties_def)
  with Cons.IH [of wb1] Cons.prems(1) w s show ?case
    by (simp add: can_rescan_sharing [OF s] visits_sharing)
qed simp

lemma rescan_party_ready:
  assumes can: "can_rescan L env wb" and ready: "ready L D wb"
    and visits: "visits_parties wb (fe_walk env (Join (wb_SharedDir wb) k))"
  shows "\<exists>wb'. rescan_party L env now k wb = Ret wb' \<and> ready L (insert k D) wb'"
proof (cases "map_get (wb_Parties wb) k")
  case None
  with ready show ?thesis by (auto simp: rescan_party_def ready_def)
next
  case (Some party)
  let ?wb = "wb\<lparr>wb_Parties := map_put k (ClearPacks party) (wb_Parties wb)\<rparr>"
  have s: "sharing wb ?wb" using Some by (rule sharing_put) (simp add: ClearPacks_def)
  have r: "ready L (insert k D) ?wb" using ready by (rule ready_put) (simp add: ClearPacks_def)
  from Walk_ready [OF can_rescan_sharing [OF s can] _ r, of "fe_walk env (Join (wb_SharedDir wb) k)" now] visits
  show ?thesis using Some r by (simp add: rescan_party_def Let_def visits_sharing [OF s])
qed

lemma rescan_parties_ready:
  assumes can: "can_rescan L env wb" and visits: "\<forall>k. visits_parties wb (fe_walk env (Join (wb_SharedDir wb) k))"
    and ready: "ready L D wb"
  shows "\<exists>wb'. ofold (rescan_party L env now) ks wb = Ret wb' \<and> ready L (set ks \<union> D) wb'"
  using assms
proof (induction ks arbitrary: wb D)
  case (Cons k ks)
  from rescan_party_ready [OF Cons.prems(1,3)] Cons.prems(2) obtain wb1 where
    w: "rescan_party L env now k wb = Ret wb1" "ready L (insert k D) wb1" by blast
  have s: "sharing wb wb1" by (rule rescan_party_sharing [OF w(1)])
  with Cons.IH [OF can_rescan_sharing [OF s Cons.prems(1)] _ w(2)] Cons.prems(2) w(1) show ?case
    by (simp add: visits_sharing [OF s] sharing_fields(10))
qed simp

end
