(* ===== verification/Reach.thy ===== *)
theory Reach
  imports NodeInv RescanFacts
begin

text \<open>
  The runs of a node: \<open>node_step\<close> interleaves, in any order, the messages it receives, one round of each
  of its goroutines, and the commands of its user, the environment answering anew at every step. Reachable states satisfy the invariant of \<open>NodeInv\<close>,
  every chat is shown once, and no message for another node is ever forwarded.
\<close>

section \<open>Steps\<close>

inductive node_op :: "lib \<Rightarrow> WhiteBox \<Rightarrow> WhiteBox \<Rightarrow> bool" for L where
  receive: "processMessage L now msg wb = Ret wb' \<Longrightarrow> node_op L wb wb'"
| pings: "SendPings L now wb = Ret (go_on, wb') \<Longrightarrow> node_op L wb wb'"
| bootstrap: "SendBootstrap L now addr peerId wb = Ret wb' \<Longrightarrow> node_op L wb wb'"
| say: "SendChat L now text wb = Ret wb' \<Longrightarrow> node_op L wb wb'"
| leave: "SendDisconnect L now wb = Ret wb' \<Longrightarrow> node_op L wb wb'"
| start: "PartyStart idBytes name wb = Ret (partyId, wb') \<Longrightarrow> node_op L wb wb'"
| accept: "AcceptInvite L now partyId wb = Ret wb' \<Longrightarrow> node_op L wb wb'"
| party_say: "map_get (wb_Parties wb) partyId = Some party \<Longrightarrow> Party_SendChat L now party text wb = Ret wb' \<Longrightarrow>
    node_op L wb wb'"
| invite: "map_get (wb_Parties wb) partyId = Some party \<Longrightarrow> SendInvite L now party minp wb = Ret wb' \<Longrightarrow>
    node_op L wb wb'"
| party_leave: "map_get (wb_Parties wb) partyId = Some party \<Longrightarrow> Party_SendDisconnect L now party wb = Ret wb' \<Longrightarrow>
    node_op L wb wb'"
| start_pack: "map_get (wb_Parties wb) partyId = Some party \<Longrightarrow> StartPack L packHash party wb = Ret (party', wb') \<Longrightarrow>
    node_op L wb (wb'\<lparr>wb_Parties := map_put partyId party' (wb_Parties wb')\<rparr>)"
| request_files: "FileRequester L now wb = Ret wb' \<Longrightarrow> node_op L wb wb'"
| serve_request: "RequestSender L now wb = Ret (go_on, wb') \<Longrightarrow> node_op L wb wb'"
| write_block: "wb_VerifiedBlockWriter fault wb = Ret wb' \<Longrightarrow> node_op L wb wb'"
| advertise: "advertiseAll L now wb = Ret wb' \<Longrightarrow> node_op L wb wb'"
| rescan: "RescanPacks L env now wb = Ret wb' \<Longrightarrow> node_op L wb wb'"
| look_up: "IdFront L peerId wb = Ret (front, wb') \<Longrightarrow> node_op L wb wb'"
| leave_parties: "DisconnectParties L now wb = Ret wb' \<Longrightarrow> node_op L wb wb'"

text \<open>
  What the environment answers may differ from step to step: the spare capacity of buffers, the nonces of
  sealed boxes, whether an address can be dialled, the order of map iterations and of equal names, random
  choices, absolute paths and the faults of the file system. Signatures, digests, JSON and the format of times are the
  same throughout.
\<close>

definition same_program :: "lib \<Rightarrow> lib \<Rightarrow> bool" where
  "same_program L L' \<longleftrightarrow> (\<exists>spare seal dial keys names rnd abs mkdir write zero.
     L' = L\<lparr>l_spare := spare, l_seal := seal, l_dial := dial, l_keys := keys, l_sortNames := names, l_rnd := rnd,
       l_abs := abs, l_mkdir := mkdir, l_writeFile := write, l_zeroFaults := zero\<rparr>)"

definition node_step :: "lib \<Rightarrow> WhiteBox \<Rightarrow> WhiteBox \<Rightarrow> bool" where
  "node_step L wb wb' \<longleftrightarrow> (\<exists>L'. same_program L L' \<and> node_op L' wb wb')"

lemma same_program_refl: "same_program L L"
  unfolding same_program_def
  by (rule exI [of _ "l_spare L"], rule exI [of _ "l_seal L"], rule exI [of _ "l_dial L"], rule exI [of _ "l_keys L"],
      rule exI [of _ "l_sortNames L"], rule exI [of _ "l_rnd L"], rule exI [of _ "l_abs L"], rule exI [of _ "l_mkdir L"],
      rule exI [of _ "l_writeFile L"], rule exI [of _ "l_zeroFaults L"]) simp

lemma node_op_step: "node_op L wb wb' \<Longrightarrow> node_step L wb wb'"
  using same_program_refl by (auto simp: node_step_def)

lemma chat_step_same:
  assumes "same_program L L'"
  shows "chat_step L' wb wb' = chat_step L wb wb'"
proof -
  have "l_timeString L' = l_timeString L" using assms by (auto simp: same_program_def)
  then show ?thesis unfolding chat_step_def chat_key_def by simp
qed

text \<open>A node that was started with 32-byte keys and ran for some steps.\<close>

definition started :: "nat \<Rightarrow> WhiteBox \<Rightarrow> bool" where
  "started s wb \<longleftrightarrow> (\<exists>home mkdir fresh dir addr port self.
     New home mkdir fresh dir addr port self = Ret wb \<and> length (pe_SignPub (wb_PeerSelf wb)) = 32 \<and>
     SetBytes (pe_SignPub (wb_PeerSelf wb)) = s)"

definition reachable :: "lib \<Rightarrow> nat \<Rightarrow> WhiteBox \<Rightarrow> bool" where
  "reachable L s wb \<longleftrightarrow> (\<exists>wb0. started s wb0 \<and> (node_step L)\<^sup>*\<^sup>* wb0 wb)"

section \<open>Every step keeps the invariant\<close>

text \<open>A step that only changes the parties, keeping the invariant, and shows no chat.\<close>

definition mild :: "nat \<Rightarrow> WhiteBox \<Rightarrow> WhiteBox \<Rightarrow> bool" where
  "mild s wb wb' \<longleftrightarrow> (node_inv s wb \<longrightarrow> node_inv s wb') \<and> wb_SeenChats wb' = wb_SeenChats wb \<and> mainline wb' = mainline wb"

lemma mild_refl [simp]: "mild s wb wb"
  by (simp add: mild_def)

lemma mild_trans [trans]: "mild s a b \<Longrightarrow> mild s b c \<Longrightarrow> mild s a c"
  by (simp add: mild_def)

lemma tame_mild: "tame wb wb' \<Longrightarrow> mild s wb wb'"
  using tame_inv [of wb wb' s] by (auto simp: mild_def tame_def aside_def mainline_def)

lemma quiet_mild: "quiet wb wb' \<Longrightarrow> mild s wb wb'"
  by (rule tame_mild) (rule quiet_tame)

lemma calm_mild: "calm wb wb' \<Longrightarrow> mild s wb wb'"
  by (rule tame_mild) (rule calm_tame)

lemma mild_step: "mild s wb wb' \<Longrightarrow> node_inv s wb \<Longrightarrow> node_inv s wb' \<and> chat_step L wb wb'"
  by (simp add: mild_def chat_step_def)

lemma mild_ofold:
  assumes "ofold f xs wb = Ret wb'" and "\<And>x a b. f x a = Ret b \<Longrightarrow> mild s a b"
  shows "mild s wb wb'"
  using assms(1) mild_refl by (rule ofold_invariant) (blast intro: mild_trans assms(2))

lemma mild_put: "pl_Id party = k \<Longrightarrow> valid_party_id k \<Longrightarrow>
    mild s wb (wb\<lparr>wb_Parties := map_put k party (wb_Parties wb)\<rparr>)"
  using node_inv_put by (auto simp: mild_def mainline_def)

lemma mild_del: "mild s wb (wb\<lparr>wb_Parties := map_del k (wb_Parties wb)\<rparr>)"
    "mild s wb (wb\<lparr>wb_PendingInvites := map_del k (wb_PendingInvites wb)\<rparr>)"
  using node_inv_del by (auto simp: mild_def mainline_def)

lemma mild_status [simp]: "mild s a (setStatus m wb) \<longleftrightarrow> mild s a wb"
  using tame_mild [of "setStatus m wb" wb s] tame_mild [of wb "setStatus m wb" s] mild_trans by auto

text \<open>Putting back a party that was there: its id is valid when the invariant holds.\<close>

lemma mild_replace:
  assumes "map_get (wb_Parties wb) k = Some party" and "mild s wb wb1" and "pl_Id party' = pl_Id party"
  shows "mild s wb (wb1\<lparr>wb_Parties := map_put k party' (wb_Parties wb1)\<rparr>)"
proof (cases "node_inv s wb")
  case True
  with mild_trans [OF assms(2) mild_put [of party' k]] node_inv_party [OF True assms(1)] assms(3) show ?thesis by simp
next
  case False
  with assms(2) show ?thesis by (simp add: mild_def mainline_def)
qed

lemma SendPings_tame: "SendPings L now wb = Ret (b, wb') \<Longrightarrow> tame wb wb'"
proof -
  assume r: "SendPings L now wb = Ret (b, wb')"
  then obtain wb1 where st: "removeStalePeers now wb = Ret wb1" by (auto simp: SendPings_def elim!: bindE)
  have "quiet wb1 wb'"
  proof -
    have "quiet wb1 (snd st)" if "ofold (\<lambda>bucket. ofold (ping_entry j) bucket) t ([], wb1) = Ret st" for t j st
      using quiet_ofold_snd [OF that quiet_ofold_snd [OF _ quiet_ping_entry]] by simp
    with r st show ?thesis
      by (auto simp: SendPings_def Let_def elim!: bindE split: option.splits)
  qed
  with removeStalePeers_tame [OF st] show "tame wb wb'" using quiet_tame tame_trans by blast
qed

lemma PartyStart_mild: "PartyStart idBytes name wb = Ret (i, wb') \<Longrightarrow> mild s wb wb'"
  unfolding PartyStart_def Let_def
  by (auto elim!: bindE split: if_splits intro!: mild_put)

lemma Party_SendDisconnect_mild: "Party_SendDisconnect L now party wb = Ret wb' \<Longrightarrow> mild s wb wb'"
  unfolding Party_SendDisconnect_def Let_def
  by (auto elim!: bindE split: option.splits dest!: quiet_sendToNeighbors quiet_mild [of _ _ s])
    (blast intro: mild_trans mild_del)

lemma AcceptInvite_mild:
  assumes "AcceptInvite L now partyId wb = Ret wb'"
  shows "mild s wb wb'"
proof (cases "map_get (wb_Parties wb) partyId")
  case (Some p)
  with assms show ?thesis by (auto simp: AcceptInvite_def split: option.splits)
next
  case None
  let ?wb = "wb\<lparr>wb_PendingInvites := map_del partyId (wb_PendingInvites wb)\<rparr>"
  from None assms obtain party wb1 where p: "map_get (wb_PendingInvites wb) partyId = Some party"
      "Party_SendAnnounce L now party ?wb = Ret wb1"
      "wb' = setStatus (''accepted invite '' @ pl_Id party)
         (wb1\<lparr>wb_Parties := map_put (pl_Id party) party (wb_Parties wb1)\<rparr>)"
    by (auto simp: AcceptInvite_def Let_def elim!: bindE)
  have "mild s wb wb1" using quiet_mild [OF quiet_Party_SendAnnounce [OF p(2)]] mild_del mild_trans by blast
  then have "mild s wb (wb1\<lparr>wb_Parties := map_put (pl_Id party) party (wb_Parties wb1)\<rparr>)"
  proof (cases "node_inv s wb")
    case True
    then have "valid_party_id (pl_Id party)"
      using map_of_SomeD [OF p(1)] by (auto simp: node_inv_def parties_ok_def)
    from mild_trans [OF \<open>mild s wb wb1\<close> mild_put [OF refl this]] show ?thesis .
  qed (simp add: mild_def mainline_def)
  then show ?thesis by (simp add: p(3))
qed

lemma calm_fold_status [simp]: "calm a (fold setStatus msgs wb) \<longleftrightarrow> calm a wb"
  by (induction msgs arbitrary: wb) simp_all

lemma start_pack_file_calm: "start_pack_file L p wb = Ret wb' \<Longrightarrow> calm wb wb'"
  by (auto simp: start_pack_file_def wb_writeZeroFile_def Let_def elim!: bindE split: prod.splits)

lemma StartPack_calm:
  assumes "StartPack L h party wb = Ret (party', wb')"
  shows "calm wb wb' \<and> pl_Id party' = pl_Id party"
proof -
  have "calm wb w" if "ofold (start_pack_file L) ps (wb\<lparr>wb_Disk := d, wb_Files := heap\<rparr>) = Ret w" for ps d heap w
  proof -
    have "calm wb (wb\<lparr>wb_Disk := d, wb_Files := heap\<rparr>)" by (simp add: calm_def)
    also have "calm \<dots> w" by (rule calm_ofold [OF that start_pack_file_calm])
    finally show ?thesis .
  qed
  with assms show ?thesis
    unfolding StartPack_def Let_def by (auto elim!: bindE split: option.splits if_splits prod.splits)
qed

lemma request_pack_mild: "request_pack L now i h wb = Ret wb' \<Longrightarrow> mild s wb wb'"
  unfolding request_pack_def
  by (auto elim!: bindE split: option.splits if_splits prod.splits
      intro!: mild_replace dest: quiet_SendRequests quiet_mild)

lemma FileRequester_mild: "FileRequester L now wb = Ret wb' \<Longrightarrow> mild s wb wb'"
  unfolding FileRequester_def
  by (erule mild_ofold) (auto split: option.splits elim!: mild_ofold intro: request_pack_mild)

lemma RequestSender_calm: "RequestSender L now wb = Ret (b, wb') \<Longrightarrow> calm wb wb'"
  unfolding RequestSender_def Let_def
  by (auto elim!: bindE split: list.splits option.splits if_splits dest!: quiet_SendFulfillment quiet_calm)
    (auto simp: calm_def)

lemma wb_VerifiedBlockWriter_calm: "wb_VerifiedBlockWriter fault wb = Ret wb' \<Longrightarrow> calm wb wb'"
  unfolding wb_VerifiedBlockWriter_def Let_def
  by (auto elim!: bindE split: list.splits option.splits prod.splits)

lemma for_parties_mild:
  assumes "for_parties L f wb = Ret wb'" and "\<And>p a b. f p a = Ret b \<Longrightarrow> mild s a b"
  shows "mild s wb wb'"
  using assms(1) unfolding for_parties_def by (rule mild_ofold) (auto split: option.splits dest: assms(2))

text \<open>A rescan keeps the ids of the parties.\<close>

lemma sharing_mild:
  assumes "sharing wb wb'"
  shows "mild s wb wb'"
proof -
  note f = sharing_fields [OF assms]
  have eq: "map (map_prod id ClearPacks) (wb_Parties wb') = map (map_prod id ClearPacks) (wb_Parties wb)"
    using assms by (simp add: sharing_def)
  have "\<exists>q. (k, q) \<in> set (wb_Parties wb) \<and> pl_Id q = pl_Id p" if "(k, p) \<in> set (wb_Parties wb')" for k p
  proof -
    have "(k, ClearPacks p) \<in> set (map (map_prod id ClearPacks) (wb_Parties wb'))" using that by force
    then obtain q where q: "(k, q) \<in> set (wb_Parties wb)" "ClearPacks q = ClearPacks p" unfolding eq by force
    from arg_cong [OF q(2), of pl_Id] have "pl_Id q = pl_Id p" by (simp add: ClearPacks_def)
    with q(1) show ?thesis by blast
  qed
  with sharing_keys [OF assms] have "parties_ok wb'" if "parties_ok wb"
    using that unfolding parties_ok_def f(7) by metis
  moreover have "wf_wb s wb' \<longleftrightarrow> wf_wb s wb" by (rule wf_wb_cong) (simp_all add: f)
  moreover have "chats_of (wb_out wb') = chats_of (wb_out wb)" using assms by (simp add: sharing_def)
  ultimately show ?thesis by (simp add: mild_def node_inv_def mainline_def f)
qed

lemma RescanPacks_mild:
  assumes "RescanPacks L env now wb = Ret wb'"
  shows "mild s wb wb'"
proof -
  obtain wb1 where w: "rescan_parties L env now wb = Ret wb1" "advertiseAll L now wb1 = Ret wb'"
    using assms by (auto simp: RescanPacks_def elim!: bindE)
  have "mild s wb wb1" by (rule sharing_mild [OF rescan_parties_sharing [OF w(1)]])
  also have "mild s wb1 wb'"
    using w(2) unfolding advertiseAll_def by (rule for_parties_mild) (rule quiet_mild [OF quiet_AdvertisePacks])
  finally show ?thesis .
qed

lemma node_op_inv:
  assumes "node_op L wb wb'" and inv: "node_inv s wb"
  shows "node_inv s wb' \<and> chat_step L wb wb'"
proof -
  have "mild s wb wb' \<or> (\<exists>now msg. processMessage L now msg wb = Ret wb')"
    using assms(1)
  proof cases
    case (start_pack i party h party' wb1)
    from StartPack_calm [OF start_pack(3)] show ?thesis
      using mild_replace [OF start_pack(2) calm_mild] start_pack(1) by blast
  qed (auto intro: tame_mild SendPings_tame PartyStart_mild AcceptInvite_mild Party_SendDisconnect_mild
      FileRequester_mild quiet_mild quiet_IdFront quiet_SendBootstrap quiet_SendChat quiet_SendDisconnect quiet_Party_SendChat
      quiet_SendInvite calm_mild RequestSender_calm wb_VerifiedBlockWriter_calm
      RescanPacks_mild simp: advertiseAll_def DisconnectParties_def elim!: for_parties_mild dest: quiet_AdvertisePacks)
  then show ?thesis using mild_step processMessage_step inv by blast
qed

lemma node_step_inv: "node_step L wb wb' \<Longrightarrow> node_inv s wb \<Longrightarrow> node_inv s wb' \<and> chat_step L wb wb'"
  unfolding node_step_def using node_op_inv chat_step_same by blast

section \<open>A new node\<close>

lemma InitTable_self: "InitTable i wb = Ret wb' \<Longrightarrow> wb_PeerSelf wb' = wb_PeerSelf wb"
  unfolding InitTable_def
  by (erule ofold_invariant [where P = "\<lambda>w. wb_PeerSelf w = wb_PeerSelf wb"]) (auto elim!: bindE simp: Let_def)

lemma started_inv:
  assumes "started s wb"
  shows "node_inv s wb \<and> wb_SeenChats wb = Map.empty \<and> mainline wb = []"
proof -
  from assms obtain home mkdir fresh dir addr port self where
    r: "New home mkdir fresh dir addr port self = Ret wb" and len: "length (pe_SignPub (wb_PeerSelf wb)) = 32"
    and s: "SetBytes (pe_SignPub (wb_PeerSelf wb)) = s" by (auto simp: started_def)
  from r obtain wb0 wb1 wb2 wb3 where c: "InitFiles home mkdir dir (zero_wb\<lparr>wb_Self := self\<rparr>) = Ret wb0"
      "GetKeys fresh (addr @ '':'' @ port) wb0 = Ret wb1"
      "CalculateIdealTableSelf (slice (se_SignPub (wb_Self wb1))) wb1 = Ret wb2"
      "InitTable (slice (se_SignPub (wb_Self wb2))) wb2 = Ret wb3"
      "wb = chatStatus (addr @ ''/'' @ port @ ''/'' @ ShortId (wb_PeerSelf wb3))
         (wb3\<lparr>wb_BsId := addr @ ''/'' @ port @ ''/'' @ ShortId (wb_PeerSelf wb3), wb_EmptyList := True\<rparr>)"
    unfolding New_def Let_def by (elim bindE) simp
  have wb1: "slice (se_SignPub (wb_Self wb1)) = pe_SignPub (wb_PeerSelf wb1)" "wb_SeenChats wb1 = Map.empty"
      "wb_out wb1 = []" "wb_Parties wb1 = []" "wb_PendingInvites wb1 = []" "wb_NoReroute wb1 = Map.empty"
      "wb_PeerTable wb1 = replicate 256 []" "wb_PeerCache wb1 = Map.empty"
    using c(1,2) by (auto simp: InitFiles_def GetKeys_def SetSelf_def zero_wb_def Let_def elim!: bindE split: if_splits option.splits)
  have wb2: "wb_PeerSelf wb2 = wb_PeerSelf wb1" "wb_Self wb2 = wb_Self wb1"
    using c(3) by (auto simp: CalculateIdealTableSelf_def elim!: bindE)
  have self: "wb_PeerSelf wb = wb_PeerSelf wb1"
    using InitTable_self [OF c(4)] wb2 by (simp add: c(5))
  with len have len1: "length (pe_SignPub (wb_PeerSelf wb1)) = 32" by simp
  have wb2': "wb2 = wb1\<lparr>wb_IdealPeerIds := ideal_ids s\<rparr>"
    using c(3) self s by (simp add: CalculateIdealTableSelf_def wb1(1) calculateIdealTable_32 [OF len1])
  have wb3: "wb3 = wb2\<lparr>wb_PeerTable := replicate 256 []\<rparr>"
    using c(4) InitTable_ideal [of wb2 s] by (simp add: wb2')
  show ?thesis
    using self s wb1 by (simp add: c(5) wb3 wb2' node_inv_def parties_ok_def wf_wb_def mainline_def chatStatus_def)
qed

lemma reachable_inv:
  assumes "reachable L s wb"
  shows "node_inv s wb"
proof -
  from assms obtain wb0 where "started s wb0" "(node_step L)\<^sup>*\<^sup>* wb0 wb" by (auto simp: reachable_def)
  from this(2,1) show ?thesis
    by (induction rule: rtranclp_induct) (auto simp: started_inv node_step_inv)
qed

section \<open>Gossip without repetition\<close>

text \<open>
  The contract of a node that passes on every item once: a step either sees nothing new and shows
  nothing, or sees one new key and shows one item of that key.
\<close>

locale gossip =
  fixes st :: "'s \<Rightarrow> 's \<Rightarrow> bool" and inv :: "'s \<Rightarrow> bool" and seen :: "'s \<Rightarrow> ('k \<rightharpoonup> bool)" and shown :: "'s \<Rightarrow> 'c list"
    and key_of :: "'c \<Rightarrow> 'k \<Rightarrow> bool"
  assumes inv_step: "st a b \<Longrightarrow> inv a \<Longrightarrow> inv b"
    and once: "st a b \<Longrightarrow> inv a \<Longrightarrow> (seen b = seen a \<and> shown b = shown a) \<or>
      (\<exists>k c. seen a k = None \<and> seen b = (seen a)(k \<mapsto> True) \<and> shown b = shown a @ [c] \<and> key_of c k)"
begin

lemma run_inv: "st\<^sup>*\<^sup>* a b \<Longrightarrow> inv a \<Longrightarrow> inv b"
  by (induction rule: rtranclp_induct) (auto intro: inv_step)

text \<open>What a run shows and what it remembers correspond item by item.\<close>

lemma run_keys:
  assumes "st\<^sup>*\<^sup>* a b" and "inv a"
  shows "\<exists>cs ks. shown b = shown a @ cs \<and> list_all2 key_of cs ks \<and> distinct ks \<and>
    set ks \<inter> dom (seen a) = {} \<and> dom (seen b) = dom (seen a) \<union> set ks"
  using assms(1)
proof (induction rule: rtranclp_induct)
  case base
  show ?case by (intro exI [of _ "[]"]) simp
next
  case (step b c)
  from step.IH obtain cs ks where b: "shown b = shown a @ cs" "list_all2 key_of cs ks" "distinct ks"
      "set ks \<inter> dom (seen a) = {}" "dom (seen b) = dom (seen a) \<union> set ks"
    by blast
  from once [OF step.hyps(2) run_inv [OF step.hyps(1) assms(2)]] show ?case
  proof
    assume "seen c = seen b \<and> shown c = shown b"
    with b show ?case by metis
  next
    assume "\<exists>k x. seen b k = None \<and> seen c = (seen b)(k \<mapsto> True) \<and> shown c = shown b @ [x] \<and> key_of x k"
    then obtain k x where k: "seen b k = None" "seen c = (seen b)(k \<mapsto> True)" "shown c = shown b @ [x]" "key_of x k"
      by blast
    then have "k \<notin> dom (seen b)" by (simp add: domIff)
    with b have "k \<notin> dom (seen a)" "k \<notin> set ks" by auto
    moreover have "dom (seen c) = insert k (dom (seen b))" by (simp add: k(2))
    ultimately show ?case using b k(3,4)
      by (intro exI [of _ "cs @ [x]"] exI [of _ "ks @ [k]"]) (simp add: list_all2_appendI)
  qed
qed

lemma run_count:
  assumes "st\<^sup>*\<^sup>* a b" and "inv a" and "finite (dom (seen a))"
  shows "finite (dom (seen b)) \<and> length (shown b) + card (dom (seen a)) = length (shown a) + card (dom (seen b)) \<and>
    dom (seen a) \<subseteq> dom (seen b)"
proof -
  from run_keys [OF assms(1,2)] obtain cs ks where b: "shown b = shown a @ cs" "list_all2 key_of cs ks" "distinct ks"
      "set ks \<inter> dom (seen a) = {}" "dom (seen b) = dom (seen a) \<union> set ks"
    by blast
  have "card (dom (seen a) \<union> set ks) = card (dom (seen a)) + card (set ks)"
    using b(4) by (intro card_Un_disjoint assms(3)) auto
  with b show ?thesis using assms(3) list_all2_lengthD [OF b(2)] by (simp add: distinct_card)
qed

end

interpretation node: gossip "node_step L" "node_inv s" wb_SeenChats mainline "chat_key L" for L s
  by unfold_locales (use node_step_inv in \<open>auto simp: chat_step_def\<close>)

text \<open>The same for a party: the messages it handles, and the chats of its channel.\<close>

definition party_run_step :: "lib \<Rightarrow> PartyLine \<times> WhiteBox \<Rightarrow> PartyLine \<times> WhiteBox \<Rightarrow> bool" where
  "party_run_step L a b \<longleftrightarrow> (\<exists>now env. dispatch_party L now env (fst a) (snd a) = Ret b)"

definition party_chats :: "PartyLine \<times> WhiteBox \<Rightarrow> Chat list" where
  "party_chats a = filter (\<lambda>c. ch_Channel c = pl_Id (fst a)) (chats_of (wb_out (snd a)))"

interpretation party: gossip "party_run_step L" "\<lambda>_. True" "\<lambda>a. pl_SeenChats (fst a)" party_chats "chat_key L" for L
proof
  fix a b assume "party_run_step L a b"
  then obtain now env where "dispatch_party L now env (fst a) (snd a) = Ret (fst b, snd b)"
    by (auto simp: party_run_step_def)
  from dispatch_party_step [OF this]
  show "(pl_SeenChats (fst b) = pl_SeenChats (fst a) \<and> party_chats b = party_chats a) \<or>
      (\<exists>k c. pl_SeenChats (fst a) k = None \<and> pl_SeenChats (fst b) = (pl_SeenChats (fst a))(k \<mapsto> True) \<and>
        party_chats b = party_chats a @ [c] \<and> chat_key L c k)"
    by (auto simp: party_step_def party_chats_def calm_def addChat_def)
qed simp_all

section \<open>Properties\<close>

text \<open>
  C3: The state of a running node. Whatever messages, timers and commands a node started with 32-byte keys
  goes through, in any order and with any peers, its routing table stays well-formed for its own key, all
  its parties are filed under their own valid ids of 32 letters and digits, and its key never changes.
\<close>

theorem reachable_wf:
  assumes "reachable L s wb"
  shows "wf_wb s wb \<and> SetBytes (pe_SignPub (wb_PeerSelf wb)) = s \<and>
    (\<forall>k party. map_get (wb_Parties wb) k = Some party \<or> map_get (wb_PendingInvites wb) k = Some party \<longrightarrow>
      pl_Id party = k \<and> valid_party_id k)"
  using reachable_inv [OF assms] by (auto simp: node_inv_def parties_ok_def dest!: map_of_SomeD)

text \<open>
  C5: Every chat is shown exactly once. In every run of a node the chats shown in the main channel and the
  keys remembered as seen correspond one to one, each key being the sender of its chat and a time. A
  step that shows a chat remembers its key, which was not seen before, and a step that shows none
  remembers nothing. When a chat of its signer arrives that was not seen, the node does not panic, shows
  that chat under the sender's id and remembers its key; when it was seen, the node shows nothing.
\<close>

theorem chat_shown_once:
  assumes "reachable L s wb"
  shows "(\<exists>keys. list_all2 (chat_key L) (mainline wb) keys \<and> distinct keys \<and> set keys = dom (wb_SeenChats wb)) \<and>
    (\<forall>wb'. node_step L wb wb' \<longrightarrow> (wb_SeenChats wb' = wb_SeenChats wb \<and> mainline wb' = mainline wb) \<or>
      (\<exists>k c. wb_SeenChats wb k = None \<and> wb_SeenChats wb' = (wb_SeenChats wb)(k \<mapsto> True) \<and>
        mainline wb' = mainline wb @ [c] \<and> chat_key L c k)) \<and>
    (\<forall>now msg env m. l_toEnvelope L msg = Some env \<and> env_Type env = ''chat'' \<and> env_Time env = 0 \<and> chat_arrives L env m \<longrightarrow>
      (\<exists>wb'. processMessage L now msg wb = Ret wb' \<and>
        (let k = env_From env @ ''.'' @ l_timeString L (mc_Time m) in
         if wb_SeenChats wb k = None
         then wb_SeenChats wb' = (wb_SeenChats wb)(k \<mapsto> True) \<and> mainline wb' = mainline wb @
           [\<lparr>ch_Time = now, ch_Id = env_From env, ch_Channel = ''mainline'', ch_Message = mc_Message m\<rparr>]
         else wb_SeenChats wb' = wb_SeenChats wb \<and> mainline wb' = mainline wb)))"
proof (intro conjI allI impI)
  from assms obtain wb0 where wb0: "started s wb0" "(node_step L)\<^sup>*\<^sup>* wb0 wb" by (auto simp: reachable_def)
  show "\<exists>keys. list_all2 (chat_key L) (mainline wb) keys \<and> distinct keys \<and> set keys = dom (wb_SeenChats wb)"
    using node.run_keys [OF wb0(2), of s] started_inv [OF wb0(1)] by auto
  fix wb' assume "node_step L wb wb'"
  from node.once [OF this reachable_inv [OF assms]]
  show "(wb_SeenChats wb' = wb_SeenChats wb \<and> mainline wb' = mainline wb) \<or>
      (\<exists>k c. wb_SeenChats wb k = None \<and> wb_SeenChats wb' = (wb_SeenChats wb)(k \<mapsto> True) \<and>
        mainline wb' = mainline wb @ [c] \<and> chat_key L c k)" .
next
  fix now msg env m
  assume e: "l_toEnvelope L msg = Some env \<and> env_Type env = ''chat'' \<and> env_Time env = 0 \<and> chat_arrives L env m"
  then have p: "processMessage L now msg wb = processChat L now env wb" by (simp add: processMessage_def)
  have wf: "wf_wb s wb" using reachable_inv [OF assms] by (simp add: node_inv_def)
  show "\<exists>wb'. processMessage L now msg wb = Ret wb' \<and>
        (let k = env_From env @ ''.'' @ l_timeString L (mc_Time m) in
         if wb_SeenChats wb k = None
         then wb_SeenChats wb' = (wb_SeenChats wb)(k \<mapsto> True) \<and> mainline wb' = mainline wb @
           [\<lparr>ch_Time = now, ch_Id = env_From env, ch_Channel = ''mainline'', ch_Message = mc_Message m\<rparr>]
         else wb_SeenChats wb' = wb_SeenChats wb \<and> mainline wb' = mainline wb)"
    using processChat_arrives [of L env m s wb now] e wf unfolding p
    by (auto simp: Let_def mainline_def split: if_splits)
qed

text \<open>
  C21: Nothing is forwarded. In every reachable state a message that was routed (its time is set) to another
  node's id is dropped: the code remembers the times it has forwarded in \<open>NoReroute\<close> but forwards only what
  is already there, so the table stays empty and routes of more than one hop do not exist.
\<close>

theorem nothing_forwarded:
  assumes "reachable L s wb" and "l_toEnvelope L msg = Some env" and "env_Time env \<noteq> 0"
    and "Peer_Id (wb_PeerSelf wb) = Ret selfId" and "env_To env \<noteq> selfId"
  shows "processMessage L now msg wb = Ret wb \<and> wb_NoReroute wb = Map.empty"
  using reachable_inv [OF assms(1)] assms(2-5) by (simp add: processMessage_def node_inv_def)

text \<open>
  C26: Party chats are shown once. However the messages of a party arrive, forged ones included, the number
  of chats shown in the party's channel grows by one exactly when a new key (sender and time) is
  remembered, and remembered keys are never forgotten.
\<close>

theorem party_chat_shown_once:
  assumes "(party_run_step L)\<^sup>*\<^sup>* a b" and "finite (dom (pl_SeenChats (fst a)))"
  shows "length (party_chats b) + card (dom (pl_SeenChats (fst a))) =
      length (party_chats a) + card (dom (pl_SeenChats (fst b))) \<and>
    dom (pl_SeenChats (fst a)) \<subseteq> dom (pl_SeenChats (fst b))"
  using party.run_count [OF assms(1) TrueI assms(2)] by blast

section \<open>A run\<close>

definition key_k :: bytes where
  "key_k = replicate 32 CHR ''k''"

lemma key_k_length [simp]: "length key_k = 32"
  by (simp add: key_k_def)

lemma started_k: "\<exists>wb. started (SetBytes key_k) wb \<and> Peer_Id (wb_PeerSelf wb) \<noteq> None"
proof -
  obtain wb where wb: "New None (\<lambda>_. True) (Some (key_k, ''p'', key_k, ''q'')) ''d'' ''a'' ''1'' (wb_Self zero_wb) = Ret wb"
      "pe_SignPub (wb_PeerSelf wb) = key_k" "pe_EncPub (wb_PeerSelf wb) = Some key_k"
    using New_runs [of "''d''" "\<lambda>_. True" "Some (key_k, ''p'', key_k, ''q'')" key_k "''p''" key_k "''q''"
        "wb_Self zero_wb" None "''a''" "''1''"] by (auto simp: zero_wb_def selfZero_def)
  have "started (SetBytes key_k) wb" unfolding started_def using wb by (metis key_k_length)
  moreover have "Peer_Id (wb_PeerSelf wb) \<noteq> None" by (simp add: Peer_Id_def wb(3))
  ultimately show ?thesis by blast
qed

text \<open>A node that receives a chat, with a library that accepts every signature.\<close>

definition id_k :: string where
  "id_k = hexEncode key_k @ ''.'' @ hexEncode key_k"

definition chat_lib :: "lib \<Rightarrow> lib" where
  "chat_lib L = L\<lparr>l_toEnvelope := \<lambda>_. Some (mk_env ''chat'' id_k []), l_verify := \<lambda>_ _. True, l_sigSize := 0,
     l_toChat := \<lambda>_. Some \<lparr>mc_Min = \<lparr>mi_EncPub = Some key_k, mi_SignPub = key_k\<rparr>, mc_Message = ''hi'', mc_Time = 5\<rparr>,
     l_ofEnvelope := \<lambda>_. None\<rparr>"

lemma chat_received:
  assumes "started s wb"
  shows "\<exists>wb'. node_step (chat_lib L) wb wb' \<and> length (mainline wb') = 1"
proof -
  have id: "IdToMin (l_spare L) id_k = Ret (Inr \<lparr>mi_EncPub = Some key_k, mi_SignPub = key_k\<rparr>)"
    unfolding id_k_def by (rule IdToMin_of_hex) simp
  have minid: "MinPeer_Id \<lparr>mi_EncPub = Some key_k, mi_SignPub = key_k\<rparr> = Ret id_k"
    by (simp add: MinPeer_Id_def id_k_def)
  have "\<exists>wb'. processMessage (chat_lib L) 7 [] wb = Ret wb' \<and> length (mainline wb') = 1"
    using started_inv [OF assms]
    by (simp add: processMessage_def chat_lib_def mk_env_def processChat_def with_message_def verifyEnvelope_def
        id minid flood_def cacheMin_def Let_def mainline_def addChat_def)
  then show ?thesis by (auto intro: node_op_step node_op.receive)
qed

lemma reachable_step: "started s wb \<Longrightarrow> node_step L wb wb' \<Longrightarrow> reachable L s wb'"
  unfolding reachable_def by blast

theorem reachable_wf_witness: "\<forall>L. \<exists>wb. wf_wb (SetBytes key_k) wb \<and> length (mainline wb) = 1"
proof
  fix L :: lib
  obtain wb0 where wb0: "started (SetBytes key_k) wb0" using started_k by blast
  from chat_received [OF wb0] obtain wb where "node_step (chat_lib L) wb0 wb" "length (mainline wb) = 1" by blast
  with reachable_wf [OF reachable_step [OF wb0]] show "\<exists>wb. wf_wb (SetBytes key_k) wb \<and> length (mainline wb) = 1"
    by blast
qed

text \<open>The same chat received twice by a new node.\<close>

lemma chat_lib_arrives:
  "l_toEnvelope (chat_lib L) msg = Some (mk_env ''chat'' id_k []) \<and> chat_arrives (chat_lib L) (mk_env ''chat'' id_k [])
     \<lparr>mc_Min = \<lparr>mi_EncPub = Some key_k, mi_SignPub = key_k\<rparr>, mc_Message = ''hi'', mc_Time = 5\<rparr>"
proof -
  have "IdToMin (l_spare L) id_k = Ret (Inr \<lparr>mi_EncPub = Some key_k, mi_SignPub = key_k\<rparr>)"
    unfolding id_k_def by (rule IdToMin_of_hex) simp
  moreover have "MinPeer_Id \<lparr>mi_EncPub = Some key_k, mi_SignPub = key_k\<rparr> = Ret id_k"
    by (simp add: MinPeer_Id_def id_k_def)
  ultimately show ?thesis by (simp add: chat_arrives_def chat_lib_def mk_env_def)
qed

theorem chat_shown_once_witness:
  "\<forall>L. \<exists>wb wb1 wb2. mainline wb = [] \<and> processMessage (chat_lib L) 7 ''m'' wb = Ret wb1 \<and>
    mainline wb1 = [\<lparr>ch_Time = 7, ch_Id = id_k, ch_Channel = ''mainline'', ch_Message = ''hi''\<rparr>] \<and>
    processMessage (chat_lib L) 8 ''m'' wb1 = Ret wb2 \<and> mainline wb2 = mainline wb1"
proof
  fix L :: lib
  let ?m = "\<lparr>mc_Min = \<lparr>mi_EncPub = Some key_k, mi_SignPub = key_k\<rparr>, mc_Message = ''hi'', mc_Time = 5\<rparr>"
  obtain wb where wb: "started (SetBytes key_k) wb" using started_k by blast
  then have r: "reachable (chat_lib L) (SetBytes key_k) wb" by (auto simp: reachable_def)
  have env: "env_From (mk_env ''chat'' id_k []) = id_k" "env_Type (mk_env ''chat'' id_k []) = ''chat''"
      "env_Time (mk_env ''chat'' id_k []) = 0" by (simp_all add: mk_env_def)
  note once = chat_shown_once [THEN conjunct2, THEN conjunct2, rule_format,
      OF _ conjI [OF conjunct1 [OF chat_lib_arrives] conjI [OF env(2) conjI [OF env(3) conjunct2 [OF chat_lib_arrives]]]]]
  from once [OF r, of 7 "''m''"] started_inv [OF wb] obtain wb1 where
    wb1: "processMessage (chat_lib L) 7 ''m'' wb = Ret wb1" "wb_SeenChats wb1 (id_k @ ''.'' @ l_timeString (chat_lib L) 5) = Some True"
      "mainline wb1 = [\<lparr>ch_Time = 7, ch_Id = id_k, ch_Channel = ''mainline'', ch_Message = ''hi''\<rparr>]"
    by (auto simp: env Let_def)
  from once [OF reachable_step [OF wb node_op_step [OF node_op.receive [OF wb1(1)]]], of 8 "''m''"] wb1(2) obtain wb2 where
    "processMessage (chat_lib L) 8 ''m'' wb1 = Ret wb2" "mainline wb2 = mainline wb1"
    by (auto simp: env Let_def)
  with wb1 started_inv [OF wb] show "\<exists>wb wb1 wb2. mainline wb = [] \<and> processMessage (chat_lib L) 7 ''m'' wb = Ret wb1 \<and>
    mainline wb1 = [\<lparr>ch_Time = 7, ch_Id = id_k, ch_Channel = ''mainline'', ch_Message = ''hi''\<rparr>] \<and>
    processMessage (chat_lib L) 8 ''m'' wb1 = Ret wb2 \<and> mainline wb2 = mainline wb1" by blast
qed

theorem nothing_forwarded_witness:
  "\<forall>L. \<exists>wb. processMessage (L\<lparr>l_toEnvelope := \<lambda>_. Some ((mk_env ''pulse'' [] [])\<lparr>env_Time := 9\<rparr>)\<rparr>) 7 ''m'' wb = Ret wb"
proof
  fix L :: lib
  let ?L = "L\<lparr>l_toEnvelope := \<lambda>_. Some ((mk_env ''pulse'' [] [])\<lparr>env_Time := 9\<rparr>)\<rparr>"
  obtain wb selfId where wb: "started (SetBytes key_k) wb" "Peer_Id (wb_PeerSelf wb) = Ret selfId" using started_k by blast
  then have "reachable ?L (SetBytes key_k) wb" by (auto simp: reachable_def)
  from nothing_forwarded [OF this, of "''m''" _ selfId 7] wb(2)
  show "\<exists>wb. processMessage ?L 7 ''m'' wb = Ret wb"
    by (auto simp: mk_env_def Peer_Id_def split: option.splits)
qed

text \<open>A party of one, and a chat in it.\<close>

definition party_k :: PartyLine where
  "party_k = \<lparr>pl_MinList = \<lparr>ml_Map = Some [], ml_Mutex = True\<rparr>, pl_Id = ''p'', pl_SeenChats = Map.empty, pl_Packs = []\<rparr>"

definition party_lib :: "lib \<Rightarrow> lib" where
  "party_lib L = L\<lparr>l_verify := \<lambda>_ _. True, l_sigSize := 0, l_ofPartyEnvelope := \<lambda>_. None,
     l_toPartyChat := \<lambda>_. Some \<lparr>pc_PeerId = id_k, pc_PartyId = ''p'', pc_Message = ''hi'', pc_Time = 5\<rparr>\<rparr>"

lemma party_chat_received:
  assumes "Peer_Id (wb_PeerSelf wb) \<noteq> None" and "wb_out wb = []"
  shows "\<exists>b. party_run_step (party_lib L) (party_k, wb) b \<and> length (party_chats b) = 1"
proof -
  have id: "IdToMin (l_spare L) id_k = Ret (Inr \<lparr>mi_EncPub = Some key_k, mi_SignPub = key_k\<rparr>)"
    unfolding id_k_def by (rule IdToMin_of_hex) simp
  obtain i where "Peer_Id (wb_PeerSelf wb) = Ret i" using assms(1) by blast
  then have "\<exists>b. dispatch_party (party_lib L) 7 \<lparr>pv_Type = ''chat'', pv_From = [], pv_PartyId = [], pv_Data = []\<rparr> party_k wb = Ret b \<and>
      length (party_chats b) = 1"
    using assms(2)
    by (simp add: dispatch_party_def ProcessChat_def party_message_def party_json_def party_check_def party_lib_def
        party_k_def id sendToNeighbors_def party_chats_def addChat_def Let_def)
  then show ?thesis unfolding party_run_step_def by fastforce
qed

theorem party_chat_shown_once_witness:
  "\<forall>L. \<exists>b. length (party_chats b) = 1 \<and> card (dom (pl_SeenChats (fst b))) = 1"
proof
  fix L :: lib
  let ?wb = "zero_wb\<lparr>wb_PeerSelf := (wb_PeerSelf zero_wb)\<lparr>pe_EncPub := Some []\<rparr>\<rparr>"
  have wb: "Peer_Id (wb_PeerSelf ?wb) \<noteq> None" "wb_out ?wb = []" by (simp_all add: Peer_Id_def zero_wb_def)
  from party_chat_received [OF wb] obtain b where b: "party_run_step (party_lib L) (party_k, ?wb) b" "length (party_chats b) = 1"
    by blast
  have "finite (dom (pl_SeenChats (fst (party_k, ?wb))))" by (simp add: party_k_def)
  from party_chat_shown_once [OF r_into_rtranclp [of "party_run_step (party_lib L)", OF b(1)] this] b(2) wb(2)
  have "card (dom (pl_SeenChats (fst b))) = 1" by (simp add: party_k_def party_chats_def)
  with b(2) show "\<exists>b. length (party_chats b) = 1 \<and> card (dom (pl_SeenChats (fst b))) = 1" by blast
qed

end
