(* ===== verification/PartyProps.thy ===== *)
theory PartyProps
  imports Reach Ring
begin

text \<open>
  How a node and its parties can be entered and brought down: the id of a new party, members nobody
  vouches for, the inputs that crash a node, and file names that leave the directory of a party.
\<close>

section \<open>Starting a party\<close>

lemma hexdigit_alphanum: "n < 16 \<Longrightarrow> alphanum (hexdigit n)"
  by (simp add: alphanum_def hexdigit_def less_eq_char_def of_char_of)

lemma hexEncode_alphanum: "list_all alphanum (hexEncode bs)"
  by (induction bs rule: hexEncode.induct) (simp_all add: hexdigit_alphanum less_mult_imp_div_less)

text \<open>
  C36: Starting a party. \<open>PartyStart\<close> takes the first 8 characters of the name; if they are letters and
  digits the new party has a valid id of 32 characters that starts with them and ends in at least 24 of the
  32 random hex digits, the node is its only member, and no other party changes. Otherwise nothing changes
  but a status line.
\<close>

theorem party_start_spec:
  assumes "length idBytes = 16" and "Peer_Id (wb_PeerSelf wb) = Ret selfId"
  shows "if list_all alphanum (take 8 name)
    then \<exists>partyId wb' party. PartyStart idBytes name wb = Ret (partyId, wb') \<and> valid_party_id partyId \<and>
      partyId = take 8 name @ take (32 - length (take 8 name)) (hexEncode idBytes) \<and>
      map_get (wb_Parties wb') = (map_get (wb_Parties wb))(partyId \<mapsto> party) \<and> pl_Id party = partyId \<and>
      pl_MinList party = \<lparr>ml_Map = Some [(selfId, 0)], ml_Mutex = True\<rparr> \<and> pl_Packs party = []
    else PartyStart idBytes name wb = Ret ([], setStatus ''error invalid party id (start)'' wb)"
proof -
  have m: "nat (minimum (int (length name)) 8) = min 8 (length name)"
    by (simp add: minimum_def)
  have name: "take (nat (minimum (int (length name)) 8)) name = take 8 name"
    by (simp add: m min_def)
  have hex: "length (hexEncode idBytes) = 32" using assms(1) by simp
  let ?id = "take 8 name @ take (32 - length (take 8 name)) (hexEncode idBytes)"
  have len: "length ?id = 32" using hex by simp
  have "list_all alphanum (take n (hexEncode idBytes))" for n
    using hexEncode_alphanum by (auto simp: list_all_iff dest: in_set_takeD)
  then have v: "valid_party_id ?id \<longleftrightarrow> list_all alphanum (take 8 name)"
    using len by (simp only: valid_party_id_def list_all_append simp_thms)
  show ?thesis
  proof (cases "list_all alphanum (take 8 name)")
    case True
    with v have "valid_party_id ?id" by simp
    let ?party = "\<lparr>pl_MinList = \<lparr>ml_Map = Some [(selfId, 0)], ml_Mutex = True\<rparr>, pl_Id = ?id,
      pl_SeenChats = Map.empty, pl_Packs = []\<rparr>"
    have "PartyStart idBytes name wb = Ret (?id, wb\<lparr>wb_Parties := map_put ?id ?party (wb_Parties wb)\<rparr>)"
      unfolding PartyStart_def name hex Let_def using \<open>valid_party_id ?id\<close>
      by (simp only: if_False not_not assms(2) bind.bind_lunit MinList_Set_def LockingMinList.simps if_True option.case
          AList.update.simps simp_thms)
    with True \<open>valid_party_id ?id\<close> show ?thesis
      unfolding if_P [OF True]
      by (intro exI [of _ ?id] exI [of _ "wb\<lparr>wb_Parties := map_put ?id ?party (wb_Parties wb)\<rparr>"] exI [of _ ?party])
        (simp add: gm.get_put)
  next
    case False
    with v have "\<not> valid_party_id ?id" by simp
    then show ?thesis unfolding PartyStart_def name hex Let_def using False by (simp only: if_False if_True simp_thms)
  qed
qed

theorem party_start_spec_witness:
  "\<exists>partyId wb'. PartyStart (replicate 16 CHR ''x'') ''club'' (ring_node ''k'') = Ret (partyId, wb') \<and>
    valid_party_id partyId \<and> map_get (wb_Parties wb') partyId \<noteq> None"
proof -
  have "list_all alphanum (take 8 ''club'')" by (simp add: alphanum_def less_eq_char_def)
  with party_start_spec [of "replicate 16 CHR ''x''" "ring_node ''k''" "ring_id ''k''" "''club''"] show ?thesis
    by (auto simp: ring_node_id)
qed

section \<open>Inputs that crash a node\<close>

text \<open>
  C32: One datagram stops a node. An unsigned datagram of any handled type whose sender id has two hex parts,
  the second shorter than a key (also with what its buffer has room for), makes the node panic, whatever its
  state.
\<close>

theorem short_id_crash:
  assumes "l_toEnvelope L msg = Some env" and "env_Time env = 0"
    and "split_on CHR ''.'' (env_From env) = [signHex, encHex]" and "hexDecode signHex \<noteq> None"
    and "hexDecode encHex = Some enc" and "length enc + length (l_spare L encHex) < 32"
    and "env_Type env \<in> {''announce'', ''bootstrap'', ''chat'', ''disconnect'', ''request'', ''suggestions'', ''ping'',
      ''pulse'', ''verifybs'', ''party'', ''invite''}"
  shows "processMessage L now msg wb = Panic"
proof -
  have i: "IdToMin (l_spare L) (env_From env) = Panic"
    using assms(3-6) by (auto simp: IdToMin_def Let_def split: option.split)
  then have v: "verifyEnvelope L env caller = Panic" for caller by (simp add: verifyEnvelope_def)
  have w: "with_message L env caller decode wb k = Panic" for caller decode k by (simp add: with_message_def v)
  have h: "processAnnounce L now env wb = Panic" "processBootstrap L now env wb = Panic" "processChat L now env wb = Panic"
      "processDisconnect L env wb = Panic" "processSuggestionRequest L now env wb = Panic"
      "processSuggestions L now env wb = Panic" "processPing L now env wb = Panic" "processPulse L now env wb = Panic"
      "processVerify L now env wb = Panic" "processParty L now env wb = Panic" "processInvite L env wb = Panic"
    by (simp_all add: processAnnounce_def processBootstrap_def processChat_def processDisconnect_def
        processSuggestionRequest_def processSuggestions_def processPing_def processPulse_def processVerify_def
        processParty_def processInvite_def w i)
  show ?thesis
    using assms(7) unfolding processMessage_def assms(1) option.case assms(2) h by auto
qed

theorem short_id_crash_witness:
  "\<forall>L wb. processMessage (L\<lparr>l_toEnvelope := \<lambda>_. Some (mk_env ''ping'' ''.'' []), l_spare := \<lambda>_. []\<rparr>) 0 ''m'' wb = Panic"
  using short_id_crash [of "_\<lparr>l_toEnvelope := \<lambda>_. Some (mk_env ''ping'' ''.'' []), l_spare := \<lambda>_. []\<rparr>" "''m''"
      "mk_env ''ping'' ''.'' []" "[]" "[]" "[]"]
  by (simp add: mk_env_def)

text \<open>
  A large party cannot invite. As soon as a party has more than 20 members \<open>SendInvite\<close> panics: the
  trimmed party it makes has no map and no mutex.
\<close>

theorem large_party_invite_panics:
  assumes "pl_MinList party = \<lparr>ml_Map = Some m, ml_Mutex = True\<rparr>" and "20 < length m"
    and "mset (l_keys L (map_keys m)) = mset (map_keys m)"
  shows "SendInvite L now party minp wb = Panic"
proof -
  have "length (l_keys L (map_keys m)) = length m"
    using mset_eq_length [OF assms(3)] by simp
  then obtain i ids where "take 21 (l_keys L (map_keys m)) = i # ids"
    using assms(2) by (cases "l_keys L (map_keys m)") auto
  then show ?thesis
    using assms(1,2) by (cases "Peer_Id (wb_PeerSelf wb)"; cases "MinPeer_Id minp")
      (simp_all add: SendInvite_def MinList_Len_def minlist_ids_def MinList_Set_def zero_minlist_def Let_def)
qed

theorem large_party_invite_panics_witness:
  "\<forall>L wb. SendInvite (L\<lparr>l_keys := \<lambda>ks. ks\<rparr>) 0 (ring_party (map (\<lambda>n. replicate n CHR ''k'') [0..<21]))
    \<lparr>mi_EncPub = Some ''e'', mi_SignPub = ''s''\<rparr> wb = Panic"
  by (intro allI large_party_invite_panics
      [where m = "map (\<lambda>p. (ring_id p, 0)) (map (\<lambda>n. replicate n CHR ''k'') [0..<21])"])
    (simp_all add: ring_party_def)

text \<open>
  A request for an unknown pack stops a node. A fresh request that a member signed, for a pack the node
  has not heard of, makes it panic: the missing entry of the pack map is dereferenced.
\<close>

theorem unknown_pack_panics:
  assumes "l_sigSize L \<le> length (pv_Data env)" and "l_toRequest L (drop (l_sigSize L) (pv_Data env)) = Some req"
    and "IdToMin (l_spare L) (rq_PeerId req) = Ret (Inr minp)" and "l_verify L (pv_Data env) (mi_SignPub minp)"
    and "rq_PartyId req = pl_Id party" and "map_get (pl_Packs party) (rq_PackHash req) = None"
    and "wb_FreshRequests wb = Map.empty"
  shows "ProcessRequest L now env party wb = Panic"
proof -
  have "party_message L ''request'' (l_toRequest L) rq_PeerId (\<lambda>_. pl_Id party) [] (pl_Id party) (pv_Data env) wb =
      Ret (Inr (req, minp))"
    using assms(1-4) by (simp add: party_message_def party_json_def party_check_def)
  then show ?thesis
    using assms(5-7)
    by (cases "MinPeer_Id minp"; cases "sendToNeighbors L now party ''request'' (pv_Data env) wb")
      (simp_all add: ProcessRequest_def Let_def)
qed

definition unknown_request :: PartyRequest where
  "unknown_request = \<lparr>rq_PeerId = id_k, rq_PackHash = ''none'', rq_FileHash = [], rq_Coverage = [], rq_Time = 0, rq_PartyId = ''p''\<rparr>"

theorem unknown_pack_panics_witness:
  "\<forall>L. ProcessRequest (L\<lparr>l_sigSize := 0, l_verify := \<lambda>_ _. True, l_toRequest := \<lambda>_. Some unknown_request\<rparr>) 0
    \<lparr>pv_Type = ''request'', pv_From = [], pv_PartyId = ''p'', pv_Data = []\<rparr> (ring_party []) (ring_node ''k'') = Panic"
proof
  fix L :: lib
  have id: "IdToMin sp id_k = Ret (Inr \<lparr>mi_EncPub = Some key_k, mi_SignPub = key_k\<rparr>)" for sp
    unfolding id_k_def by (rule IdToMin_of_hex) simp
  show "ProcessRequest (L\<lparr>l_sigSize := 0, l_verify := \<lambda>_ _. True, l_toRequest := \<lambda>_. Some unknown_request\<rparr>) 0
      \<lparr>pv_Type = ''request'', pv_From = [], pv_PartyId = ''p'', pv_Data = []\<rparr> (ring_party []) (ring_node ''k'') = Panic"
    by (rule unknown_pack_panics [where req = unknown_request and minp = "\<lparr>mi_EncPub = Some key_k, mi_SignPub = key_k\<rparr>"])
      (simp_all add: unknown_request_def id ring_party_def ring_node_def zero_wb_def)
qed

section \<open>File names\<close>

lemma split_path:
  assumes "CHR ''/'' \<notin> set a"
  shows "split_on CHR ''/'' (a @ ''/'' @ b) = a # split_on CHR ''/'' b"
  using split_on_append [OF assms, of b] by simp

definition plain :: "string \<Rightarrow> bool" where
  "plain c \<longleftrightarrow> CHR ''/'' \<notin> set c \<and> c \<noteq> [] \<and> c \<noteq> ''.'' \<and> c \<noteq> ''..''"

lemma escape_join:
  assumes "plain d" and "plain p" and "plain (p @ q)" and "plain f"
  shows "Join (''/'' @ d @ ''/'' @ p) (''../'' @ p @ q @ ''/'' @ f) = ''/'' @ d @ ''/'' @ p @ q @ ''/'' @ f"
proof -
  have n: "CHR ''/'' \<notin> set d" "CHR ''/'' \<notin> set p" "CHR ''/'' \<notin> set (p @ q)" "CHR ''/'' \<notin> set f"
    using assms unfolding plain_def by blast+
  have nil: "CHR ''/'' \<notin> set []" and dots: "CHR ''/'' \<notin> set ''..''" by simp_all
  have "split_on CHR ''/'' ((''/'' @ d @ ''/'' @ p) @ ''/'' @ ''../'' @ p @ q @ ''/'' @ f) =
      split_on CHR ''/'' ([] @ ''/'' @ d @ ''/'' @ p @ ''/'' @ ''..'' @ ''/'' @ (p @ q) @ ''/'' @ f)" by simp
  also have "\<dots> = [] # d # p # split_on CHR ''/'' (''..'' @ ''/'' @ (p @ q) @ ''/'' @ f)"
    by (simp only: split_path [OF n(1)] split_path [OF n(2)] split_path [of "[]", OF nil])
  also have "\<dots> = [[], d, p, ''..'', p @ q, f]"
    by (simp only: split_path [OF n(3)] split_on_absent [OF n(4)] split_path [of "''..''", OF dots])
  finally have sp: "split_on CHR ''/'' ((''/'' @ d @ ''/'' @ p) @ ''/'' @ ''../'' @ p @ q @ ''/'' @ f) = [[], d, p, ''..'', p @ q, f]" .
  have "clean_parts True [[], d, p, ''..'', p @ q, f] = [d, p @ q, f]"
    using assms by (simp add: clean_parts_def clean_step_def plain_def)
  with sp show ?thesis by (simp add: Join_def Clean_def path_string_def Let_def)
qed

text \<open>
  C31: A pack can write outside its party's directory. \<open>SetPaths\<close> accepts a path that starts with the
  characters of the party's directory, so a file named \<open>../<id>more/f\<close> is given, and its download
  overwrites, a path in a sibling directory whose name merely starts with the party's id.
\<close>

theorem set_paths_escape:
  assumes "plain d" and "plain p" and "plain (p @ q)" and "plain f"
    and "heap a = Some file" and "pf_Name file = ''../'' @ p @ q @ ''/'' @ f"
  shows "SetPaths (''/'' @ d @ ''/'' @ p) [Some a] heap =
    Ret (heap(a \<mapsto> file\<lparr>pf_Path := ''/'' @ d @ ''/'' @ p @ q @ ''/'' @ f\<rparr>))"
  using escape_join [OF assms(1-4)] assms(5,6) by (simp add: SetPaths_def prefix_def Let_def)

theorem set_paths_escape_witness:
  "SetPaths ''/d/p'' [Some 0] [0 \<mapsto> abc_shared\<lparr>pf_Name := ''../px/f''\<rparr>] =
    Ret [0 \<mapsto> abc_shared\<lparr>pf_Name := ''../px/f'', pf_Path := ''/d/px/f''\<rparr>]"
  using set_paths_escape [of "''d''" "''p''" "''x''" "''f''" "[0 \<mapsto> abc_shared\<lparr>pf_Name := ''../px/f''\<rparr>]" 0
      "abc_shared\<lparr>pf_Name := ''../px/f''\<rparr>"]
  by (simp add: plain_def)

end
