(* ===== verification/Suggestions.thy ===== *)
theory Suggestions
  imports Routing
begin

text \<open>
  The peers a node suggests to another (\<open>sendSuggestions\<close> of \<open>white-box/senders.go\<close>): for each ideal id of
  the requester the closest peer in the node's table, without duplicates and at most 128.
\<close>

definition suggestible :: "WhiteBox \<Rightarrow> Peer \<Rightarrow> Peer \<Rightarrow> bool" where
  "suggestible wb peer p \<longleftrightarrow> pe_SignPub p \<noteq> pe_SignPub peer \<and>
     (\<exists>e i. e \<in> set (all_entries wb) \<and> pn_Peer e = Some p \<and> findClosest (Bytes i) wb = Ret (Some e))"

definition suggestions_ok :: "WhiteBox \<Rightarrow> Peer \<Rightarrow> string list \<times> Peer list \<Rightarrow> bool" where
  "suggestions_ok wb peer st \<longleftrightarrow> map Peer_Id (snd st) = map Some (rev (fst st)) \<and> distinct (fst st) \<and>
     (\<forall>p \<in> set (snd st). suggestible wb peer p)"

lemma findClosest_entry:
  assumes "wf_wb s wb"
  shows "\<exists>r. findClosest idBytes wb = Ret r \<and> (\<forall>e. r = Some e \<longrightarrow> e \<in> set (all_entries wb) \<and>
    (\<exists>p i. pn_Peer e = Some p \<and> pe_SignPub p = pn_Id e \<and> Peer_Id p = Some i))"
proof -
  let ?k = "bucket_of (s XOR SetBytes idBytes)"
  let ?es = "take 1 (sort_key (\<lambda>e. SetBytes (pn_Id e) XOR SetBytes idBytes) (wb_PeerTable wb ! ?k))"
  have f: "findClosestN idBytes 1 wb = Ret ?es"
    using findClosestN_sorts [of wb s idBytes 1] assms by (simp add: wf_wb_def)
  have k: "?k < 256" by (rule bucket_of_less)
  have "e \<in> set (all_entries wb) \<and> (\<exists>p i. pn_Peer e = Some p \<and> pe_SignPub p = pn_Id e \<and> Peer_Id p = Some i)"
    if "e \<in> set ?es" for e
  proof -
    have e: "e \<in> set (wb_PeerTable wb ! ?k)" using in_set_takeD [OF that] by simp
    then have "entry_ok s (wb_PeerCache wb) ?k e" using assms k by (simp add: wf_wb_def bucket_ok_def)
    moreover have "wb_PeerTable wb ! ?k \<in> set (wb_PeerTable wb)" using assms k by (intro nth_mem) (simp add: wf_wb_def)
    ultimately show ?thesis using e by (auto simp: entry_ok_def all_entries_def)
  qed
  then show ?thesis
    by (cases ?es) (simp_all add: findClosest_def f del: One_nat_def)
qed

lemma suggestion_step_ok:
  assumes wf: "wf_wb s wb" and st: "suggestions_ok wb peer st"
  shows "\<exists>st'. suggestion_step wb peer (Some i) st = Ret st' \<and> suggestions_ok wb peer st'"
proof -
  obtain r where r: "findClosest (Bytes i) wb = Ret r" and e: "\<And>e. r = Some e \<Longrightarrow> e \<in> set (all_entries wb) \<and>
      (\<exists>p k. pn_Peer e = Some p \<and> pe_SignPub p = pn_Id e \<and> Peer_Id p = Some k)"
    using findClosest_entry [OF wf] by blast
  obtain h ps where hp: "st = (h, ps)" by (cases st)
  show ?thesis
  proof (cases r)
    case None
    with r st show ?thesis by (simp add: suggestion_step_def hp)
  next
    case (Some e0)
    with e obtain p k where p: "e0 \<in> set (all_entries wb)" "pn_Peer e0 = Some p" "pe_SignPub p = pn_Id e0" "Peer_Id p = Some k"
      by blast
    show ?thesis
    proof (cases "pe_SignPub peer = pn_Id e0 \<or> k \<in> set h")
      case True
      with r Some p st show ?thesis by (auto simp: suggestion_step_def hp)
    next
      case False
      with p r Some have "suggestible wb peer p" unfolding suggestible_def by metis
      with False r Some p st show ?thesis by (simp add: suggestion_step_def hp suggestions_ok_def)
    qed
  qed
qed

lemma suggestion_loop:
  assumes "wf_wb s wb" and "suggestions_ok wb peer st"
  shows "\<exists>st'. ofold (suggestion_step wb peer) (map Some ids) st = Ret st' \<and> suggestions_ok wb peer st'"
  using assms(2) by (rule ofold_returns) (use suggestion_step_ok [OF assms(1)] in fastforce)

text \<open>
  C27: Suggestions are bounded. On a well-formed table, for a requester with a 32-byte key, \<open>sendSuggestions\<close>
  does not panic before it writes, and the message it builds carries at most 128 peers, all different, none
  with the requester's signing key, each the closest peer of the node's table to some id; a library error
  sends nothing.
\<close>

theorem suggestions_bounded:
  assumes "wf_wb s wb" and "length (pe_SignPub peer) = 32" and "Peer_Id peer = Ret peerId"
    and "Peer_Id (wb_PeerSelf wb) = Ret selfId"
  shows "\<exists>ps. length ps \<le> 128 \<and> distinct (map Peer_Id ps) \<and> (\<forall>p \<in> set ps. pe_SignPub p \<noteq> pe_SignPub peer \<and>
      (\<exists>e i. e \<in> set (all_entries wb) \<and> pn_Peer e = Some p \<and> findClosest (Bytes i) wb = Ret (Some e))) \<and>
    sendSuggestions L now peer dat wb =
      (case l_ofSuggestions L \<lparr>sg_Peer = wb_PeerSelf wb, sg_RequestData = dat, sg_SuggestedPeers = ps, sg_Time = now\<rparr> of
         None \<Rightarrow> Ret wb
       | Some json \<Rightarrow>
           (case l_ofEnvelope L ((mk_env ''suggestions'' selfId peerId)\<lparr>env_Data := signed L json wb\<rparr>) of
              None \<Rightarrow> Ret wb
            | Some jsonEnv \<Rightarrow> conn_write (pe_Conn peer) jsonEnv wb))"
proof -
  have ideal: "calculateIdealTable (pe_SignPub peer) =
      Ret (map Some (map (\<lambda>i. SetBytes (pe_SignPub peer) XOR 2 ^ i) [0..<256]))"
    using calculateIdealTable_32 [OF assms(2)] by (simp add: ideal_ids_def comp_def)
  have "suggestions_ok wb peer ([], [])" by (simp add: suggestions_ok_def)
  from suggestion_loop [OF assms(1) this, of "map (\<lambda>i. SetBytes (pe_SignPub peer) XOR 2 ^ i) [0..<256]"] obtain h qs where
    run: "ofold (suggestion_step wb peer) (map Some (map (\<lambda>i. SetBytes (pe_SignPub peer) XOR 2 ^ i) [0..<256])) ([], []) = Ret (h, qs)"
    and ok: "suggestions_ok wb peer (h, qs)" by (metis surj_pair)
  let ?ps = "if 128 < length qs then take 128 qs else qs"
  have d: "distinct (map Peer_Id qs)" using ok by (simp add: suggestions_ok_def distinct_map)
  have "distinct (map Peer_Id ?ps)" using distinct_take [OF d, of 128] d by (simp add: take_map)
  moreover have "\<forall>p \<in> set ?ps. suggestible wb peer p"
    using ok by (auto simp: suggestions_ok_def dest: in_set_takeD)
  moreover have "length ?ps \<le> 128" by simp
  ultimately show ?thesis
    unfolding sendSuggestions_def assms(3,4) bind.bind_lunit Let_def ideal run prod.case suggestible_def
    by (intro exI [of _ ?ps]) blast
qed

theorem suggestions_bounded_witness:
  "\<forall>L. \<exists>wb. sendSuggestions (L\<lparr>l_ofSuggestions := \<lambda>s. Some (replicate (length (sg_SuggestedPeers s)) CHR ''x''),
      l_ofEnvelope := \<lambda>_. Some ''{}''\<rparr>) 0 (some_peer key_one) [] wb = Ret (wb\<lparr>wb_out := wb_out wb @ [WriteOut ''a'' (line ''{}'')]\<rparr>)"
proof
  fix L :: lib
  let ?L = "L\<lparr>l_ofSuggestions := \<lambda>s. Some (replicate (length (sg_SuggestedPeers s)) CHR ''x''), l_ofEnvelope := \<lambda>_. Some ''{}''\<rparr>"
  obtain wb where "wf_wb 0 wb" using one_peer [OF key_one_simps(1)] by blast
  then have wf: "wf_wb 0 (wb\<lparr>wb_PeerSelf := some_peer []\<rparr>)" by (rule iffD2 [OF wf_wb_cong, rotated 4]) simp_all
  have self: "Peer_Id (wb_PeerSelf (wb\<lparr>wb_PeerSelf := some_peer []\<rparr>)) = Ret (hexEncode [] @ ''.'' @ hexEncode ''e'')"
    using some_peer_id [of "[]"] by simp
  have len: "length (pe_SignPub (some_peer key_one)) = 32" by (simp add: some_peer_def key_one_simps)
  have conn: "pe_Conn (some_peer key_one) = Some ''a''" by (simp add: some_peer_def)
  from suggestions_bounded [OF wf len some_peer_id self, of ?L 0 "[]"]
  show "\<exists>wb. sendSuggestions ?L 0 (some_peer key_one) [] wb = Ret (wb\<lparr>wb_out := wb_out wb @ [WriteOut ''a'' (line ''{}'')]\<rparr>)"
    by (auto simp: conn conn_write_def emit_def line_def intro!: exI [of _ "wb\<lparr>wb_PeerSelf := some_peer []\<rparr>"])
qed

end
