(* ===== verification/Tui.thy ===== *)
theory Tui
  imports Rescan "HOL-Library.Signed_Division"
begin

text \<open>
  The terminal user interface (\<open>tui.go\<close>) and the receivers of \<open>party-line.go\<close> that feed it: the chat log
  and how it is laid out, the commands, and the input line.

  \<^item> \<open>Tui\<close> holds the variables of the file and the node. What is sent to \<open>statusChan\<close> and \<open>chatChan\<close>, which
    goroutines drain, is appended to \<open>tu_Status\<close> and \<open>tu_Drawn\<close>. \<open>tu_Box\<close> is the height and width of the
    message box (\<open>None\<close> while it is nil); drawing is left out.
  \<^item> Of the locks only that of the pending invites matters here: \<open>tu_InvitesHeld\<close> says that a command has
    left it locked, and locking it again does not return.
  \<^item> \<open>ui_env\<close>: the clock, random bytes and file system answers of a command, the order in which Go ranges over
    the peer cache, \<open>runewidth.StringWidth\<close>, and the format of a clock time.
\<close>

record ui_env =
  ue_now :: int
  ue_random :: bytes
  ue_fs :: fs_env
  ue_peerIds :: "string list"
  ue_width :: "string \<Rightarrow> nat"
  ue_clock :: "int \<Rightarrow> string"

record Tui =
  tu_Wb :: WhiteBox
  tu_ChatLog :: "Chat list"
  tu_Show :: string
  tu_IDS :: int
  tu_Box :: "(int \<times> int) option"
  tu_Status :: "string list"
  tu_Drawn :: "string list"
  tu_InvitesHeld :: bool
  tu_Stopped :: bool

text \<open>The variables after \<open>init\<close>, with the node that \<open>main\<close> makes.\<close>

definition init_ui :: "WhiteBox \<Rightarrow> Tui" where
  "init_ui wb = \<lparr>tu_Wb = wb, tu_ChatLog = [], tu_Show = [], tu_IDS = 6, tu_Box = None, tu_Status = [], tu_Drawn = [],
     tu_InvitesHeld = False, tu_Stopped = False\<rparr>"

section \<open>Laying out chats\<close>

text \<open>\<open>displayId\<close>: a negative size is a slice bound out of range.\<close>

definition displayId :: "int \<Rightarrow> string \<Rightarrow> string go" where
  "displayId IDS i =
     (let idLen = int (length i) in
      if IDS \<le> idLen then (if IDS < 0 then Panic else Ret (take (nat IDS) i))
      else Ret (repeat (nat (IDS - idLen)) '' '' @ i))"

definition displayChannel :: "string \<Rightarrow> string" where
  "displayChannel channel =
     (if 8 \<le> length channel then take 8 channel else repeat (8 - length channel) '' '' @ channel)"

text \<open>The line of a chat, before line breaks.\<close>

definition chat_line :: "ui_env \<Rightarrow> int \<Rightarrow> Chat \<Rightarrow> string go" where
  "chat_line E IDS chat = do {
     d \<leftarrow> displayId IDS (ch_Id chat);
     Ret (ue_clock E (ch_Time chat) @ ''('' @ displayChannel (ch_Channel chat) @ '') '' @ d @ '' '' @ ch_Message chat) }"

text \<open>The loop that cuts \<open>n\<close> full lines of \<open>width\<close> bytes off a message.\<close>

fun cut_lines :: "nat \<Rightarrow> int \<Rightarrow> string \<Rightarrow> string list \<Rightarrow> (string list \<times> string) go" where
  "cut_lines 0 width msg lines = Ret (lines, msg)"
| "cut_lines (Suc n) width msg lines =
     (if width < 0 \<or> int (length msg) < width then Panic
      else cut_lines n width (drop (nat width) msg) (lines @ [take (nat width) msg]))"

fun fit_chats :: "ui_env \<Rightarrow> int \<Rightarrow> string \<Rightarrow> int \<Rightarrow> Chat list \<Rightarrow> string list \<Rightarrow> string list go" where
  "fit_chats E IDS shown width [] lines = Ret lines"
| "fit_chats E IDS shown width (chat # chats) lines =
     (if shown \<noteq> [] \<and> ch_Channel chat \<noteq> [] \<and> shown \<noteq> ch_Channel chat
      then fit_chats E IDS shown width chats lines
      else do {
        msg \<leftarrow> chat_line E IDS chat;
        let msg = (if chats \<noteq> [] \<and> last msg \<noteq> CHR ''\<newline>'' then msg @ ''\<newline>'' else msg);
        if width = 0 then Panic
        else do {
          (lines, msg) \<leftarrow> cut_lines (nat (int (ue_width E msg) sdiv width)) width msg lines;
          fit_chats E IDS shown width chats (if msg = [] then lines else lines @ [msg]) } })"

definition formatChatsFit :: "ui_env \<Rightarrow> int \<times> int \<Rightarrow> Tui \<Rightarrow> string go" where
  "formatChatsFit E box tu =
     (let height = fst box - 2; width = snd box - 2 in do {
        lines \<leftarrow> fit_chats E (tu_IDS tu) (tu_Show tu) width (tu_ChatLog tu) [];
        let start = max 0 (int (length lines) - height);
        if int (length lines) < start then Panic
        else Ret (concat (drop (nat start) lines)) })"

text \<open>Without a message box; the separator depends on the position in the log, not on what was shown.\<close>

fun join_chats :: "ui_env \<Rightarrow> int \<Rightarrow> string \<Rightarrow> bool \<Rightarrow> Chat list \<Rightarrow> string go" where
  "join_chats E IDS shown first [] = Ret []"
| "join_chats E IDS shown first (chat # chats) =
     (if shown \<noteq> [] \<and> shown \<noteq> ch_Channel chat then join_chats E IDS shown False chats
      else do {
        msg \<leftarrow> chat_line E IDS chat;
        rest \<leftarrow> join_chats E IDS shown False chats;
        Ret ((if first then [] else ''\<newline>'') @ msg @ rest) })"

definition formatChats :: "ui_env \<Rightarrow> Tui \<Rightarrow> string go" where
  "formatChats E tu = (case tu_Box tu of
     Some box \<Rightarrow> formatChatsFit E box tu
   | None \<Rightarrow> join_chats E (tu_IDS tu) (tu_Show tu) True (tu_ChatLog tu))"

section \<open>Status and chats\<close>

definition ui_setStatus :: "string \<Rightarrow> Tui \<Rightarrow> Tui" where
  "ui_setStatus status tu = tu\<lparr>tu_Status := tu_Status tu @ [status]\<rparr>"

definition redrawChats :: "ui_env \<Rightarrow> Tui \<Rightarrow> Tui go" where
  "redrawChats E tu = do { chats \<leftarrow> formatChats E tu; Ret (tu\<lparr>tu_Drawn := tu_Drawn tu @ [chats]\<rparr>) }"

definition ui_addChat :: "ui_env \<Rightarrow> Chat \<Rightarrow> Tui \<Rightarrow> Tui go" where
  "ui_addChat E chat tu = redrawChats E (tu\<lparr>tu_ChatLog := tu_ChatLog tu @ [chat]\<rparr>)"

definition ui_chatStatus :: "ui_env \<Rightarrow> string \<Rightarrow> Tui \<Rightarrow> Tui go" where
  "ui_chatStatus E status tu =
     ui_addChat E \<lparr>ch_Time = ue_now E, ch_Id = ''SYSTEM'', ch_Channel = [], ch_Message = status\<rparr> tu"

definition ui_chatLines :: "ui_env \<Rightarrow> string list \<Rightarrow> Tui \<Rightarrow> Tui go" where
  "ui_chatLines E ls tu = ofold (ui_chatStatus E) ls tu"

text \<open>The receivers: one status or chat of the node.\<close>

definition statusReceiver :: "ui_env \<Rightarrow> tone \<Rightarrow> string \<Rightarrow> Tui \<Rightarrow> Tui go" where
  "statusReceiver E priority message tu = (case priority of
     TONE_HIGH \<Rightarrow> ui_chatStatus E message tu
   | TONE_LOW \<Rightarrow> Ret (ui_setStatus message tu))"

definition chatReceiver :: "ui_env \<Rightarrow> Chat \<Rightarrow> Tui \<Rightarrow> Tui go" where
  "chatReceiver E chat tu = ui_addChat E chat tu"

text \<open>A call of the node.\<close>

definition on_node :: "(WhiteBox \<Rightarrow> WhiteBox go) \<Rightarrow> Tui \<Rightarrow> Tui go" where
  "on_node f tu = do { wb \<leftarrow> f (tu_Wb tu); Ret (tu\<lparr>tu_Wb := wb\<rparr>) }"

end
