(* ===== verification/TuiCommands.thy ===== *)
theory TuiCommands
  imports Tui
begin

text \<open>
  The commands of the terminal user interface (\<open>tui.go\<close>, lines 107-143 and 170-673) and the input line
  (lines 675-775). Each handler gets the words of the input line, the first being the command itself.
  A command is atomic except that the lock on the pending invites outlives it when the code does not
  release it.
\<close>

section \<open>Partial ids\<close>

text \<open>
  The loop that looks for the one key with a prefix: \<open>None\<close> is the early return when a second key has it,
  and the empty string means that none has.
\<close>

fun match_prefix :: "string \<Rightarrow> string list \<Rightarrow> string \<Rightarrow> string option" where
  "match_prefix pre [] found = Some found"
| "match_prefix pre (i # ids) found =
     (if prefix pre i then (if found \<noteq> [] then None else match_prefix pre ids i)
      else match_prefix pre ids found)"

definition party_ids :: "lib \<Rightarrow> Tui \<Rightarrow> string list" where
  "party_ids L tu = l_keys L (map_keys (wb_Parties (tu_Wb tu)))"

text \<open>The lookup of a party, with its two error statuses (\<open>Inl\<close>).\<close>

definition find_party :: "lib \<Rightarrow> string \<Rightarrow> Tui \<Rightarrow> Tui + string" where
  "find_party L partyPrefix tu = (case match_prefix partyPrefix (party_ids L tu) [] of
     None \<Rightarrow> Inl (ui_setStatus (''error multiple parties found for '' @ partyPrefix) tu)
   | Some partyId \<Rightarrow>
       if partyId = [] then Inl (ui_setStatus (''error party not found for '' @ partyPrefix) tu) else Inr partyId)"

definition with_party :: "lib \<Rightarrow> string \<Rightarrow> Tui \<Rightarrow> (string \<Rightarrow> Tui go) \<Rightarrow> Tui go" where
  "with_party L partyPrefix tu k = (case find_party L partyPrefix tu of
     Inl tu \<Rightarrow> Ret tu
   | Inr partyId \<Rightarrow> k partyId)"

section \<open>Chats and parties\<close>

definition handleBootstrap :: "lib \<Rightarrow> ui_env \<Rightarrow> string list \<Rightarrow> Tui \<Rightarrow> Tui go" where
  "handleBootstrap L E toks tu =
     (if length toks = 1 then ui_chatStatus E (wb_BsId (tu_Wb tu)) tu
      else if length toks \<noteq> 2 then Ret (ui_setStatus ''error processing bootstrap command'' tu)
      else (case split_on CHR ''/'' (toks ! 1) of
          [ip, port, peerId] \<Rightarrow> on_node (SendBootstrap L (ue_now E) (ip @ '':'' @ port) peerId) tu
        | _ \<Rightarrow> Ret (ui_setStatus ''error processing bootstrap command'' tu)))"

text \<open>\<open>handleChat\<close>: with a party shown that the node is not in, the text is dropped without a status.\<close>

definition handleChat :: "lib \<Rightarrow> ui_env \<Rightarrow> string \<Rightarrow> Tui \<Rightarrow> Tui go" where
  "handleChat L E buf tu =
     (if tu_Show tu = [] \<or> tu_Show tu = ''mainline''
      then do { tu \<leftarrow> on_node (SendChat L (ue_now E) buf) tu; Ret (ui_setStatus ''sent'' tu) }
      else (case map_get (wb_Parties (tu_Wb tu)) (tu_Show tu) of
          None \<Rightarrow> Ret tu
        | Some party \<Rightarrow> do {
            tu \<leftarrow> on_node (Party_SendChat L (ue_now E) party buf) tu;
            Ret (ui_setStatus ''sent'' tu) }))"

definition handleStart :: "ui_env \<Rightarrow> string list \<Rightarrow> Tui \<Rightarrow> Tui go" where
  "handleStart E toks tu =
     (if length toks < 2 then Ret (ui_setStatus ''error insufficient args to create command'' tu)
      else do {
        (partyId, wb) \<leftarrow> PartyStart (ue_random E) (toks ! 1) (tu_Wb tu);
        let tu = tu\<lparr>tu_Wb := wb\<rparr>;
        Ret (if partyId \<noteq> [] then ui_setStatus (''party started '' @ partyId) tu else tu) })"

text \<open>
  The loops of \<open>handleInvite\<close>. The party loop remembers a pointer; the peer loop goes on after ids that do
  not decode. Their results are \<open>None\<close> for the early return when a second one matches.
\<close>

fun invite_party :: "(string \<times> PartyLine) list \<Rightarrow> string \<Rightarrow> string list \<Rightarrow> PartyLine option \<Rightarrow> PartyLine option option" where
  "invite_party ps pre [] party = Some party"
| "invite_party ps pre (i # ids) party =
     (if prefix pre i then (if party \<noteq> None then None else invite_party ps pre ids (map_get ps i))
      else invite_party ps pre ids party)"

fun invite_peer :: "lib \<Rightarrow> string \<Rightarrow> string list \<Rightarrow> MinPeer option \<Rightarrow> Tui \<Rightarrow> (MinPeer option option \<times> Tui) go" where
  "invite_peer L pre [] found tu = Ret (Some found, tu)"
| "invite_peer L pre (i # ids) found tu = do {
     (front, wb) \<leftarrow> IdFront L i (tu_Wb tu);
     let tu = tu\<lparr>tu_Wb := wb\<rparr>;
     case front of
       None \<Rightarrow> invite_peer L pre ids found (ui_setStatus ''error decoding peer id'' tu)
     | Some f \<Rightarrow>
         if prefix pre f
         then if found \<noteq> None
           then Ret (None, ui_setStatus (''error multiple peers found for '' @ pre) tu)
           else do {
             r \<leftarrow> IdToMin (l_spare L) i;
             case r of
               Inl err \<Rightarrow> invite_peer L pre ids None (ui_setStatus ''error decoding peer'' tu)
             | Inr minp \<Rightarrow> invite_peer L pre ids (Some minp) tu }
         else invite_peer L pre ids found tu }"

definition handleInvite :: "lib \<Rightarrow> ui_env \<Rightarrow> string list \<Rightarrow> Tui \<Rightarrow> Tui go" where
  "handleInvite L E toks tu =
     (if length toks < 3 then Ret (ui_setStatus ''error insufficient args to invite command'' tu)
      else
        let partyPrefix = toks ! 1; userPrefix = toks ! 2 in
        case invite_party (wb_Parties (tu_Wb tu)) partyPrefix (party_ids L tu) None of
          None \<Rightarrow> Ret (ui_setStatus (''error multiple parties found for '' @ partyPrefix) tu)
        | Some None \<Rightarrow> Ret (ui_setStatus (''error party not found for '' @ partyPrefix) tu)
        | Some (Some party) \<Rightarrow> do {
            (r, tu) \<leftarrow> invite_peer L userPrefix (ue_peerIds E) None tu;
            case r of
              None \<Rightarrow> Ret tu
            | Some None \<Rightarrow> Ret (ui_setStatus (''error peer not found for '' @ userPrefix) tu)
            | Some (Some minp) \<Rightarrow> on_node (SendInvite L (ue_now E) party minp) tu })"

definition handleShow :: "lib \<Rightarrow> ui_env \<Rightarrow> string list \<Rightarrow> Tui \<Rightarrow> Tui go" where
  "handleShow L E toks tu =
     (if length toks < 2 then redrawChats E (tu\<lparr>tu_Show := []\<rparr>)
      else if prefix (toks ! 1) ''all'' then redrawChats E (tu\<lparr>tu_Show := []\<rparr>)
      else if prefix (toks ! 1) ''mainline'' then redrawChats E (tu\<lparr>tu_Show := ''mainline''\<rparr>)
      else with_party L (toks ! 1) tu (\<lambda>partyId. redrawChats E (tu\<lparr>tu_Show := partyId\<rparr>)))"

text \<open>\<open>strconv.ParseInt(s, 16, 64)\<close>: an optional sign, at least one digit, and the range of an \<open>int64\<close>.\<close>

fun hex_number :: "string \<Rightarrow> nat \<Rightarrow> nat option" where
  "hex_number [] n = Some n"
| "hex_number (c # cs) n = (case fromHexChar c of None \<Rightarrow> None | Some d \<Rightarrow> hex_number cs (16 * n + d))"

definition ParseInt16 :: "string \<Rightarrow> int option" where
  "ParseInt16 s =
     (let neg = (s \<noteq> [] \<and> hd s = CHR ''-'');
          digits = (if s \<noteq> [] \<and> (hd s = CHR ''-'' \<or> hd s = CHR ''+'') then tl s else s)
      in if digits = [] then None
         else case hex_number digits 0 of
           None \<Rightarrow> None
         | Some n \<Rightarrow>
             if neg then (if n \<le> 2 ^ 63 then Some (- int n) else None)
             else (if n < 2 ^ 63 then Some (int n) else None))"

definition int_string :: "int \<Rightarrow> string" where
  "int_string i = (if i < 0 then CHR ''-'' # dec (nat (- i)) else dec (nat i))"

definition handleIds :: "ui_env \<Rightarrow> string list \<Rightarrow> Tui \<Rightarrow> Tui go" where
  "handleIds E toks tu =
     (if length toks < 2 then Ret (ui_setStatus ''error insufficient args to ids command'' tu)
      else (case ParseInt16 (toks ! 1) of
          None \<Rightarrow> Ret (ui_setStatus ''error insufficient args to ids command'' tu)
        | Some sz \<Rightarrow>
            redrawChats E (ui_setStatus (''set id display size to '' @ int_string sz) (tu\<lparr>tu_IDS := sz\<rparr>))))"

definition handleSend :: "lib \<Rightarrow> ui_env \<Rightarrow> string list \<Rightarrow> Tui \<Rightarrow> Tui go" where
  "handleSend L E toks tu =
     (if length toks < 3 then Ret (ui_setStatus ''error insufficient args to leave command'' tu)
      else with_party L (toks ! 1) tu (\<lambda>partyId. do {
        party \<leftarrow> map_get (wb_Parties (tu_Wb tu)) partyId;
        on_node (Party_SendChat L (ue_now E) party (join '' '' (drop 2 toks))) tu }))"

definition handleClear :: "ui_env \<Rightarrow> Tui \<Rightarrow> Tui go" where
  "handleClear E tu = redrawChats E (tu\<lparr>tu_ChatLog := []\<rparr>)"

text \<open>\<open>handleList\<close>: the arguments are only looked at when there are two or more, and both tests are the same.\<close>

definition handleList :: "lib \<Rightarrow> ui_env \<Rightarrow> string list \<Rightarrow> Tui \<Rightarrow> Tui go" where
  "handleList L E toks tu =
     (let what = (if 2 < length toks
            then (if prefix (toks ! 1) ''invites'' then ''invites''
                  else if prefix (toks ! 1) ''parties'' then ''parties'' else ''both'')
            else ''both'')
      in if what = ''both'' \<or> what = ''parties''
         then do {
           tu \<leftarrow> ui_chatStatus E ''      ==== PARTY LIST ====      '' tu;
           tu \<leftarrow> (if wb_Parties (tu_Wb tu) \<noteq> [] then ui_chatLines E (party_ids L tu) tu
                   else ui_chatStatus E ''           no parties           '' tu);
           tu \<leftarrow> ui_chatStatus E ''  ==== ACCEPTANCE PENDING ====  '' tu;
           if tu_InvitesHeld tu then Panic
           else if wb_PendingInvites (tu_Wb tu) \<noteq> []
           then ui_chatLines E (l_keys L (map_keys (wb_PendingInvites (tu_Wb tu)))) tu
           else ui_chatStatus E ''           no invites           '' tu }
         else Ret tu)"

text \<open>\<open>handleAccept\<close>: the return in the loop leaves the pending invites locked.\<close>

definition handleAccept :: "lib \<Rightarrow> ui_env \<Rightarrow> string list \<Rightarrow> Tui \<Rightarrow> Tui go" where
  "handleAccept L E toks tu =
     (if length toks < 2 then Ret (ui_setStatus ''error insufficient args to join command'' tu)
      else if tu_InvitesHeld tu then Panic
      else
        let partyPrefix = toks ! 1 in
        case match_prefix partyPrefix (l_keys L (map_keys (wb_PendingInvites (tu_Wb tu)))) [] of
          None \<Rightarrow> Ret ((ui_setStatus (''error multiple invites found for '' @ partyPrefix) tu)\<lparr>tu_InvitesHeld := True\<rparr>)
        | Some partyId \<Rightarrow>
            if partyId = [] then Ret (ui_setStatus (''error invite not found for '' @ partyPrefix) tu)
            else on_node (AcceptInvite L (ue_now E) partyId) tu)"

definition handleLeave :: "lib \<Rightarrow> ui_env \<Rightarrow> string list \<Rightarrow> Tui \<Rightarrow> Tui go" where
  "handleLeave L E toks tu =
     (if length toks < 2 then Ret (ui_setStatus ''error insufficient args to leave command'' tu)
      else with_party L (toks ! 1) tu (\<lambda>partyId. do {
        party \<leftarrow> map_get (wb_Parties (tu_Wb tu)) partyId;
        tu \<leftarrow> on_node (Party_SendDisconnect L (ue_now E) party) tu;
        Ret (ui_setStatus (''left the party '' @ partyId) tu) }))"

section \<open>Packs\<close>

definition quote :: "string \<Rightarrow> string" where
  "quote s = [char_of (34 :: nat)] @ s @ [char_of (34 :: nat)]"

definition show_pack :: "ui_env \<Rightarrow> string \<Rightarrow> Pack \<Rightarrow> Tui \<Rightarrow> Tui go" where
  "show_pack E packHash pack tu = do {
     let line = quote (pk_Name pack) @ '' ('' @ int_string (int (card (dom (pk_Peers pack)))) @ '')'' @
           (if pk_State pack = COMPLETE then ''*'' else []);
     tu \<leftarrow> ui_chatLines E [''PACK: '' @ packHash, line] tu;
     ofold (\<lambda>p tu. do {
       packFileInfo \<leftarrow> deref (wb_Files (tu_Wb tu)) p;
       ui_chatLines E [''  FILE: '' @ pf_Hash packFileInfo, ''  '' @ quote (pf_Name packFileInfo)] tu })
       (pk_Files pack) tu }"

definition show_party :: "lib \<Rightarrow> ui_env \<Rightarrow> string \<Rightarrow> PartyLine \<Rightarrow> Tui \<Rightarrow> Tui go" where
  "show_party L E partyId party tu = do {
     tu \<leftarrow> ui_chatStatus E (''== '' @ partyId @ '' =='') tu;
     ofold (\<lambda>packHash tu. case map_get (pl_Packs party) packHash of
         None \<Rightarrow> Ret tu
       | Some pack \<Rightarrow> show_pack E packHash pack tu) (l_keys L (map_keys (pl_Packs party))) tu }"

definition handlePacks :: "lib \<Rightarrow> ui_env \<Rightarrow> Tui \<Rightarrow> Tui go" where
  "handlePacks L E tu = ofold (\<lambda>partyId tu. case map_get (wb_Parties (tu_Wb tu)) partyId of
       None \<Rightarrow> Ret tu
     | Some party \<Rightarrow> show_party L E partyId party tu) (party_ids L tu) tu"

text \<open>\<open>handleGet\<close>; the pack's party is put back, since \<open>StartPack\<close> changes it in place.\<close>

definition handleGet :: "lib \<Rightarrow> ui_env \<Rightarrow> string list \<Rightarrow> Tui \<Rightarrow> Tui go" where
  "handleGet L E toks tu =
     (if length toks < 3 then Ret (ui_setStatus ''error insufficient args to get command'' tu)
      else with_party L (toks ! 1) tu (\<lambda>partyId. do {
        let hashPrefix = toks ! 2;
        party \<leftarrow> map_get (wb_Parties (tu_Wb tu)) partyId;
        case match_prefix hashPrefix (l_keys L (map_keys (pl_Packs party))) [] of
          None \<Rightarrow> Ret (ui_setStatus (''error multiple packs found for '' @ hashPrefix) tu)
        | Some packHash \<Rightarrow>
            if packHash = [] then Ret (ui_setStatus (''error pack not found for '' @ hashPrefix) tu)
            else on_node (\<lambda>wb. do {
              (party, wb) \<leftarrow> StartPack L packHash party wb;
              Ret (wb\<lparr>wb_Parties := map_put partyId party (wb_Parties wb)\<rparr>) }) tu }))"

section \<open>Input\<close>

definition help_lines :: "string list" where
  "help_lines =
     [''this is probably wildly out of date...'',
      ''/bs [bootstrap info]'',
      ''    show bs info (no arg) or bootstrap to a peer'',
      ''/start <party_name>'',
      ''    start a party (name limit 8 characters)'',
      ''/invite <party_id> <user_id>'',
      ''    invite a user to a party (partial ids ok)'',
      ''/accept <party_id>'',
      ''    accept an invite (partial ids ok)'',
      ''/list [parties|invites]'',
      ''    list parties, invites, or both'',
      ''/send <party_id> msg'',
      ''    send message to party (partial id ok)'',
      ''/leave <party_id>'',
      ''    leaves the party (partial id ok)'',
      ''/show [all|mainline|party_id]'',
      ''    change what messages are displayed (partial id ok)'',
      ''/clear'',
      ''    clear chat log'',
      ''/ids <size>'',
      ''    change id display size (hex)'',
      ''/packs'',
      ''    list available packs'',
      ''/get <party_id> <pack_id>'',
      ''    get a pack from a party (partial ids ok)'',
      ''/rescan'',
      ''    recan share dir for new packs'',
      ''/help'',
      ''    display this'',
      ''/quit'',
      ''    we'' @ [char_of (39 :: nat)] @ ''ll miss you, but it was fun while you were here'']"

definition handleHelp :: "ui_env \<Rightarrow> Tui \<Rightarrow> Tui go" where
  "handleHelp E tu = ui_chatLines E help_lines tu"

definition handleUserInput :: "lib \<Rightarrow> ui_env \<Rightarrow> string \<Rightarrow> Tui \<Rightarrow> Tui go" where
  "handleUserInput L E buf tu =
     (if buf = [] then Ret tu
      else
        let toks = split_on CHR '' '' buf; cmd = hd toks in
        if cmd = ''/bs'' then handleBootstrap L E toks tu
        else if cmd = ''/start'' then handleStart E toks tu
        else if cmd = ''/invite'' then handleInvite L E toks tu
        else if cmd = ''/accept'' then handleAccept L E toks tu
        else if cmd = ''/list'' then handleList L E toks tu
        else if cmd = ''/send'' then handleSend L E toks tu
        else if cmd = ''/leave'' then handleLeave L E toks tu
        else if cmd = ''/show'' then handleShow L E toks tu
        else if cmd = ''/clear'' then handleClear E tu
        else if cmd = ''/ids'' then handleIds E toks tu
        else if cmd = ''/packs'' then handlePacks L E tu
        else if cmd = ''/get'' then handleGet L E toks tu
        else if cmd = ''/rescan'' then on_node (RescanPacks L (ue_fs E) (ue_now E)) tu
        else if cmd = ''/help'' then handleHelp E tu
        else if cmd = ''/quit'' then do {
          tu \<leftarrow> on_node (DisconnectParties L (ue_now E)) tu;
          tu \<leftarrow> on_node (SendDisconnect L (ue_now E)) tu;
          Ret (tu\<lparr>tu_Stopped := True\<rparr>) }
        else handleChat L E buf tu)"

text \<open>The input line: \<open>width\<close> is that of the input box, and the last bytes that fit are shown.\<close>

record InputLine =
  il_Buf :: string
  il_Text :: string

definition show_input :: "int \<Rightarrow> string \<Rightarrow> InputLine go" where
  "show_input width buf =
     (let start = max 0 (int (length buf) - width + 2) in
      if int (length buf) < start then Panic else Ret \<lparr>il_Buf = buf, il_Text = drop (nat start) buf\<rparr>)"

datatype key = Enter | Backspace | Space | KeyStr string

definition onKey :: "lib \<Rightarrow> ui_env \<Rightarrow> int \<Rightarrow> key \<Rightarrow> InputLine \<times> Tui \<Rightarrow> (InputLine \<times> Tui) go" where
  "onKey L E width k st = (case st of (il, tu) \<Rightarrow> (case k of
     Enter \<Rightarrow> do { tu \<leftarrow> handleUserInput L E (il_Buf il) tu; Ret (\<lparr>il_Buf = [], il_Text = []\<rparr>, tu) }
   | Backspace \<Rightarrow> do { il \<leftarrow> show_input width (butlast (il_Buf il)); Ret (il, tu) }
   | Space \<Rightarrow> do { il \<leftarrow> show_input width (il_Buf il @ '' ''); Ret (il, tu) }
   | KeyStr s \<Rightarrow> do { il \<leftarrow> show_input width (il_Buf il @ s); Ret (il, tu) }))"

text \<open>A resize of the terminal to \<open>height\<close> rows; the layout makes the message box \<open>width\<close> columns wide.\<close>

definition onResize :: "ui_env \<Rightarrow> int \<Rightarrow> int \<Rightarrow> Tui \<Rightarrow> Tui go" where
  "onResize E height width tu = redrawChats E (tu\<lparr>tu_Box := Some (height - 4, width)\<rparr>)"

end
