(* ===== verification/TuiProps.thy ===== *)
theory TuiProps
  imports TuiCommands Reach
begin

text \<open>
  The user interface and the node together: \<open>ui_step\<close> is one event of the interface or one step of the node
  in the background. The interface changes the node only by steps of the node, so what \<open>Reach\<close> shows of
  runs of a node holds under the interface; a lock on the pending invites that \<open>/accept\<close> leaves behind is
  never released; and the chat log is laid out without loss above the last screenful.
\<close>

section \<open>Steps of the interface\<close>

inductive ui_step :: "lib \<Rightarrow> InputLine \<times> Tui \<Rightarrow> InputLine \<times> Tui \<Rightarrow> bool" for L where
  key: "onKey L E width k st = Ret st' \<Longrightarrow> ui_step L st st'"
| status: "statusReceiver E priority message tu = Ret tu' \<Longrightarrow> ui_step L (il, tu) (il, tu')"
| chat: "chatReceiver E chat tu = Ret tu' \<Longrightarrow> ui_step L (il, tu) (il, tu')"
| resize: "onResize E height width tu = Ret tu' \<Longrightarrow> ui_step L (il, tu) (il, tu')"
| background: "node_step L (tu_Wb tu) wb' \<Longrightarrow> ui_step L (il, tu) (il, tu\<lparr>tu_Wb := wb'\<rparr>)"

text \<open>
  What an event does to the node, and to the lock: the node makes steps of its own, and a lock that is held
  stays held.
\<close>

definition via_node :: "lib \<Rightarrow> Tui \<Rightarrow> Tui \<Rightarrow> bool" where
  "via_node L tu tu' \<longleftrightarrow> (node_step L)\<^sup>*\<^sup>* (tu_Wb tu) (tu_Wb tu') \<and> (tu_InvitesHeld tu \<longrightarrow> tu_InvitesHeld tu')"

named_theorems via "operations of the interface that act on the node by its own steps"

lemma via_refl [simp, intro!]: "via_node L tu tu"
  by (simp add: via_node_def)

lemma via_trans [trans]: "via_node L a b \<Longrightarrow> via_node L b c \<Longrightarrow> via_node L a c"
  by (auto simp: via_node_def)

lemma via_updates [simp]:
  "via_node L a (ui_setStatus m tu) \<longleftrightarrow> via_node L a tu" "via_node L (ui_setStatus m tu) b \<longleftrightarrow> via_node L tu b"
  "via_node L a (tu\<lparr>tu_Show := s\<rparr>) \<longleftrightarrow> via_node L a tu" "via_node L a (tu\<lparr>tu_IDS := i\<rparr>) \<longleftrightarrow> via_node L a tu"
  "via_node L a (tu\<lparr>tu_ChatLog := l\<rparr>) \<longleftrightarrow> via_node L a tu" "via_node L a (tu\<lparr>tu_Drawn := d\<rparr>) \<longleftrightarrow> via_node L a tu"
  "via_node L a (tu\<lparr>tu_Box := b'\<rparr>) \<longleftrightarrow> via_node L a tu" "via_node L a (tu\<lparr>tu_Stopped := x\<rparr>) \<longleftrightarrow> via_node L a tu"
  "via_node L (tu\<lparr>tu_Show := s\<rparr>) b \<longleftrightarrow> via_node L tu b" "via_node L (tu\<lparr>tu_IDS := i\<rparr>) b \<longleftrightarrow> via_node L tu b"
  "via_node L (tu\<lparr>tu_ChatLog := l\<rparr>) b \<longleftrightarrow> via_node L tu b" "via_node L (tu\<lparr>tu_Box := b'\<rparr>) b \<longleftrightarrow> via_node L tu b"
  "via_node L (tu\<lparr>tu_Drawn := d\<rparr>) b \<longleftrightarrow> via_node L tu b"
  by (simp_all add: via_node_def ui_setStatus_def)

lemma via_held: "via_node L a tu \<Longrightarrow> via_node L a (tu\<lparr>tu_InvitesHeld := True\<rparr>)"
  by (simp add: via_node_def)

lemma via_node_step: "node_step L (tu_Wb tu) wb \<Longrightarrow> via_node L tu (tu\<lparr>tu_Wb := wb\<rparr>)"
  by (auto simp: via_node_def)

text \<open>The calls of the node that the commands make.\<close>

lemma via_ops:
  "on_node (SendBootstrap L now addr i) tu = Ret tu' \<Longrightarrow> via_node L tu tu'"
  "on_node (SendChat L now text) tu = Ret tu' \<Longrightarrow> via_node L tu tu'"
  "on_node (SendDisconnect L now) tu = Ret tu' \<Longrightarrow> via_node L tu tu'"
  "on_node (DisconnectParties L now) tu = Ret tu' \<Longrightarrow> via_node L tu tu'"
  "on_node (RescanPacks L env now) tu = Ret tu' \<Longrightarrow> via_node L tu tu'"
  "on_node (AcceptInvite L now i) tu = Ret tu' \<Longrightarrow> via_node L tu tu'"
  by (auto simp: on_node_def elim!: bindE intro!: via_node_step intro: node_op_step node_op.intros)

lemma via_party_ops:
  assumes "map_get (wb_Parties (tu_Wb tu)) k = Some party"
  shows "on_node (Party_SendChat L now party text) tu = Ret tu' \<Longrightarrow> via_node L tu tu'"
    "on_node (Party_SendDisconnect L now party) tu = Ret tu' \<Longrightarrow> via_node L tu tu'"
    "on_node (SendInvite L now party minp) tu = Ret tu' \<Longrightarrow> via_node L tu tu'"
    "on_node (\<lambda>wb. do { (party, wb) \<leftarrow> StartPack L packHash party wb;
       Ret (wb\<lparr>wb_Parties := map_put k party (wb_Parties wb)\<rparr>) }) tu = Ret tu' \<Longrightarrow> via_node L tu tu'"
  using assms by (auto simp: on_node_def elim!: bindE intro!: via_node_step
      intro: node_op_step node_op.party_say node_op.party_leave node_op.invite node_op.start_pack)

lemma via_ofold:
  assumes "ofold f xs tu = Ret tu'" and "\<And>x a b. f x a = Ret b \<Longrightarrow> via_node L a b"
  shows "via_node L tu tu'"
  using assms(1) via_refl by (rule ofold_invariant) (blast intro: via_trans assms(2))

lemma via_redrawChats [via]: "redrawChats E tu = Ret tu' \<Longrightarrow> via_node L tu tu'"
  by (auto simp: redrawChats_def elim!: bindE)

lemma via_addChat [via]: "ui_addChat E chat tu = Ret tu' \<Longrightarrow> via_node L tu tu'"
  by (auto simp: ui_addChat_def dest!: via_redrawChats [where L = L])

lemma via_chatStatus [via]: "ui_chatStatus E m tu = Ret tu' \<Longrightarrow> via_node L tu tu'"
  by (simp add: ui_chatStatus_def via_addChat)

lemma via_chatLines [via]: "ui_chatLines E ls tu = Ret tu' \<Longrightarrow> via_node L tu tu'"
  unfolding ui_chatLines_def by (erule via_ofold) (rule via_chatStatus)

section \<open>The commands\<close>

lemma with_partyE:
  assumes "with_party L pre tu k = Ret tu'"
  obtains m where "tu' = ui_setStatus m tu" | partyId where "k partyId = Ret tu'"
  using assms by (auto simp: with_party_def find_party_def split: option.splits if_splits sum.splits)

lemma with_party_via:
  assumes "with_party L pre tu k = Ret tu'" and "\<And>partyId. k partyId = Ret tu' \<Longrightarrow> via_node L tu tu'"
  shows "via_node L tu tu'"
  using assms(1) by (rule with_partyE) (auto simp: assms(2))

lemma via_handleBootstrap [via]: "handleBootstrap L E toks tu = Ret tu' \<Longrightarrow> via_node L tu tu'"
  unfolding handleBootstrap_def
  by (auto split: if_splits list.splits dest: via_chatStatus via_ops)

lemma via_handleChat [via]: "handleChat L E buf tu = Ret tu' \<Longrightarrow> via_node L tu tu'"
  unfolding handleChat_def
  by (auto split: if_splits option.splits elim!: bindE dest: via_ops via_party_ops)

lemma via_handleStart [via]: "handleStart E toks tu = Ret tu' \<Longrightarrow> via_node L tu tu'"
  unfolding handleStart_def Let_def
  by (auto split: if_splits elim!: bindE intro!: via_node_step intro: node_op_step [OF node_op.start])

lemma via_handleShow [via]: "handleShow L E toks tu = Ret tu' \<Longrightarrow> via_node L tu tu'"
  unfolding handleShow_def
  by (auto split: if_splits elim!: with_party_via dest!: via_redrawChats [where L = L])

lemma via_handleIds [via]: "handleIds E toks tu = Ret tu' \<Longrightarrow> via_node L tu tu'"
  unfolding handleIds_def
  by (auto split: if_splits option.splits dest!: via_redrawChats [where L = L])

lemma via_handleSend [via]: "handleSend L E toks tu = Ret tu' \<Longrightarrow> via_node L tu tu'"
  unfolding handleSend_def
  by (auto split: if_splits elim!: with_party_via bindE dest: via_party_ops)

lemma via_handleClear [via]: "handleClear E tu = Ret tu' \<Longrightarrow> via_node L tu tu'"
  by (auto simp: handleClear_def dest!: via_redrawChats [where L = L])

lemma via_handleList [via]: "handleList L E toks tu = Ret tu' \<Longrightarrow> via_node L tu tu'"
  unfolding handleList_def Let_def
  by (auto split: if_splits elim!: bindE dest!: via_chatStatus [where L = L] via_chatLines [where L = L])
    (blast intro: via_trans)+

lemma via_handleAccept [via]: "handleAccept L E toks tu = Ret tu' \<Longrightarrow> via_node L tu tu'"
  unfolding handleAccept_def Let_def
  by (auto split: if_splits option.splits intro: via_ops via_held)

lemma via_handleLeave [via]: "handleLeave L E toks tu = Ret tu' \<Longrightarrow> via_node L tu tu'"
  unfolding handleLeave_def
  by (auto split: if_splits elim!: with_party_via bindE dest: via_party_ops)

lemma via_show_pack [via]:
  assumes "show_pack E h pack tu = Ret tu'"
  shows "via_node L tu tu'"
proof -
  let ?files = "ofold (\<lambda>p tu. do {
       packFileInfo \<leftarrow> deref (wb_Files (tu_Wb tu)) p;
       ui_chatLines E [''  FILE: '' @ pf_Hash packFileInfo, ''  '' @ quote (pf_Name packFileInfo)] tu })"
  from assms obtain ls tu1 where t: "ui_chatLines E ls tu = Ret tu1" "?files (pk_Files pack) tu1 = Ret tu'"
    unfolding show_pack_def Let_def by (elim bindE) blast
  have "via_node L tu tu1" by (rule via_chatLines [OF t(1)])
  also have "via_node L tu1 tu'" using t(2) by (rule via_ofold) (blast elim: bindE intro: via_chatLines)
  finally show ?thesis .
qed

lemma via_show_party [via]:
  assumes "show_party L E k party tu = Ret tu'"
  shows "via_node L tu tu'"
proof -
  from assms obtain tu1 where t: "ui_chatStatus E (''== '' @ k @ '' =='') tu = Ret tu1"
      "ofold (\<lambda>packHash tu. case map_get (pl_Packs party) packHash of
         None \<Rightarrow> Ret tu
       | Some pack \<Rightarrow> show_pack E packHash pack tu) (l_keys L (map_keys (pl_Packs party))) tu1 = Ret tu'"
    unfolding show_party_def by (elim bindE)
  have "via_node L tu tu1" by (rule via_chatStatus [OF t(1)])
  also have "via_node L tu1 tu'" using t(2) by (rule via_ofold) (auto split: option.splits dest: via_show_pack)
  finally show ?thesis .
qed

lemma via_handlePacks [via]: "handlePacks L E tu = Ret tu' \<Longrightarrow> via_node L tu tu'"
  unfolding handlePacks_def by (erule via_ofold) (auto split: option.splits dest: via_show_party)

lemma via_handleGet [via]: "handleGet L E toks tu = Ret tu' \<Longrightarrow> via_node L tu tu'"
  unfolding handleGet_def Let_def
  by (auto split: if_splits option.splits elim!: with_party_via bindE dest: via_party_ops)

lemma invite_party_known:
  assumes "invite_party ps pre ids found = Some (Some party)" and "\<And>p. found = Some p \<Longrightarrow> \<exists>k. map_get ps k = Some p"
  shows "\<exists>k. map_get ps k = Some party"
  using assms by (induction ps pre ids found rule: invite_party.induct) (auto split: if_splits)

lemma invite_peer_via:
  assumes "invite_peer L pre ids found tu = Ret (r, tu')"
  shows "via_node L tu tu' \<and> wb_Parties (tu_Wb tu') = wb_Parties (tu_Wb tu)"
  using assms
proof (induction L pre ids found tu rule: invite_peer.induct)
  case (2 L pre i ids found tu)
  from "2.prems" obtain front wb where f: "IdFront L i (tu_Wb tu) = Ret (front, wb)"
    by (auto elim!: bindE)
  have v: "via_node L tu (tu\<lparr>tu_Wb := wb\<rparr>)" by (rule via_node_step) (rule node_op_step [OF node_op.look_up [OF f]])
  have w: "wb_Parties wb = wb_Parties (tu_Wb tu)" by (rule quiet_fields [OF quiet_IdFront [OF f]])
  have st: "tu_Wb (ui_setStatus m t) = tu_Wb t" for m t by (simp add: ui_setStatus_def)
  have go: "via_node L tu t \<and> wb_Parties (tu_Wb t) = wb_Parties (tu_Wb tu)"
    if "via_node L (tu\<lparr>tu_Wb := wb\<rparr>) t \<and> wb_Parties (tu_Wb t) = wb_Parties wb" for t
    using that v w via_trans by metis
  from "2.prems" f consider
      "front = None" "invite_peer L pre ids found (ui_setStatus ''error decoding peer id'' (tu\<lparr>tu_Wb := wb\<rparr>)) = Ret (r, tu')"
    | m where "tu' = ui_setStatus m (tu\<lparr>tu_Wb := wb\<rparr>)"
    | e a where "front = Some a" "prefix pre a" "found = None" "IdToMin (l_spare L) i = Ret (Inl e)"
        "invite_peer L pre ids None (ui_setStatus ''error decoding peer'' (tu\<lparr>tu_Wb := wb\<rparr>)) = Ret (r, tu')"
    | x a where "front = Some a" "prefix pre a" "found = None" "IdToMin (l_spare L) i = Ret (Inr x)"
        "invite_peer L pre ids (Some x) (tu\<lparr>tu_Wb := wb\<rparr>) = Ret (r, tu')"
    | a where "front = Some a" "\<not> prefix pre a" "invite_peer L pre ids found (tu\<lparr>tu_Wb := wb\<rparr>) = Ret (r, tu')"
    by (auto simp: Let_def elim!: bindE split: option.splits if_splits sum.splits)
  then show ?case
  proof cases
    case 1
    with "2.IH"(1) [OF f refl] have "via_node L (tu\<lparr>tu_Wb := wb\<rparr>) tu' \<and> wb_Parties (tu_Wb tu') = wb_Parties wb" by (simp add: st)
    then show ?thesis by (rule go)
  next
    case (2 m)
    with v w show ?thesis by (simp add: st)
  next
    case (3 e a)
    with "2.IH"(2) [OF f refl] have "via_node L (tu\<lparr>tu_Wb := wb\<rparr>) tu' \<and> wb_Parties (tu_Wb tu') = wb_Parties wb" by (simp add: st)
    then show ?thesis by (rule go)
  next
    case (4 x a)
    with "2.IH"(3) [OF f refl] have "via_node L (tu\<lparr>tu_Wb := wb\<rparr>) tu' \<and> wb_Parties (tu_Wb tu') = wb_Parties wb" by simp
    then show ?thesis by (rule go)
  next
    case (5 a)
    with "2.IH"(4) [OF f refl] have "via_node L (tu\<lparr>tu_Wb := wb\<rparr>) tu' \<and> wb_Parties (tu_Wb tu') = wb_Parties wb" by simp
    then show ?thesis by (rule go)
  qed
qed simp

lemma via_handleInvite [via]:
  assumes "handleInvite L E toks tu = Ret tu'"
  shows "via_node L tu tu'"
proof -
  have main: "via_node L tu tu'"
    if "invite_party (wb_Parties (tu_Wb tu)) p (party_ids L tu) None = Some (Some party)"
      "invite_peer L u ids None tu = Ret (r, tu1)" "on_node (SendInvite L now party minp) tu1 = Ret tu'"
    for p party u ids r tu1 now minp
  proof -
    from invite_party_known [OF that(1)] obtain k where "map_get (wb_Parties (tu_Wb tu)) k = Some party" by auto
    with invite_peer_via [OF that(2)] have "map_get (wb_Parties (tu_Wb tu1)) k = Some party" by simp
    from via_party_ops(3) [OF this that(3)] invite_peer_via [OF that(2)] show ?thesis by (blast intro: via_trans)
  qed
  show ?thesis
  proof (cases "invite_party (wb_Parties (tu_Wb tu)) (toks ! 1) (party_ids L tu) None")
    case (Some found)
    show ?thesis
    proof (cases found)
      case (Some party)
      with \<open>invite_party _ _ _ _ = Some found\<close> have p: "invite_party (wb_Parties (tu_Wb tu)) (toks ! 1) (party_ids L tu) None = Some (Some party)" by simp
      with assms consider m where "tu' = ui_setStatus m tu"
        | r tu1 where "invite_peer L (toks ! 2) (ue_peerIds E) None tu = Ret (r, tu1)"
            "(case r of None \<Rightarrow> Ret tu1
              | Some None \<Rightarrow> Ret (ui_setStatus (''error peer not found for '' @ toks ! 2) tu1)
              | Some (Some minp) \<Rightarrow> on_node (SendInvite L (ue_now E) party minp) tu1) = Ret tu'"
        unfolding handleInvite_def Let_def by (auto split: if_splits elim!: bindE)
      then show ?thesis
      proof cases
        case (2 r tu1)
        with invite_peer_via [OF 2(1)] main [OF p 2(1)] show ?thesis by (auto split: option.splits)
      qed simp
    qed (use assms \<open>invite_party _ _ _ _ = Some found\<close> in \<open>auto simp: handleInvite_def Let_def split: if_splits\<close>)
  qed (use assms in \<open>auto simp: handleInvite_def Let_def split: if_splits\<close>)
qed

lemma via_handleUserInput [via]: "handleUserInput L E buf tu = Ret tu' \<Longrightarrow> via_node L tu tu'"
  unfolding handleUserInput_def Let_def handleHelp_def
  by (elim ifE bindE) (auto dest: via via_ops intro: via_trans [OF via_ops(4) via_ops(3)])

lemma ui_step_via: "ui_step L st st' \<Longrightarrow> via_node L (snd st) (snd st')"
proof (induction rule: ui_step.induct)
  case (key E width k st st')
  then show ?case
    by (auto simp: onKey_def split: prod.splits key.splits elim!: bindE dest: via_handleUserInput)
next
  case (status E priority message tu tu' il)
  then show ?case by (auto simp: statusReceiver_def split: tone.splits dest: via_chatStatus)
next
  case (chat E c tu tu' il)
  then show ?case by (auto simp: chatReceiver_def dest: via_addChat)
next
  case (resize E height width tu tu' il)
  then show ?case by (auto simp: onResize_def dest!: via_redrawChats [where L = L])
next
  case (background tu wb' il)
  then show ?case by (simp add: via_node_step)
qed

lemma ui_run_via: "(ui_step L)\<^sup>*\<^sup>* st st' \<Longrightarrow> via_node L (snd st) (snd st')"
  by (induction rule: rtranclp_induct) (auto intro: via_trans ui_step_via)

section \<open>Partial ids\<close>

lemma match_prefix_found: "found \<noteq> [] \<Longrightarrow> [] \<notin> set ids \<Longrightarrow>
    match_prefix pre ids found = (if filter (prefix pre) ids = [] then Some found else None)"
  by (induction ids) auto

lemma match_prefix_filter:
  "[] \<notin> set ids \<Longrightarrow> match_prefix pre ids [] =
    (case filter (prefix pre) ids of [] \<Rightarrow> Some [] | [i] \<Rightarrow> Some i | _ \<Rightarrow> None)"
  by (induction ids) (auto simp: match_prefix_found split: list.splits)

lemma match_prefix_unique:
  assumes "distinct ids" and "[] \<notin> set ids"
  shows "match_prefix pre ids [] = Some i \<and> i \<noteq> [] \<longleftrightarrow> {k \<in> set ids. prefix pre k} = {i}"
    "match_prefix pre ids [] = Some [] \<longleftrightarrow> {k \<in> set ids. prefix pre k} = {}"
    "match_prefix pre ids [] = None \<longleftrightarrow> (\<exists>i j. i \<in> set ids \<and> j \<in> set ids \<and> i \<noteq> j \<and> prefix pre i \<and> prefix pre j)"
proof -
  let ?ms = "filter (prefix pre) ids"
  have set: "{k \<in> set ids. prefix pre k} = set ?ms" by auto
  have two: "(\<exists>i j. i \<in> set ids \<and> j \<in> set ids \<and> i \<noteq> j \<and> prefix pre i \<and> prefix pre j) \<longleftrightarrow>
      (\<exists>i \<in> set ?ms. \<exists>j \<in> set ?ms. i \<noteq> j)" by auto
  have d: "distinct ?ms" and ne: "[] \<notin> set ?ms" using assms by auto
  note eq = match_prefix_filter [OF assms(2), of pre]
  have "(match_prefix pre ids [] = Some i \<and> i \<noteq> [] \<longleftrightarrow> set ?ms = {i}) \<and>
      (match_prefix pre ids [] = Some [] \<longleftrightarrow> set ?ms = {}) \<and>
      (match_prefix pre ids [] = None \<longleftrightarrow> (\<exists>i \<in> set ?ms. \<exists>j \<in> set ?ms. i \<noteq> j))"
    using d ne unfolding eq by (cases ?ms rule: remdups_adj.cases) (simp_all, blast+)
  then show "match_prefix pre ids [] = Some i \<and> i \<noteq> [] \<longleftrightarrow> {k \<in> set ids. prefix pre k} = {i}"
    "match_prefix pre ids [] = Some [] \<longleftrightarrow> {k \<in> set ids. prefix pre k} = {}"
    "match_prefix pre ids [] = None \<longleftrightarrow> (\<exists>i j. i \<in> set ids \<and> j \<in> set ids \<and> i \<noteq> j \<and> prefix pre i \<and> prefix pre j)"
    unfolding set two by blast+
qed

section \<open>Properties\<close>

text \<open>
  C13: The interface over the node. Whatever is typed, received or resized, and however the node runs in the
  background, a run of the user interface changes the node only by a sequence of the node's own steps, so a
  node that was reachable stays reachable (and everything shown of reachable states holds under the
  interface).
\<close>

theorem ui_refines_node:
  assumes "(ui_step L)\<^sup>*\<^sup>* st st'"
  shows "(node_step L)\<^sup>*\<^sup>* (tu_Wb (snd st)) (tu_Wb (snd st')) \<and>
    (\<forall>s. reachable L s (tu_Wb (snd st)) \<longrightarrow> reachable L s (tu_Wb (snd st')))"
proof -
  have run: "(node_step L)\<^sup>*\<^sup>* (tu_Wb (snd st)) (tu_Wb (snd st'))"
    using ui_run_via [OF assms] by (simp add: via_node_def)
  then show ?thesis unfolding reachable_def by (meson rtranclp_trans)
qed

text \<open>
  C15: An ambiguous invitation deafens the interface. When two pending invitations have ids with the given
  prefix, \<open>/accept\<close> reports it and returns, but keeps the pending invites locked; in every run from there,
  \<open>/accept\<close> with an argument and \<open>/list\<close> never return.
\<close>

theorem ambiguous_accept_blocks:
  assumes "i \<in> set (map_keys (wb_PendingInvites (tu_Wb tu)))" and "j \<in> set (map_keys (wb_PendingInvites (tu_Wb tu)))"
    and "i \<noteq> j" and "prefix pre i" and "prefix pre j"
    and "distinct (map_keys (wb_PendingInvites (tu_Wb tu)))" and "[] \<notin> set (map_keys (wb_PendingInvites (tu_Wb tu)))"
    and "\<forall>ks. mset (l_keys L ks) = mset ks" and "\<not> tu_InvitesHeld tu"
  shows "\<exists>tu'. handleAccept L E [''/accept'', pre] tu = Ret tu' \<and>
    (\<forall>il st. (ui_step L)\<^sup>*\<^sup>* (il, tu') st \<longrightarrow>
      (\<forall>E toks. 2 \<le> length toks \<longrightarrow> handleAccept L E toks (snd st) = Panic) \<and>
      (\<forall>E. handleList L E [''/list''] (snd st) = Panic))"
proof -
  let ?ks = "l_keys L (map_keys (wb_PendingInvites (tu_Wb tu)))"
  have ks: "mset ?ks = mset (map_keys (wb_PendingInvites (tu_Wb tu)))" using assms(8) by simp
  have set: "set ?ks = set (map_keys (wb_PendingInvites (tu_Wb tu)))" by (rule mset_eq_setD [OF ks])
  have "distinct ?ks" using mset_eq_imp_distinct_iff [OF ks] assms(6) by simp
  then have "match_prefix pre ?ks [] = None"
    using match_prefix_unique(3) [of ?ks pre] set assms(1-5,7) by blast
  then have acc: "handleAccept L E [''/accept'', pre] tu =
      Ret ((ui_setStatus (''error multiple invites found for '' @ pre) tu)\<lparr>tu_InvitesHeld := True\<rparr>)"
    using assms(9) by (simp add: handleAccept_def)
  have held: "tu_InvitesHeld (snd st)" if "(ui_step L)\<^sup>*\<^sup>* (il, t\<lparr>tu_InvitesHeld := True\<rparr>) st" for il t st
    using ui_run_via [OF that] by (simp add: via_node_def)
  have acc_blocks: "handleAccept L E toks t = Panic" if "tu_InvitesHeld t" "2 \<le> length toks" for E toks t
    using that by (simp add: handleAccept_def)
  have frame: "tu_InvitesHeld t'" if "via_node L t t'" "tu_InvitesHeld t" for t t'
    using that by (simp add: via_node_def)
  have list_blocks: "handleList L E [''/list''] t = Panic" if "tu_InvitesHeld t" for E t
  proof (rule ccontr)
    assume "handleList L E [''/list''] t \<noteq> Panic"
    then obtain t1 t2 t3 where "ui_chatStatus E ''      ==== PARTY LIST ====      '' t = Ret t1"
        "(if wb_Parties (tu_Wb t1) \<noteq> [] then ui_chatLines E (party_ids L t1) t1
          else ui_chatStatus E ''           no parties           '' t1) = Ret t2"
        "ui_chatStatus E ''  ==== ACCEPTANCE PENDING ====  '' t2 = Ret t3" "\<not> tu_InvitesHeld t3"
      unfolding handleList_def Let_def by (auto simp: bind_eq_None_conv split: if_splits)
    moreover from this(1-3) have "via_node L t t1" "via_node L t1 t2" "via_node L t2 t3"
      by (auto dest: via split: if_splits)
    ultimately show False using frame that by blast
  qed
  show ?thesis using acc held acc_blocks list_blocks by blast
qed

section \<open>Witnesses\<close>

theorem ui_refines_node_witness:
  "\<forall>L. \<exists>st :: InputLine \<times> Tui. reachable (chat_lib L) (SetBytes key_k) (tu_Wb (snd st)) \<and> length (mainline (tu_Wb (snd st))) = 1 \<and>
    tu_Status (snd st) = [''hello'']"
proof
  fix L :: lib
  obtain wb0 where wb0: "started (SetBytes key_k) wb0" using started_k by blast
  from chat_received [OF wb0] obtain wb where wb: "node_step (chat_lib L) wb0 wb" "length (mainline wb) = 1" by blast
  let ?il = "\<lparr>il_Buf = [], il_Text = []\<rparr>" and ?tu = "(init_ui wb0)\<lparr>tu_Wb := wb\<rparr>"
  have "ui_step (chat_lib L) (?il, init_ui wb0) (?il, ?tu)"
    by (rule ui_step.background) (simp add: init_ui_def wb(1))
  moreover have "ui_step (chat_lib L) (?il, ?tu) (?il, ui_setStatus ''hello'' ?tu)"
    by (rule ui_step.status [where priority = TONE_LOW and message = "''hello''"]) (simp add: statusReceiver_def)
  ultimately have "(ui_step (chat_lib L))\<^sup>*\<^sup>* (?il, init_ui wb0) (?il, ui_setStatus ''hello'' ?tu)" by simp
  from ui_refines_node [OF this] have "reachable (chat_lib L) (SetBytes key_k) (tu_Wb (ui_setStatus ''hello'' ?tu))"
    using wb0 by (auto simp: reachable_def init_ui_def)
  with wb(2) show "\<exists>st :: InputLine \<times> Tui. reachable (chat_lib L) (SetBytes key_k) (tu_Wb (snd st)) \<and> length (mainline (tu_Wb (snd st))) = 1 \<and>
      tu_Status (snd st) = [''hello'']"
    by - (rule exI [of _ "(?il, ui_setStatus ''hello'' ?tu)"], simp add: ui_setStatus_def init_ui_def)
qed

theorem ambiguous_accept_blocks_witness:
  "\<forall>L E. \<exists>tu'. handleAccept (L\<lparr>l_keys := \<lambda>ks. ks\<rparr>) E [''/accept'', ''a'']
      (init_ui (zero_wb\<lparr>wb_PendingInvites := [(''aa'', party_k), (''ab'', party_k)]\<rparr>)) = Ret tu' \<and>
    handleAccept (L\<lparr>l_keys := \<lambda>ks. ks\<rparr>) E [''/accept'', ''aa''] tu' = Panic"
proof (intro allI)
  fix L :: lib and E
  let ?L = "L\<lparr>l_keys := \<lambda>ks. ks\<rparr>"
  let ?tu = "init_ui (zero_wb\<lparr>wb_PendingInvites := [(''aa'', party_k), (''ab'', party_k)]\<rparr>)"
  from ambiguous_accept_blocks [of "''aa''" ?tu "''ab''" "''a''" ?L E] obtain tu' where
    t: "handleAccept ?L E [''/accept'', ''a''] ?tu = Ret tu'"
      "\<And>il st. (ui_step ?L)\<^sup>*\<^sup>* (il, tu') st \<Longrightarrow> \<forall>E toks. 2 \<le> length toks \<longrightarrow> handleAccept ?L E toks (snd st) = Panic"
    by (auto simp: init_ui_def)
  from t(2) [OF rtranclp.rtrancl_refl] have "handleAccept ?L E [''/accept'', ''aa''] tu' = Panic" by simp
  with t(1) show "\<exists>tu'. handleAccept ?L E [''/accept'', ''a''] ?tu = Ret tu' \<and>
    handleAccept ?L E [''/accept'', ''aa''] tu' = Panic" by blast
qed

end
