(* ===== verification/TuiLayout.thy ===== *)
theory TuiLayout
  imports Tui
begin

text \<open>
  The layout of the chat log: the lines that fit the message box are the last ones of the log, with nothing
  lost in between, and when the layout panics.
\<close>

text \<open>What the log says in full: the lines of the chats shown, each but the last of the log ended by a newline.\<close>

definition is_shown :: "string \<Rightarrow> Chat \<Rightarrow> bool" where
  "is_shown shown chat \<longleftrightarrow> shown = [] \<or> ch_Channel chat = [] \<or> shown = ch_Channel chat"

definition pad_id :: "int \<Rightarrow> string \<Rightarrow> string" where
  "pad_id IDS i = (if IDS \<le> int (length i) then take (nat IDS) i else repeat (nat (IDS - int (length i))) '' '' @ i)"

definition full_line :: "ui_env \<Rightarrow> int \<Rightarrow> bool \<Rightarrow> Chat \<Rightarrow> string" where
  "full_line E IDS isLast chat =
     (let msg = ue_clock E (ch_Time chat) @ ''('' @ displayChannel (ch_Channel chat) @ '') '' @
            pad_id IDS (ch_Id chat) @ '' '' @ ch_Message chat
      in if \<not> isLast \<and> last msg \<noteq> CHR ''\<newline>'' then msg @ ''\<newline>'' else msg)"

fun log_text :: "ui_env \<Rightarrow> int \<Rightarrow> string \<Rightarrow> Chat list \<Rightarrow> string" where
  "log_text E IDS shown [] = []"
| "log_text E IDS shown (chat # chats) =
     (if is_shown shown chat then full_line E IDS (chats = []) chat else []) @ log_text E IDS shown chats"

lemma displayId_total: "displayId IDS i = (if IDS < 0 then Panic else Ret (pad_id IDS i))"
  by (simp add: displayId_def pad_id_def Let_def)

lemma chat_line_total: "chat_line E IDS chat = (if IDS < 0 then Panic else
    Ret (ue_clock E (ch_Time chat) @ ''('' @ displayChannel (ch_Channel chat) @ '') '' @
            pad_id IDS (ch_Id chat) @ '' '' @ ch_Message chat))"
  by (simp add: chat_line_def displayId_total)

lemma int_div_mult_le: "0 < w \<Longrightarrow> (x :: int) div w * w \<le> x"
  using pos_mod_sign [of w x] minus_mod_eq_div_mult [of x w] by linarith

text \<open>
  A line that cannot be laid out in \<open>width\<close> columns: the id size is negative, the width is zero (a
  division by zero), or the columns counted for the line, rounded down to whole rows, are more than its bytes.
\<close>

definition line_panics :: "ui_env \<Rightarrow> int \<Rightarrow> int \<Rightarrow> bool \<Rightarrow> Chat \<Rightarrow> bool" where
  "line_panics E IDS width isLast chat \<longleftrightarrow> IDS < 0 \<or> width = 0 \<or> 0 < width \<and>
     int (length (full_line E IDS isLast chat)) < int (ue_width E (full_line E IDS isLast chat)) div width * width"

lemma cut_lines_cases:
  assumes "0 < width"
  shows "if int (length msg) < int n * width then cut_lines n width msg lines = Panic
    else \<exists>cuts rest. cut_lines n width msg lines = Ret (lines @ cuts, rest) \<and> concat cuts @ rest = msg"
proof (induction n arbitrary: msg lines)
  case (Suc n)
  have split: "int (Suc n) * width = int n * width + width" by (simp add: algebra_simps)
  have nn: "0 \<le> int n * width" using assms by simp
  show ?case
  proof (cases "width \<le> int (length msg)")
    case False
    with nn have "int (length msg) < int (Suc n) * width" unfolding split by linarith
    with False show ?thesis by simp
  next
    case True
    then have "int (length (drop (nat width) msg)) = int (length msg) - width" using assms by (simp add: of_nat_diff)
    then have iff: "int (length (drop (nat width) msg)) < int n * width \<longleftrightarrow> int (length msg) < int (Suc n) * width"
      unfolding split by linarith
    have step: "cut_lines (Suc n) width msg lines =
        cut_lines n width (drop (nat width) msg) (lines @ [take (nat width) msg])"
      using True assms by simp
    show ?thesis
    proof (cases "int (length msg) < int (Suc n) * width")
      case True
      with Suc.IH [of "drop (nat width) msg" "lines @ [take (nat width) msg]"] iff step show ?thesis by simp
    next
      case no: False
      with Suc.IH [of "drop (nat width) msg" "lines @ [take (nat width) msg]"] iff obtain cuts rest where
        c: "cut_lines n width (drop (nat width) msg) (lines @ [take (nat width) msg]) =
            Ret ((lines @ [take (nat width) msg]) @ cuts, rest)" "concat cuts @ rest = drop (nat width) msg"
        by auto
      have "concat (take (nat width) msg # cuts) @ rest = msg" using c(2) by simp
      with no step c(1) show ?thesis
        by (simp only: if_False) (intro exI [of _ "take (nat width) msg # cuts"] exI [of _ rest]; simp)
    qed
  qed
qed simp

lemma fit_chats_shown:
  assumes "is_shown shown chat" and "0 \<le> IDS" and "width \<noteq> 0"
  shows "fit_chats E IDS shown width (chat # chats) lines = do {
     (lines, msg) \<leftarrow> cut_lines (nat (int (ue_width E (full_line E IDS (chats = []) chat)) sdiv width)) width
       (full_line E IDS (chats = []) chat) lines;
     fit_chats E IDS shown width chats (if msg = [] then lines else lines @ [msg]) }"
proof -
  have "\<not> (shown \<noteq> [] \<and> ch_Channel chat \<noteq> [] \<and> shown \<noteq> ch_Channel chat)" using assms(1) by (auto simp: is_shown_def)
  then show ?thesis using assms(2,3)
    by (simp only: fit_chats.simps if_False chat_line_total not_less [symmetric] bind.bind_lunit full_line_def Let_def not_not simp_thms)
qed

text \<open>One shown chat: the lines cut from it, or a panic; in a box of negative width it stays in one piece.\<close>

lemma cut_shown:
  assumes "0 \<le> IDS" and "width \<noteq> 0"
  shows "let msg = full_line E IDS isLast chat; r = cut_lines (nat (int (ue_width E msg) sdiv width)) width msg lines in
    if line_panics E IDS width isLast chat then r = Panic
    else \<exists>cuts rest. r = Ret (lines @ cuts, rest) \<and> concat cuts @ rest = msg"
proof (cases "0 < width")
  case True
  then have "int (nat (int x sdiv width)) = int x div width" for x
    by (simp add: signed_divide_int_def sgn_if pos_imp_zdiv_nonneg_iff)
  with cut_lines_cases [OF True, of "full_line E IDS isLast chat"
      "nat (int (ue_width E (full_line E IDS isLast chat)) sdiv width)" lines] assms True
  show ?thesis by (simp add: line_panics_def Let_def)
next
  case False
  then have "int x sdiv width \<le> 0" for x
    using assms(2) by (auto simp: signed_divide_int_def sgn_if pos_imp_zdiv_nonneg_iff)
  then have "nat (int x sdiv width) = 0" for x by simp
  with False assms show ?thesis by (simp add: line_panics_def Let_def)
qed

lemma fit_chats_panics:
  assumes "is_shown shown chat" and "line_panics E IDS width (chats = []) chat"
  shows "fit_chats E IDS shown width (chat # chats) lines = Panic"
proof (cases "0 \<le> IDS \<and> width \<noteq> 0")
  case True
  with cut_shown [of IDS width E "chats = []" chat lines] fit_chats_shown [OF assms(1), of IDS width] assms(2)
  show ?thesis by (simp add: Let_def)
next
  case False
  then show ?thesis using assms(1) by (auto simp: is_shown_def chat_line_total Let_def)
qed

lemma split_Cons_iff:
  "(\<exists>before x after. y # ys = before @ x # after \<and> P x after) \<longleftrightarrow>
    P y ys \<or> (\<exists>before x after. ys = before @ x # after \<and> P x after)"
  by (auto simp: Cons_eq_append_conv intro: exI [of _ "[]"])

text \<open>All shown chats are laid out in order and without loss, unless a line cannot be laid out.\<close>

lemma fit_chats_cases:
  "if \<exists>before chat after. chats = before @ chat # after \<and> is_shown shown chat \<and> line_panics E IDS width (after = []) chat
   then fit_chats E IDS shown width chats lines = Panic
   else \<exists>more. fit_chats E IDS shown width chats lines = Ret (lines @ more) \<and> concat more = log_text E IDS shown chats"
proof (induction chats arbitrary: lines)
  case (Cons chat chats)
  note iff = split_Cons_iff [of chat chats "\<lambda>c a. is_shown shown c \<and> line_panics E IDS width (a = []) c"]
  show ?case
  proof (cases "is_shown shown chat")
    case False
    then have "fit_chats E IDS shown width (chat # chats) lines = fit_chats E IDS shown width chats lines"
      by (simp add: is_shown_def)
    with False Cons.IH [of lines] show ?thesis unfolding iff by simp
  next
    case True
    show ?thesis
    proof (cases "line_panics E IDS width (chats = []) chat")
      case bad: True
      with fit_chats_panics [OF True bad] True show ?thesis unfolding iff by simp
    next
      case False
      then have ok: "0 \<le> IDS" "width \<noteq> 0" by (auto simp: line_panics_def)
      let ?msg = "full_line E IDS (chats = []) chat"
      obtain cuts rest where c: "cut_lines (nat (int (ue_width E ?msg) sdiv width)) width ?msg lines = Ret (lines @ cuts, rest)"
          "concat cuts @ rest = ?msg"
        using cut_shown [OF ok, of E "chats = []" chat lines] False by (auto simp: Let_def)
      define lines' where "lines' = lines @ cuts @ (if rest = [] then [] else [rest])"
      have step: "fit_chats E IDS shown width (chat # chats) lines = fit_chats E IDS shown width chats lines'"
        unfolding fit_chats_shown [OF True ok] c(1) by (simp add: lines'_def)
      have log: "log_text E IDS shown (chat # chats) = concat (cuts @ (if rest = [] then [] else [rest])) @ log_text E IDS shown chats"
        using True c(2) by (auto simp flip: c(2))
      show ?thesis
      proof (cases "\<exists>before c after. chats = before @ c # after \<and> is_shown shown c \<and> line_panics E IDS width (after = []) c")
        case True
        with Cons.IH [of lines'] step show ?thesis unfolding iff by simp
      next
        case none: False
        with Cons.IH [of lines'] obtain more where m: "fit_chats E IDS shown width chats lines' = Ret (lines' @ more)"
            "concat more = log_text E IDS shown chats" by auto
        have "fit_chats E IDS shown width (chat # chats) lines = Ret (lines @ ((cuts @ (if rest = [] then [] else [rest])) @ more))"
          unfolding step m(1) by (simp add: lines'_def)
        moreover have "concat ((cuts @ (if rest = [] then [] else [rest])) @ more) = log_text E IDS shown (chat # chats)"
          unfolding log concat_append m(2) by simp
        ultimately show ?thesis using False none unfolding iff by auto
      qed
    qed
  qed
qed simp

lemma concat_drop: "concat ls = concat (take n ls) @ concat (drop n ls)"
  by (metis append_take_drop_id concat_append)

text \<open>
  C16: Layout of the chat log. In a box of any size, and whatever \<open>StringWidth\<close> counts, \<open>formatChatsFit\<close> panics exactly
  if the box has less than two rows, or some chat is to be shown and the id size is negative (a size that
  \<open>/ids\<close> accepts), the box is two columns wide, or more full rows are counted for the chat's line than it has
  bytes for. Otherwise the text is the end of the log of all shown chats, made of at most as many lines
  as the box has inside, and the whole log unless these are full.
\<close>

theorem format_chats_fit_spec:
  shows "(formatChatsFit E (height, width) tu = Panic \<longleftrightarrow>
      height < 2 \<or> (\<exists>before chat after. tu_ChatLog tu = before @ chat # after \<and> is_shown (tu_Show tu) chat \<and>
        (let line = full_line E (tu_IDS tu) (after = []) chat in
          tu_IDS tu < 0 \<or> width = 2 \<or>
          2 < width \<and> int (length line) < int (ue_width E line) div (width - 2) * (width - 2)))) \<and>
    (\<forall>text. formatChatsFit E (height, width) tu = Ret text \<longrightarrow>
      (\<exists>above kept. log_text E (tu_IDS tu) (tu_Show tu) (tu_ChatLog tu) = above @ text \<and> text = concat kept \<and>
         int (length kept) \<le> height - 2 \<and> (above = [] \<or> int (length kept) = height - 2)))"
proof -
  let ?log = "log_text E (tu_IDS tu) (tu_Show tu) (tu_ChatLog tu)"
  have lp: "(let line = full_line E (tu_IDS tu) l chat in tu_IDS tu < 0 \<or> width = 2 \<or>
      2 < width \<and> int (length line) < int (ue_width E line) div (width - 2) * (width - 2)) \<longleftrightarrow>
      line_panics E (tu_IDS tu) (width - 2) l chat" for l chat
    by (auto simp: line_panics_def Let_def)
  note cases = fit_chats_cases [of "tu_ChatLog tu" "tu_Show tu" E "tu_IDS tu" "width - 2" "[]"]
  show ?thesis
  proof (cases "\<exists>before chat after. tu_ChatLog tu = before @ chat # after \<and> is_shown (tu_Show tu) chat \<and>
      line_panics E (tu_IDS tu) (width - 2) (after = []) chat")
    case True
    with cases have "formatChatsFit E (height, width) tu = Panic" by (simp add: formatChatsFit_def)
    with True show ?thesis unfolding lp by simp
  next
    case False
    with cases obtain ls where ls: "fit_chats E (tu_IDS tu) (tu_Show tu) (width - 2) (tu_ChatLog tu) [] = Ret ls"
        "concat ls = ?log" by auto
    define start where "start = max 0 (int (length ls) - (height - 2))"
    have eq: "formatChatsFit E (height, width) tu =
        (if int (length ls) < start then Panic else Ret (concat (drop (nat start) ls)))"
      unfolding formatChatsFit_def Let_def fst_conv snd_conv ls(1) bind.bind_lunit start_def by (rule refl)
    have small: "int (length ls) < start \<longleftrightarrow> height < 2" unfolding start_def by linarith
    have "\<exists>above kept. ?log = above @ s \<and> s = concat kept \<and> int (length kept) \<le> height - 2 \<and>
        (above = [] \<or> int (length kept) = height - 2)" if t: "formatChatsFit E (height, width) tu = Ret s" for s
    proof -
      have h: "2 \<le> height" and s: "s = concat (drop (nat start) ls)"
        using t by (auto simp: eq small split: if_splits)
      have len: "int (length (drop (nat start) ls)) \<le> height - 2"
          "start = 0 \<or> int (length (drop (nat start) ls)) = height - 2"
        using h by (auto simp: start_def)
      then show ?thesis
        using concat_drop [of ls "nat start"] s
        by (intro exI [of _ "concat (take (nat start) ls)"] exI [of _ "drop (nat start) ls"]) (auto simp: ls(2) [symmetric])
    qed
    with False show ?thesis unfolding lp by (simp add: eq small)
  qed
qed

text \<open>A log of one chat in boxes of 30, 2 and 1 columns, and with a negative id size.\<close>

definition one_chat :: "WhiteBox \<Rightarrow> Tui" where
  "one_chat wb = (init_ui wb)\<lparr>tu_ChatLog := [\<lparr>ch_Time = 0, ch_Id = ''SYSTEM'', ch_Channel = [], ch_Message = ''hi''\<rparr>]\<rparr>"

theorem format_chats_fit_spec_witness:
  "\<forall>E wb. formatChatsFit (E\<lparr>ue_width := length\<rparr>) (3, 30) ((one_chat wb)\<lparr>tu_IDS := - 1\<rparr>) = Panic \<and>
    formatChatsFit (E\<lparr>ue_width := length\<rparr>) (3, 2) (one_chat wb) = Panic \<and>
    formatChatsFit (E\<lparr>ue_width := length\<rparr>) (3, 1) (one_chat wb) \<noteq> Panic \<and>
    formatChatsFit (E\<lparr>ue_width := length\<rparr>) (3, 30) (one_chat wb) \<noteq> Panic"
  by (simp add: format_chats_fit_spec one_chat_def init_ui_def is_shown_def Cons_eq_append_conv Let_def not_less int_div_mult_le)

end
