(* ===== verification/Startup.thy ===== *)
theory Startup
  imports Reach
begin

text \<open>
  Starting the program (\<open>party-line.go\<close>), finding its external address (\<open>nat.go\<close>) and receiving datagrams
  (\<open>Recv\<close> of \<open>white-box/white-box.go\<close>). \<open>None\<close> is also \<open>log.Fatal\<close>. What the operating system and the
  UPnP and NAT-PMP libraries answer are parameters (\<open>perm_env\<close>, \<open>nat_env\<close>).
\<close>

section \<open>The permanent identity\<close>

datatype stat_result = StatOk | StatNotExist | StatErr

record perm_env =
  pm_home :: "string option"
  pm_mkdir :: bool
  pm_stat :: stat_result
  pm_open :: bool
  pm_write :: bool
  pm_close :: bool
  pm_read :: bool
  pm_ofSelf :: "Self \<Rightarrow> string option"
  pm_toSelf :: "string \<Rightarrow> Self \<Rightarrow> Self option"

definition perm_path :: "string \<Rightarrow> string" where
  "perm_path home = Join (Join home ''party-line'') ''perm.self''"

text \<open>\<open>pathExists\<close>: the answer and whether there is an error.\<close>

definition pathExists :: "stat_result \<Rightarrow> bool \<times> bool" where
  "pathExists r = (case r of StatOk \<Rightarrow> (True, False) | StatNotExist \<Rightarrow> (False, False) | StatErr \<Rightarrow> (True, True))"

text \<open>\<open>savePerm\<close> opens the file without truncating it, so an older, longer content keeps its tail.\<close>

definition savePerm :: "perm_env \<Rightarrow> Self \<Rightarrow> disk \<Rightarrow> disk go" where
  "savePerm P self dsk = do {
     home \<leftarrow> pm_home P;
     if \<not> pm_mkdir P then Panic
     else do {
       jsonSelf \<leftarrow> pm_ofSelf P self;
       let path = perm_path home;
       if \<not> pm_open P \<or> \<not> pm_write P \<or> \<not> pm_close P then Panic
       else Ret (dsk(path \<mapsto> write_at 0 jsonSelf (case dsk path of None \<Rightarrow> [] | Some old \<Rightarrow> old))) } }"

definition fetchPerm :: "perm_env \<Rightarrow> Self \<Rightarrow> disk \<Rightarrow> Self go" where
  "fetchPerm P self dsk = do {
     home \<leftarrow> pm_home P;
     let path = perm_path home;
     let (exists, err) = pathExists (if dsk path = None \<and> pm_stat P = StatOk then StatNotExist else pm_stat P);
     if err then Panic
     else if \<not> exists then Ret self
     else if \<not> pm_open P then Panic
     else do {
       contents \<leftarrow> dsk path;
       if \<not> pm_read P then Panic
       else pm_toSelf P contents self } }"

text \<open>The part of \<open>main\<close> that makes the node; \<open>extIP\<close> is the printed external address.\<close>

definition zero_self :: Self where
  "zero_self = \<lparr>se_EncPub = None, se_EncPrv = None, se_SignPub = None, se_SignPrv = None, se_Address = []\<rparr>"

definition main_node :: "bool \<Rightarrow> perm_env \<Rightarrow> string option \<Rightarrow> (string \<Rightarrow> bool) \<Rightarrow> (bytes \<times> bytes \<times> bytes \<times> bytes) option \<Rightarrow>
    string \<Rightarrow> string \<Rightarrow> string \<Rightarrow> disk \<Rightarrow> (WhiteBox \<times> disk) go" where
  "main_node permFlag P home mkdir fresh dir extIP portStr dsk = do {
     self \<leftarrow> (if permFlag then fetchPerm P zero_self dsk else Ret zero_self);
     wb \<leftarrow> New home mkdir fresh dir extIP portStr self;
     dsk \<leftarrow> (if permFlag then savePerm P (wb_Self wb) dsk else Ret dsk);
     Ret (wb, dsk) }"

definition permParties :: "string list" where
  "permParties = [''138.197.201.244:3499'', ''3ce244e4426fd2cb1c41c5954c879ce0a3c19bf1452fb66be84de03825bc6f30'']"

definition bsInASecond :: "lib \<Rightarrow> int \<Rightarrow> WhiteBox \<Rightarrow> WhiteBox go" where
  "bsInASecond L now wb = do {
     selfId \<leftarrow> Peer_Id (wb_PeerSelf wb);
     (front, wb) \<leftarrow> IdFront L selfId wb;
     if front = None \<or> front = Some (permParties ! 1) then Ret wb
     else SendBootstrap L (now + 10 ^ 9) (permParties ! 0) (permParties ! 1) wb }"

section \<open>Addresses and port mappings\<close>

type_synonym ip = "8 word list"

text \<open>\<open>net.IP.To4\<close>, \<open>net.CIDRMask\<close> and \<open>net.IPNet.Contains\<close>.\<close>

definition To4 :: "ip \<Rightarrow> ip option" where
  "To4 a = (if length a = 4 then Some a
     else if length a = 16 \<and> take 12 a = replicate 10 0 @ [255, 255] then Some (drop 12 a) else None)"

fun CIDRMask :: "nat \<Rightarrow> nat \<Rightarrow> ip" where
  "CIDRMask ones 0 = []"
| "CIDRMask ones (Suc n) =
     (if 8 \<le> ones then 255 # CIDRMask (ones - 8) n else NOT (mask (8 - ones)) # CIDRMask 0 n)"

definition Contains :: "ip \<times> nat \<Rightarrow> ip \<Rightarrow> bool" where
  "Contains block a = (case block of (net, ones) \<Rightarrow>
     let a = (case To4 a of None \<Rightarrow> a | Some x \<Rightarrow> x); m = CIDRMask ones (length net) in
     length a = length net \<and> list_all (\<lambda>i. net ! i AND m ! i = a ! i AND m ! i) [0..<length net])"

definition privateIPBlocks :: "(ip \<times> nat) list" where
  "privateIPBlocks =
     [([127, 0, 0, 0], 8), ([10, 0, 0, 0], 8), ([172, 16, 0, 0], 12), ([192, 168, 0, 0], 16),
      (replicate 15 0 @ [1], 128), (254 # 128 # replicate 14 0, 10)]"

definition isPrivateIP :: "ip \<Rightarrow> bool" where
  "isPrivateIP a = list_ex (\<lambda>block. Contains block a) privateIPBlocks"

text \<open>
  The answers of the network: the address of the outbound connection, the UPnP client (discovery, external
  address, forwarding), the NAT-PMP client, and whether NAT-PMP answers within 30 seconds.
\<close>

record nat_env =
  na_outbound :: "ip option"
  na_upnpDiscover :: bool
  na_upnpExternalIP :: "ip option"
  na_upnpOpen :: bool
  na_pmpDiscover :: bool
  na_pmpExternalIP :: "ip option"
  na_pmpOpen :: bool
  na_pmpInTime :: bool

text \<open>
  \<open>tryNatPMP\<close> up to the first send on the channel, which is all that \<open>natStuff\<close> reads: after an error the
  function goes on, but the process is then about to exit.
\<close>

definition tryNatPMP :: "nat_env \<Rightarrow> bool \<times> ip option" where
  "tryNatPMP N =
     (if \<not> na_pmpDiscover N then (False, None)
      else case na_pmpExternalIP N of
        None \<Rightarrow> (False, None)
      | Some a \<Rightarrow> (na_pmpOpen N, Some a))"

record nat_state =
  ns_extIP :: ip
  ns_closeUpnp :: bool
  ns_closePmp :: bool

definition natStuff :: "nat_env \<Rightarrow> nat_state go" where
  "natStuff N = do {
     a \<leftarrow> na_outbound N;
     if \<not> isPrivateIP a then Ret \<lparr>ns_extIP = a, ns_closeUpnp = False, ns_closePmp = False\<rparr>
     else
       let upnp = (if \<not> na_upnpDiscover N then None
             else case na_upnpExternalIP N of
               None \<Rightarrow> None
             | Some e \<Rightarrow> if na_upnpOpen N then Some e else None)
       in case upnp of
         Some e \<Rightarrow> Ret \<lparr>ns_extIP = e, ns_closeUpnp = True, ns_closePmp = False\<rparr>
       | None \<Rightarrow>
           if \<not> na_pmpInTime N then Panic
           else case tryNatPMP N of
             (True, Some e) \<Rightarrow> Ret \<lparr>ns_extIP = e, ns_closeUpnp = False, ns_closePmp = True\<rparr>
           | _ \<Rightarrow> Panic }"

text \<open>\<open>natCleanup\<close>: the mapping that is removed.\<close>

datatype mapping = UpnpMapping | PmpMapping

definition natCleanup :: "nat_state \<Rightarrow> mapping option" where
  "natCleanup s = (if ns_closeUpnp s then Some UpnpMapping else if ns_closePmp s then Some PmpMapping else None)"

text \<open>
  The flags of \<open>main\<close>: the port is cut to 16 bits, and without NAT traversal the address has to be given
  (\<open>parseIP\<close> is \<open>net.ParseIP\<close>, nil as the empty address).
\<close>

definition main_port :: "nat \<Rightarrow> 16 word" where
  "main_port portFlag = of_nat portFlag"

definition main_extIP :: "bool \<Rightarrow> string \<Rightarrow> (string \<Rightarrow> ip) \<Rightarrow> nat_env \<Rightarrow> (ip \<times> mapping option) go" where
  "main_extIP nonatFlag ipFlag parseIP N =
     (if nonatFlag then (if ipFlag = [] then Panic else Ret (parseIP ipFlag, None))
      else do { s \<leftarrow> natStuff N; Ret (ns_extIP s, natCleanup s) })"

section \<open>Receiving\<close>

text \<open>
  \<open>Recv\<close> reads lines from a buffer over the socket: what arrived after the last newline stays in the
  buffer, and the next datagram is appended to it. A read error hands over the incomplete line.
\<close>

datatype arrival = Datagram string | ReadError

fun recv_bytes :: "lib \<Rightarrow> int \<Rightarrow> string \<Rightarrow> string \<Rightarrow> WhiteBox \<Rightarrow> (string \<times> WhiteBox) go" where
  "recv_bytes L now pending [] wb = Ret (pending, wb)"
| "recv_bytes L now pending (c # cs) wb =
     (if c = char_of (10 :: nat)
      then do { wb \<leftarrow> processMessage L now (pending @ [c]) wb; recv_bytes L now [] cs wb }
      else recv_bytes L now (pending @ [c]) cs wb)"

definition recv_one :: "lib \<Rightarrow> int \<times> arrival \<Rightarrow> string \<times> WhiteBox \<Rightarrow> (string \<times> WhiteBox) go" where
  "recv_one L x st = (case x of (now, a) \<Rightarrow> (case st of (pending, wb) \<Rightarrow> (case a of
     Datagram d \<Rightarrow> recv_bytes L now pending d wb
   | ReadError \<Rightarrow> do { wb \<leftarrow> processMessage L now pending (setStatus ''error reading'' wb); Ret ([], wb) })))"

definition Recv :: "lib \<Rightarrow> (int \<times> arrival) list \<Rightarrow> WhiteBox \<Rightarrow> (string \<times> WhiteBox) go" where
  "Recv L arrivals wb = ofold (recv_one L) arrivals ([], wb)"

end
