(* ===== verification/StartupFacts.thy ===== *)
theory StartupFacts
  imports Startup
begin

text \<open>
  What starting up guarantees: the permanent identity over restarts, which addresses count as private, and
  how datagrams are cut into messages.
\<close>

section \<open>Private addresses\<close>

lemma byte_all: "list_all (\<lambda>n. P (of_nat n)) [0..<256] \<Longrightarrow> P (x :: 8 word)"
  using unsigned_less [of x] by (auto simp: list_all_iff dest!: bspec [where x = "unat x"])

lemma byte_172: "(x :: 8 word) AND 240 = 16 \<longleftrightarrow> 16 \<le> x \<and> x \<le> 31"
  by (rule byte_all) code_simp

lemma byte_fe80: "(x :: 8 word) AND 192 = 128 \<longleftrightarrow> 128 \<le> x \<and> x < 192"
  by (rule byte_all) code_simp

lemma masks: "CIDRMask 8 4 = [255, 0, 0, 0]" "CIDRMask 12 4 = [255, 240, 0, 0]" "CIDRMask 16 4 = [255, 255, 0, 0]"
    "CIDRMask 128 16 = replicate 16 255" "CIDRMask 10 16 = 255 # 192 # replicate 14 0"
  by code_simp+

lemma and_255 [simp]: "(x :: 8 word) AND 255 = x" "255 AND (x :: 8 word) = x"
  by (rule byte_all, code_simp)+

lemma list_4: "list_all P [0..<4] \<longleftrightarrow> P 0 \<and> P 1 \<and> P 2 \<and> P (3 :: nat)"
  by (simp add: numeral_eq_Suc)

lemma private_v4: "isPrivateIP [w, x, y, z] \<longleftrightarrow>
    w = 127 \<or> w = 10 \<or> w = 172 \<and> 16 \<le> x \<and> x \<le> 31 \<or> w = 192 \<and> x = 168"
proof -
  have v6: "\<not> Contains (net, k) [w, x, y, z]" if "length net = 16" for net k
    using that by (simp add: Contains_def To4_def)
  have len: "length [a, b, c, d] = 4" for a b c d :: "8 word" by simp
  have v4: "Contains ([a, b, c, d], k) [w, x, y, z] \<longleftrightarrow> (let m = CIDRMask k 4 in
      a AND m ! 0 = w AND m ! 0 \<and> b AND m ! 1 = x AND m ! 1 \<and> c AND m ! 2 = y AND m ! 2 \<and> d AND m ! 3 = z AND m ! 3)"
    for a b c d k
    unfolding Contains_def To4_def Let_def prod.case len by (simp add: list_4 del: CIDRMask.simps)
  have "Contains ([127, 0, 0, 0], 8) [w, x, y, z] \<longleftrightarrow> w = 127" "Contains ([10, 0, 0, 0], 8) [w, x, y, z] \<longleftrightarrow> w = 10"
      "Contains ([192, 168, 0, 0], 16) [w, x, y, z] \<longleftrightarrow> w = 192 \<and> x = 168"
      "Contains ([172, 16, 0, 0], 12) [w, x, y, z] \<longleftrightarrow> w = 172 \<and> x AND 240 = 16"
    unfolding v4 masks by (auto simp: Let_def)
  then show ?thesis by (simp add: isPrivateIP_def privateIPBlocks_def v6 byte_172)
qed

lemma private_To4: "To4 a = Some b \<Longrightarrow> isPrivateIP a \<longleftrightarrow> isPrivateIP b"
proof -
  assume a: "To4 a = Some b"
  then have "To4 b = Some b" by (auto simp: To4_def split: if_splits)
  with a have "Contains block a = Contains block b" for block by (simp add: Contains_def)
  then show ?thesis by (simp add: isPrivateIP_def)
qed

lemma list_16: "list_all P [0..<16] \<longleftrightarrow> P 0 \<and> P 1 \<and> list_all P [2..<16::nat]"
  by (simp add: upt_conv_Cons numeral_2_eq_2)

lemma private_v6:
  assumes "length a = 16" and "To4 a = None"
  shows "isPrivateIP a \<longleftrightarrow> a = replicate 15 0 @ [1] \<or> a ! 0 = 254 \<and> 128 \<le> a ! 1 \<and> a ! 1 < 192"
proof -
  have "Contains (replicate 15 0 @ [1], 128) a \<longleftrightarrow> (\<forall>i < 16. (replicate 15 0 @ [1]) ! i = a ! i)"
    using assms by (simp add: Contains_def masks list_all_iff Let_def Ball_def)
  also have "\<dots> \<longleftrightarrow> a = replicate 15 0 @ [1]"
    using assms(1) by (auto simp: list_eq_iff_nth_eq)
  finally have loop: "Contains (replicate 15 0 @ [1], 128) a \<longleftrightarrow> a = replicate 15 0 @ [1]" .
  have "list_all (\<lambda>i. (254 # 128 # replicate 14 0) ! i AND (255 # 192 # replicate 14 0) ! i =
      a ! i AND (255 # 192 # replicate 14 0 :: ip) ! i) [2..<16]"
    by (auto simp: list_all_iff nth_Cons split: nat.splits)
  then have "Contains (254 # 128 # replicate 14 0, 10) a \<longleftrightarrow> 254 = a ! 0 \<and> 128 = a ! 1 AND 192"
    using assms by (simp add: Contains_def masks list_16 Let_def)
  with loop assms show ?thesis
    by (auto simp: isPrivateIP_def privateIPBlocks_def Contains_def byte_fe80 [symmetric])
qed

text \<open>
  C30: Private addresses. \<open>isPrivateIP\<close> holds of an IPv4 address, in its 4-byte or its 16-byte form, exactly
  if it is 127.x, 10.x, 172.16.x to 172.31.x or 192.168.x, and of any other 16-byte address exactly if it is
  \<open>::1\<close> or begins with the ten bits of \<open>fe80::/10\<close>.
\<close>

theorem private_ip_spec:
  "(isPrivateIP [w, x, y, z] \<longleftrightarrow> w = 127 \<or> w = 10 \<or> w = 172 \<and> 16 \<le> x \<and> x \<le> 31 \<or> w = 192 \<and> x = 168) \<and>
   (isPrivateIP (replicate 10 0 @ [255, 255, w, x, y, z]) \<longleftrightarrow> isPrivateIP [w, x, y, z]) \<and>
   (length a = 16 \<and> To4 a = None \<longrightarrow>
     (isPrivateIP a \<longleftrightarrow> a = replicate 15 0 @ [1] \<or> a ! 0 = 254 \<and> 128 \<le> a ! 1 \<and> a ! 1 < 192))"
  using private_v4 private_v6 private_To4 [of "replicate 10 0 @ [255, 255, w, x, y, z]" "[w, x, y, z]"]
  by (auto simp: To4_def)

theorem private_ip_spec_witness:
  "isPrivateIP [172, 31, 0, 1] \<and> \<not> isPrivateIP [172, 32, 0, 1] \<and> isPrivateIP (254 # 129 # replicate 14 7)"
proof -
  have "To4 (254 # 129 # replicate 14 7) = None" by code_simp
  with private_ip_spec [of 172 31 0 1 "254 # 129 # replicate 14 7"] private_ip_spec [of 172 32 0 1 "[]"]
  show ?thesis by simp
qed

section \<open>The permanent identity\<close>

lemma New_self:
  assumes "New home mkdir fresh dir addr port self = Ret wb"
  shows "\<not> selfZero (wb_Self wb) \<and> se_Address (wb_Self wb) = addr @ '':'' @ port \<and>
    (\<not> selfZero self \<longrightarrow> wb_Self wb = self\<lparr>se_Address := addr @ '':'' @ port\<rparr>) \<and>
    pe_SignPub (wb_PeerSelf wb) = slice (se_SignPub (wb_Self wb))"
proof -
  from assms obtain wb0 wb1 wb2 wb3 where c: "InitFiles home mkdir dir (zero_wb\<lparr>wb_Self := self\<rparr>) = Ret wb0"
      "GetKeys fresh (addr @ '':'' @ port) wb0 = Ret wb1"
      "CalculateIdealTableSelf (slice (se_SignPub (wb_Self wb1))) wb1 = Ret wb2"
      "InitTable (slice (se_SignPub (wb_Self wb2))) wb2 = Ret wb3" "wb_Self wb = wb_Self wb3" "wb_PeerSelf wb = wb_PeerSelf wb3"
    unfolding New_def Let_def by (elim bindE) (auto simp: chatStatus_def)
  have "wb_Self wb0 = self" using c(1) by (auto simp: InitFiles_def elim!: bindE split: if_splits option.splits)
  moreover have "wb_Self wb2 = wb_Self wb1" "wb_PeerSelf wb2 = wb_PeerSelf wb1" using c(3) by (auto simp: CalculateIdealTableSelf_def elim!: bindE)
  moreover have "wb_Self wb3 = wb_Self wb2" using c(4) unfolding InitTable_def
    by (rule ofold_invariant [where P = "\<lambda>w. wb_Self w = wb_Self wb2"]) (auto elim!: bindE simp: Let_def)
  moreover have "wb_PeerSelf wb3 = wb_PeerSelf wb2" by (rule InitTable_self [OF c(4)])
  ultimately show ?thesis using c(2,5,6)
    by (auto simp: GetKeys_def SetSelf_def selfZero_def Let_def elim!: bindE split: if_splits option.splits)
qed

text \<open>The operations of the file of the identity work.\<close>

definition perm_works :: "perm_env \<Rightarrow> string \<Rightarrow> bool" where
  "perm_works P home \<longleftrightarrow> pm_home P = Some home \<and> pm_mkdir P \<and> pm_stat P = StatOk \<and> pm_open P \<and> pm_write P \<and>
     pm_close P \<and> pm_read P"

text \<open>
  What is relied on of \<open>encoding/json\<close>: an object ends in a brace, the encoding of a value decodes to it,
  and data after the end of the object is an error.
\<close>

definition json_self :: "perm_env \<Rightarrow> bool" where
  "json_self P \<longleftrightarrow> (\<forall>self json. pm_ofSelf P self = Some json \<longrightarrow> json \<noteq> [] \<and> last json = CHR ''}'' \<and>
     (\<forall>s. pm_toSelf P json s = Some self) \<and>
     (\<forall>tail s. tail \<noteq> [] \<and> last tail = CHR ''}'' \<longrightarrow> pm_toSelf P (json @ tail) s = None))"

lemma savePerm_works:
  "perm_works P home \<Longrightarrow> pm_ofSelf P self = Some json \<Longrightarrow> json \<noteq> [] \<Longrightarrow> savePerm P self dsk = Ret
    (dsk(perm_path home \<mapsto> json @ drop (length json) (case dsk (perm_path home) of None \<Rightarrow> [] | Some old \<Rightarrow> old)))"
  by (simp add: savePerm_def perm_works_def write_at_def Let_def)

lemma fetchPerm_works:
  "perm_works P home \<Longrightarrow> fetchPerm P self dsk =
    (case dsk (perm_path home) of None \<Rightarrow> Ret self | Some contents \<Rightarrow> pm_toSelf P contents self)"
  by (simp add: fetchPerm_def perm_works_def pathExists_def Let_def split: option.split)

text \<open>
  C14: The permanent identity over restarts. When a node that was started with the \<open>perm\<close> flag (and no file
  before) is started again, at whatever address, it gets the same keys. At the third start the result of the
  second is read back if its encoding is not shorter than that of the first; if it is shorter (a shorter address
  is enough) the process stops at the third start and, the file being as it is, at every later one.
\<close>

theorem perm_identity_survives:
  assumes "perm_works P home" and "json_self P" and "dsk (perm_path home) = None"
    and "main_node True P h mkdir fresh dir ip1 port1 dsk = Ret (wb1, dsk1)"
    and "main_node True P h mkdir fresh' dir ip2 port2 dsk1 = Ret (wb2, dsk2)"
    and "pm_ofSelf P (wb_Self wb1) = Some json1" and "pm_ofSelf P (wb_Self wb2) = Some json2"
  shows "wb_Self wb2 = (wb_Self wb1)\<lparr>se_Address := ip2 @ '':'' @ port2\<rparr> \<and>
    (if length json1 \<le> length json2 then fetchPerm P zero_self dsk2 = Ret (wb_Self wb2)
     else \<forall>h mkdir fresh dir ip port. main_node True P h mkdir fresh dir ip port dsk2 = Panic)"
proof -
  note law = assms(2) [unfolded json_self_def, rule_format]
  have n1: "New h mkdir fresh dir ip1 port1 zero_self = Ret wb1" and s1: "savePerm P (wb_Self wb1) dsk = Ret dsk1"
    using assms(4) fetchPerm_works [OF assms(1), of zero_self dsk] assms(3)
    by (auto simp: main_node_def elim!: bindE)
  have d1: "dsk1 = dsk(perm_path home \<mapsto> json1)"
    using s1 savePerm_works [OF assms(1,6)] law [OF assms(6)] assms(3) by simp
  have f1: "fetchPerm P zero_self dsk1 = Ret (wb_Self wb1)"
    using fetchPerm_works [OF assms(1)] law [OF assms(6)] by (simp add: d1)
  then have n2: "New h mkdir fresh' dir ip2 port2 (wb_Self wb1) = Ret wb2" and s2: "savePerm P (wb_Self wb2) dsk1 = Ret dsk2"
    using assms(5) by (auto simp: main_node_def elim!: bindE)
  have "wb_Self wb2 = (wb_Self wb1)\<lparr>se_Address := ip2 @ '':'' @ port2\<rparr>"
    using New_self [OF n2] New_self [OF n1] by blast
  moreover have d2: "dsk2 (perm_path home) = Some (json2 @ drop (length json2) json1)"
    using s2 savePerm_works [OF assms(1,7)] law [OF assms(7)] by (auto simp: d1)
  have "fetchPerm P zero_self dsk2 = Ret (wb_Self wb2)" if "length json1 \<le> length json2"
    using fetchPerm_works [OF assms(1)] d2 law [OF assms(7)] that by simp
  moreover have "main_node True P h mkdir fresh dir ip port dsk2 = Panic" if "\<not> length json1 \<le> length json2"
    for h mkdir fresh dir ip port
  proof -
    have "drop (length json2) json1 \<noteq> []" "last (drop (length json2) json1) = CHR ''}''"
      using that law [OF assms(6)] by (simp_all add: last_drop)
    then show ?thesis using fetchPerm_works [OF assms(1)] d2 law [OF assms(7)] by (simp add: main_node_def)
  qed
  ultimately show ?thesis by simp
qed

theorem perm_identity_survives_witness:
  "\<exists>P wb1 dsk1 wb2 dsk2.
    main_node True P None (\<lambda>_. True) (Some (key_k, ''p'', key_k, ''q'')) ''d'' ''1.2.3.4'' ''1'' Map.empty = Ret (wb1, dsk1) \<and>
    main_node True P None (\<lambda>_. True) (Some (key_k, ''p'', key_k, ''q'')) ''d'' ''1.2.3'' ''1'' dsk1 = Ret (wb2, dsk2) \<and>
    se_SignPub (wb_Self wb2) = se_SignPub (wb_Self wb1) \<and>
    main_node True P None (\<lambda>_. True) (Some (key_k, ''p'', key_k, ''q'')) ''d'' ''1.2.3'' ''1'' dsk2 = Panic"
proof -
  let ?ok = "\<lambda>_ :: string. True" and ?fresh = "Some (key_k, ''p'', key_k, ''q'')"
  obtain wb1 where n1: "New None ?ok ?fresh ''d'' ''1.2.3.4'' ''1'' zero_self = Ret wb1"
      "pe_SignPub (wb_PeerSelf wb1) = key_k"
    using New_runs [of "''d''" ?ok ?fresh key_k "''p''" key_k "''q''" zero_self None "''1.2.3.4''" "''1''"]
    by (auto simp: zero_self_def selfZero_def)
  note s1 = New_self [OF n1(1)]
  obtain wb2 where n2: "New None ?ok ?fresh ''d'' ''1.2.3'' ''1'' (wb_Self wb1) = Ret wb2"
    using New_runs [of "''d''" ?ok ?fresh key_k "''p''" key_k "''q''" "wb_Self wb1" None "''1.2.3''" "''1''"] s1 n1(2) by auto
  note s2 = New_self [OF n2]
  let ?A = "wb_Self wb1" and ?B = "wb_Self wb2"
  have "se_Address ?A \<noteq> se_Address ?B" using conjunct1 [OF conjunct2 [OF s1]] conjunct1 [OF conjunct2 [OF s2]] by simp
  then have ne: "?A \<noteq> ?B" by metis
  let ?P = "\<lparr>pm_home = Some ''/h'', pm_mkdir = True, pm_stat = StatOk, pm_open = True, pm_write = True, pm_close = True,
    pm_read = True, pm_ofSelf = \<lambda>s. if s = ?A then Some ''{aa}'' else if s = ?B then Some ''{b}'' else None,
    pm_toSelf = \<lambda>j _. if j = ''{aa}'' then Some ?A else if j = ''{b}'' then Some ?B else None\<rparr>"
  have w: "perm_works ?P ''/h''" by (simp add: perm_works_def)
  have law: "json_self ?P" unfolding json_self_def using ne by (auto split: if_splits)
  let ?d1 = "Map.empty(perm_path ''/h'' \<mapsto> ''{aa}'')" and ?d2 = "Map.empty(perm_path ''/h'' \<mapsto> ''{b}}'')"
  have m1: "main_node True ?P None ?ok ?fresh ''d'' ''1.2.3.4'' ''1'' Map.empty = Ret (wb1, ?d1)"
    using n1(1) by (simp add: main_node_def fetchPerm_works [OF w] savePerm_works [OF w])
  have m2: "main_node True ?P None ?ok ?fresh ''d'' ''1.2.3'' ''1'' ?d1 = Ret (wb2, ?d2)"
    using n2 ne by (simp add: main_node_def fetchPerm_works [OF w] savePerm_works [OF w])
  from perm_identity_survives [OF w law _ m1 m2, of "''{aa}''" "''{b}''"] ne
  have "?B = ?A\<lparr>se_Address := ''1.2.3:1''\<rparr>" "main_node True ?P None ?ok ?fresh ''d'' ''1.2.3'' ''1'' ?d2 = Panic" by simp_all
  moreover from this(1) have "se_SignPub ?B = se_SignPub ?A" by (metis Self.select_convs(3) Self.surjective Self.update_convs(5))
  ultimately show ?thesis using m1 m2 by blast
qed

section \<open>Receiving\<close>

abbreviation (input) nl :: char where
  "nl \<equiv> char_of (10 :: nat)"

definition lines_of :: "(int \<times> string) list \<Rightarrow> (int \<times> arrival) list" where
  "lines_of ms = map (\<lambda>(now, m). (now, Datagram (m @ [nl]))) ms"

lemma recv_bytes_open: "nl \<notin> set d \<Longrightarrow> recv_bytes L now pending d wb = Ret (pending @ d, wb)"
  by (induction d arbitrary: pending) auto

lemma recv_bytes_Nil: "recv_bytes L now pending [] = (\<lambda>wb. Ret (pending, wb))"
  by (rule ext) simp

lemma recv_bytes_line: "nl \<notin> set d \<Longrightarrow> recv_bytes L now pending (d @ [nl]) wb =
    do { wb \<leftarrow> processMessage L now (pending @ d @ [nl]) wb; Ret ([], wb) }"
  by (induction d arbitrary: pending) (auto simp: recv_bytes_Nil)

lemma recv_lines:
  "\<forall>(now, m) \<in> set ms. nl \<notin> set m \<Longrightarrow> ofold (recv_one L) (lines_of ms) ([], wb) =
    map_option (Pair []) (ofold (\<lambda>(now, m). processMessage L now (m @ [nl])) ms wb)"
proof (induction ms arbitrary: wb)
  case (Cons x ms)
  obtain now m where x: "x = (now, m)" by force
  with Cons.prems have m: "nl \<notin> set m" by simp
  show ?case
    using Cons by (cases "processMessage L now (m @ [nl]) wb")
      (simp_all add: x lines_of_def recv_one_def recv_bytes_line [OF m])
qed (simp add: lines_of_def)

text \<open>
  C29: Datagrams and messages. Datagrams that hold one line each, as the program sends them, are processed one
  by one in order. What a datagram without a newline brought is glued in front of the next message and nothing
  else: when the glued line is not the JSON of an envelope, that message, whoever sent it, is lost.
\<close>

theorem recv_framing:
  assumes "\<forall>(now, m) \<in> set ((now, m) # ms). nl \<notin> set m" and "nl \<notin> set junk"
  shows "Recv L (lines_of ms) wb = map_option (Pair []) (ofold (\<lambda>(now, m). processMessage L now (m @ [nl])) ms wb) \<and>
    Recv L ((now0, Datagram junk) # lines_of ((now, m) # ms)) wb = do {
      wb \<leftarrow> processMessage L now (junk @ m @ [nl]) wb;
      Recv L (lines_of ms) wb } \<and>
    (l_toEnvelope L (junk @ m @ [nl]) = None \<longrightarrow>
      Recv L ((now0, Datagram junk) # lines_of ((now, m) # ms)) wb =
      Recv L (lines_of ms) (setStatus ''invalid json message received'' wb))"
proof -
  have ms: "\<forall>(now, m) \<in> set ms. nl \<notin> set m" and m: "nl \<notin> set m" using assms(1) by auto
  have glued: "Recv L ((now0, Datagram junk) # lines_of ((now, m) # ms)) wb = do {
      wb \<leftarrow> processMessage L now (junk @ m @ [nl]) wb;
      Recv L (lines_of ms) wb }"
    by (simp add: Recv_def lines_of_def recv_one_def recv_bytes_open [OF assms(2)] recv_bytes_line [OF m])
  with recv_lines [OF ms] show ?thesis by (auto simp: Recv_def processMessage_def)
qed

theorem recv_framing_witness:
  "\<forall>L wb. Recv (L\<lparr>l_toEnvelope := \<lambda>_. None\<rparr>) [(1, Datagram ''x''), (2, Datagram (''m'' @ [nl]))] wb =
    Ret ([], setStatus ''invalid json message received'' wb)"
proof (intro allI)
  fix L :: lib and wb :: "WhiteBox"
  have nl: "nl \<noteq> CHR ''m''" "nl \<noteq> CHR ''x''" by code_simp+
  show "Recv (L\<lparr>l_toEnvelope := \<lambda>_. None\<rparr>) [(1, Datagram ''x''), (2, Datagram (''m'' @ [nl]))] wb =
      Ret ([], setStatus ''invalid json message received'' wb)"
    using nl recv_framing [of 2 "''m''" "[]" "''x''" "L\<lparr>l_toEnvelope := \<lambda>_. None\<rparr>" wb 1]
    by (simp add: lines_of_def Recv_def processMessage_def)
qed

end
