(* ===== verification/ScratchTable.thy ===== *)
theory ScratchTable
  imports KadInv
begin

text \<open>
  The first version of the routing table (\<open>scratch/kademlia.go\<close>) and the experiment with ideal ids
  (\<open>scratch/xor.go\<close>). Unlike \<open>white-box/kad.go\<close>, every bucket starts with the node itself, a peer is
  offered to all 256 buckets, the distance of a peer to an ideal id is the absolute difference of the
  two numbers and a bucket holds at most 20 entries. The lemmas: what a bucket holds after any sequence
  of \<open>addPeer\<close> calls is the first 20 entries of a stable sort, and \<open>findClosest\<close> always returns the
  front of a bucket, because it compares distances with 0.
\<close>

section \<open>Definitions\<close>

record TableEntry =
  te_ID :: bytes
  te_Distance :: nat

text \<open>The two global arrays of 256 elements; an element is nil before it is set.\<close>

record proto =
  pr_PeerTable :: "TableEntry list option list"
  pr_IdealPeerIds :: "nat option list"

definition proto_start :: proto where
  "proto_start = \<lparr>pr_PeerTable = replicate 256 None, pr_IdealPeerIds = replicate 256 None\<rparr>"

definition calculateIdealTable_proto :: "bytes \<Rightarrow> proto \<Rightarrow> proto go" where
  "calculateIdealTable_proto idBytes st = do {
     let idInt = SetBytes idBytes;
     (ids, mask) \<leftarrow> ofold (\<lambda>i (ids, mask).
         if i < length ids then Ret (ids[i := Some (idInt XOR mask)], 2 * mask) else Panic)
       [0..<length idBytes * 8] (pr_IdealPeerIds st, 1);
     Ret (st\<lparr>pr_IdealPeerIds := ids\<rparr>) }"

definition initTable_proto :: "bytes \<Rightarrow> proto \<Rightarrow> proto go" where
  "initTable_proto idBytes st = ofold (\<lambda>i st. do {
       ideal \<leftarrow> pr_IdealPeerIds st ! i;
       let peerEntry = \<lparr>te_ID = idBytes, te_Distance = ideal XOR SetBytes idBytes\<rparr>;
       Ret (st\<lparr>pr_PeerTable := (pr_PeerTable st)[i := Some [peerEntry]]\<rparr>) })
     [0..<256] st"

text \<open>\<open>insertDist.Sub\<close> and \<open>insertDist.Abs\<close>.\<close>

definition absDist :: "nat \<Rightarrow> nat \<Rightarrow> nat" where
  "absDist a b = nat \<bar>int a - int b\<bar>"

text \<open>
  One bucket: \<open>last.Value\<close> of an empty list is a nil dereference. The scan runs from the back past
  every entry that is farther; \<open>last\<close> is the entry that was last before the insertion, which is still
  the last one after it.
\<close>

definition addPeer_bucket :: "TableEntry \<Rightarrow> TableEntry list \<Rightarrow> TableEntry list go" where
  "addPeer_bucket entry bucket =
     (if bucket = [] then Panic
      else if te_Distance entry < te_Distance (last bucket)
      then
        let farther = (\<lambda>e. te_Distance entry < te_Distance e);
            bucket = rev (dropWhile farther (rev bucket)) @ entry # rev (takeWhile farther (rev bucket))
        in Ret (if 20 < length bucket then butlast bucket else bucket)
      else Ret bucket)"

definition addPeer_proto :: "bytes \<Rightarrow> proto \<Rightarrow> proto go" where
  "addPeer_proto idBytes st = ofold (\<lambda>i st. do {
       ideal \<leftarrow> pr_IdealPeerIds st ! i;
       bucket \<leftarrow> pr_PeerTable st ! i;
       bucket \<leftarrow> addPeer_bucket \<lparr>te_ID = idBytes, te_Distance = absDist ideal (SetBytes idBytes)\<rparr> bucket;
       Ret (st\<lparr>pr_PeerTable := (pr_PeerTable st)[i := Some bucket]\<rparr>) })
     [0..<256] st"

text \<open>The search in a bucket; \<open>closestDist\<close> starts as the zero value of a \<open>big.Int\<close>.\<close>

definition closest_entry :: "nat \<Rightarrow> TableEntry list \<Rightarrow> TableEntry option" where
  "closest_entry idInt bucket = snd (fold (\<lambda>entry (closestDist, closestElement).
       let entryDist = SetBytes (te_ID entry) XOR idInt
       in if entryDist < closestDist then (entryDist, Some entry) else (closestDist, closestElement))
     bucket (0, case bucket of [] \<Rightarrow> None | entry # _ \<Rightarrow> Some entry))"

definition findClosest_proto :: "bytes \<Rightarrow> proto \<Rightarrow> TableEntry option go" where
  "findClosest_proto idBytes st = do {
     let idInt = SetBytes idBytes;
     (lowestIdealDist, lowestIdealIdx) \<leftarrow> ofold (\<lambda>i (lowestIdealDist, lowestIdealIdx). do {
         ideal \<leftarrow> pr_IdealPeerIds st ! i;
         let dist = ideal XOR idInt;
         let (lowestIdealDist, lowestIdealIdx) =
           (if i = 0 then (dist, i) else (lowestIdealDist, lowestIdealIdx));
         Ret (if dist < lowestIdealDist then (dist, i) else (lowestIdealDist, lowestIdealIdx)) })
       [0..<256] (0, 0);
     bucket \<leftarrow> pr_PeerTable st ! lowestIdealIdx;
     Ret (closest_entry idInt bucket) }"

text \<open>\<open>rnd i\<close> is what the \<open>i\<close>-th \<open>rand.Read\<close> puts into its buffer of 32 bytes.\<close>

definition getFakePeers :: "(nat \<Rightarrow> bytes) \<Rightarrow> bytes list" where
  "getFakePeers rnd = map rnd [0..<10000]"

text \<open>
  \<open>main\<close>, without what it prints on the way: the table of \<open>idBytes\<close>, a first search, all peers added,
  and how many searches for a peer found the node itself, exactly that peer, and another one. A search
  that finds no entry is a nil dereference.
\<close>

definition count_closest :: "bytes \<Rightarrow> proto \<Rightarrow> bytes \<Rightarrow> nat \<times> nat \<times> nat \<Rightarrow> (nat \<times> nat \<times> nat) go" where
  "count_closest idBytes st peer counts = do {
     found \<leftarrow> findClosest_proto peer st;
     closest \<leftarrow> found;
     let (self, exact, other) = counts;
     Ret (if te_ID closest = idBytes then (self + 1, exact, other)
          else if te_ID closest = peer then (self, exact + 1, other)
          else (self, exact, other + 1)) }"

definition main_proto :: "bytes \<Rightarrow> bytes list \<Rightarrow> (proto \<times> nat \<times> nat \<times> nat) go" where
  "main_proto idBytes fakePeers = do {
     st \<leftarrow> calculateIdealTable_proto idBytes proto_start;
     st \<leftarrow> initTable_proto idBytes st;
     peer0 \<leftarrow> (case fakePeers of [] \<Rightarrow> Panic | p # _ \<Rightarrow> Ret p);
     first \<leftarrow> findClosest_proto peer0 st;
     st \<leftarrow> ofold addPeer_proto fakePeers st;
     counts \<leftarrow> ofold (count_closest idBytes st) fakePeers (0, 0, 0);
     Ret (st, counts) }"

section \<open>The ideal ids and the first table\<close>

definition proto_init :: "bytes \<Rightarrow> nat \<Rightarrow> TableEntry" where
  "proto_init idBytes i = \<lparr>te_ID = idBytes, te_Distance = 2 ^ i\<rparr>"

text \<open>Both versions of the program compute the same ideal ids.\<close>

lemma calculateIdealTable_proto_eq:
  "calculateIdealTable_proto idBytes proto_start =
    map_option (\<lambda>ids. proto_start\<lparr>pr_IdealPeerIds := ids\<rparr>) (calculateIdealTable idBytes)"
  by (auto simp: calculateIdealTable_proto_def calculateIdealTable_def proto_start_def Let_def map_option_case
      split: Option.bind_splits option.splits prod.splits)

text \<open>A loop over the buckets that changes bucket \<open>i\<close> in round \<open>i\<close> alone.\<close>

lemma ofold_buckets:
  assumes "length (pr_PeerTable st) = 256"
    and "\<And>i t. i < 256 \<Longrightarrow> pr_IdealPeerIds t = pr_IdealPeerIds st \<Longrightarrow>
      pr_PeerTable t ! i = pr_PeerTable st ! i \<Longrightarrow>
      f i t = Ret (t\<lparr>pr_PeerTable := (pr_PeerTable t)[i := g i]\<rparr>)"
  shows "ofold f [0..<256] st = Ret (st\<lparr>pr_PeerTable := map g [0..<256]\<rparr>)"
proof -
  have "ofold f [0..<n] st = Ret (st\<lparr>pr_PeerTable := map g [0..<n] @ drop n (pr_PeerTable st)\<rparr>)"
    if "n \<le> 256" for n
    using that
  proof (induction n)
    case (Suc n)
    let ?t = "st\<lparr>pr_PeerTable := map g [0..<n] @ drop n (pr_PeerTable st)\<rparr>"
    have "f n ?t = Ret (?t\<lparr>pr_PeerTable := (pr_PeerTable ?t)[n := g n]\<rparr>)"
      using Suc.prems assms(1) by (intro assms(2)) (simp_all add: nth_append)
    moreover have "(pr_PeerTable ?t)[n := g n] = map g [0..<Suc n] @ drop (Suc n) (pr_PeerTable st)"
      using Suc.prems assms(1) by (simp add: list_update_append Cons_nth_drop_Suc [symmetric])
    ultimately show ?case using Suc by (simp add: ofold_append)
  qed simp
  from this [of 256] show ?thesis using assms(1) by simp
qed

lemma xor_self_exp: "(s XOR m) XOR s = (m :: nat)"
  by (metis xor.assoc xor.commute xor_self_eq xor.right_neutral)

lemma initTable_proto_eq:
  assumes "length (pr_PeerTable st) = 256" and "pr_IdealPeerIds st = ideal_ids (SetBytes idBytes)"
  shows "initTable_proto idBytes st = Ret (st\<lparr>pr_PeerTable := map (\<lambda>i. Some [proto_init idBytes i]) [0..<256]\<rparr>)"
  unfolding initTable_proto_def
  by (rule ofold_buckets) (use assms in \<open>simp_all add: ideal_ids_nth proto_init_def xor_self_exp Let_def\<close>)

section \<open>What a bucket holds\<close>

text \<open>
  The entries offered to bucket \<open>i\<close> that are closer to its ideal id than the node, first the closest
  and of equally close ones the earliest; then the node itself; cut to 20.
\<close>

definition offer :: "nat \<Rightarrow> nat \<Rightarrow> bytes \<Rightarrow> TableEntry" where
  "offer s i p = \<lparr>te_ID = p, te_Distance = absDist (s XOR 2 ^ i) (SetBytes p)\<rparr>"

definition proto_bucket :: "bytes \<Rightarrow> bytes list \<Rightarrow> nat \<Rightarrow> TableEntry list" where
  "proto_bucket idBytes peers i =
     take 20 (sort_key te_Distance
       (filter (\<lambda>e. te_Distance e < 2 ^ i) (map (offer (SetBytes idBytes) i) peers)) @ [proto_init idBytes i])"

lemma takeWhile_snoc: "\<not> P y \<Longrightarrow> takeWhile P (xs @ [y]) = takeWhile P xs"
  by (induction xs) auto

lemma dropWhile_snoc: "\<not> P y \<Longrightarrow> dropWhile P (xs @ [y]) = dropWhile P xs @ [y]"
  by (induction xs) auto

lemma insert_from_back:
  assumes "sorted (map f ys)"
  shows "rev (dropWhile (\<lambda>e. f x < f e) (rev ys)) @ x # rev (takeWhile (\<lambda>e. f x < f e) (rev ys)) = ins_after f x ys"
  using assms
proof (induction ys)
  case (Cons y ys)
  show ?case
  proof (cases "f x < f y")
    case True
    with Cons.prems have "\<forall>z \<in> set (y # ys). f x < f z" by fastforce
    then have "dropWhile (\<lambda>e. f x < f e) (rev (y # ys)) = []" "takeWhile (\<lambda>e. f x < f e) (rev (y # ys)) = rev (y # ys)"
      by (simp_all only: dropWhile_eq_Nil_conv takeWhile_eq_all_conv set_rev)
    with True show ?thesis by (simp only: rev_rev_ident append_Nil rev.simps(1) ins_after.simps if_True)
  next
    case False
    with Cons show ?thesis by (simp add: takeWhile_snoc dropWhile_snoc)
  qed
qed simp

lemma sorted_last: "sorted (map f ys) \<Longrightarrow> y \<in> set ys \<Longrightarrow> f y \<le> f (last ys)"
  by (induction ys rule: rev_induct) (auto simp: sorted_append)

lemma ins_after_append: "f x < f z \<Longrightarrow> ins_after f x (ys @ [z]) = ins_after f x ys @ [z]"
  by (induction ys) auto

lemma take_ins_after_farther:
  "n \<le> length ys \<Longrightarrow> \<forall>y \<in> set (take n ys). f y \<le> f x \<Longrightarrow> take n (ins_after f x ys) = take n ys"
  by (induction ys arbitrary: n) (auto simp: take_Cons' not_less split: if_splits)

lemma sorted_take_key: "sorted (map f ys) \<Longrightarrow> sorted (map f (take n ys))"
  unfolding take_map [symmetric] by (rule sorted_wrt_take)

lemma addPeer_bucket_sorted:
  assumes B: "B \<noteq> []" "sorted (map te_Distance B)" "length B \<le> 20"
  shows "addPeer_bucket e B = Ret (if te_Distance e < te_Distance (last B) then take 20 (ins_after te_Distance e B) else B)"
proof -
  let ?l = "ins_after te_Distance e B"
  have "(if 20 < length ?l then butlast ?l else ?l) = take 20 ?l"
    using B(3) by (cases "length B = 20") (auto simp: butlast_conv_take)
  with B show ?thesis
    by (simp only: addPeer_bucket_def Let_def insert_from_back [OF B(2), of e] if_False) (auto split: if_splits)
qed

lemma take_snoc_not_Nil: "take 20 (xs @ [x]) \<noteq> []"
  by (cases xs) simp_all

lemma sorted_snoc_key: "sorted (map f ys) \<Longrightarrow> \<forall>y \<in> set ys. f y \<le> f z \<Longrightarrow> sorted (map f (ys @ [z]))"
  by (simp add: sorted_append)

lemma addPeer_bucket_step:
  "addPeer_bucket (offer (SetBytes idBytes) i p) (proto_bucket idBytes peers i) =
    Ret (proto_bucket idBytes (peers @ [p]) i)"
proof -
  let ?d = te_Distance and ?e = "offer (SetBytes idBytes) i p" and ?z = "proto_init idBytes i"
  let ?C = "filter (\<lambda>e. ?d e < 2 ^ i) (map (offer (SetBytes idBytes) i) peers)"
  let ?F = "sort_key ?d ?C"
  let ?B = "take 20 (?F @ [?z])"
  have z: "?d ?z = 2 ^ i" by (simp add: proto_init_def)
  have G: "sorted (map ?d (?F @ [?z]))" by (rule sorted_snoc_key) (auto simp: z)
  have B: "?B \<noteq> []" "length ?B \<le> 20" by (rule take_snoc_not_Nil, simp)
  have sB: "sorted (map ?d ?B)" by (rule sorted_take_key [OF G])
  have new: "proto_bucket idBytes (peers @ [p]) i =
      (if ?d ?e < 2 ^ i then take 20 (ins_after ?d ?e (?F @ [?z])) else ?B)"
    by (simp add: proto_bucket_def ins_after_append z ins_after_sort_key del: sort_key_simps)
  have "(if ?d ?e < ?d (last ?B) then take 20 (ins_after ?d ?e ?B) else ?B) =
      (if ?d ?e < 2 ^ i then take 20 (ins_after ?d ?e (?F @ [?z])) else ?B)"
  proof (cases "length ?F < 20")
    case True
    then show ?thesis by (simp add: z)
  next
    case False
    then have b: "?B = take 20 ?F" "length ?B = 20" by simp_all
    then have "last ?B \<in> set ?F" by (metis B(1) last_in_set in_set_takeD)
    then have last: "?d (last ?B) < 2 ^ i" by auto
    show ?thesis
    proof (cases "?d ?e < ?d (last ?B)")
      case True
      with last show ?thesis by (simp only: take_ins_after if_True less_trans [OF True last])
    next
      case far: False
      have "take 20 (ins_after ?d ?e (?F @ [?z])) = ?B"
        using far False sorted_last [OF sB] by (intro take_ins_after_farther) fastforce+
      with far show ?thesis by simp
    qed
  qed
  with addPeer_bucket_sorted [OF B(1) sB B(2), of ?e] show ?thesis
    by (simp only: proto_bucket_def [of _ peers] new)
qed

section \<open>The table after any number of additions\<close>

definition proto_table :: "bytes \<Rightarrow> bytes list \<Rightarrow> proto" where
  "proto_table idBytes peers =
     \<lparr>pr_PeerTable = map (\<lambda>i. Some (proto_bucket idBytes peers i)) [0..<256],
      pr_IdealPeerIds = ideal_ids (SetBytes idBytes)\<rparr>"

lemma addPeer_proto_step:
  "addPeer_proto p (proto_table idBytes peers) = Ret (proto_table idBytes (peers @ [p]))"
proof -
  have "addPeer_proto p (proto_table idBytes peers) =
      Ret ((proto_table idBytes peers)\<lparr>pr_PeerTable := map (\<lambda>i. Some (proto_bucket idBytes (peers @ [p]) i)) [0..<256]\<rparr>)"
    unfolding addPeer_proto_def
    by (rule ofold_buckets)
      (use addPeer_bucket_step [of idBytes _ p peers] in
        \<open>simp_all add: proto_table_def ideal_ids_nth offer_def [symmetric]\<close>)
  then show ?thesis by (simp add: proto_table_def)
qed

lemma addPeer_proto_all:
  "ofold addPeer_proto ps (proto_table idBytes peers) = Ret (proto_table idBytes (peers @ ps))"
  by (induction ps arbitrary: peers) (simp_all add: addPeer_proto_step)

lemma proto_table_Nil:
  "proto_table idBytes [] =
    \<lparr>pr_PeerTable = map (\<lambda>i. Some [proto_init idBytes i]) [0..<256], pr_IdealPeerIds = ideal_ids (SetBytes idBytes)\<rparr>"
  by (simp add: proto_table_def proto_bucket_def)

lemma proto_start_table:
  assumes "length idBytes = 32"
  shows "do { st \<leftarrow> calculateIdealTable_proto idBytes proto_start; initTable_proto idBytes st } =
    Ret (proto_table idBytes [])"
proof -
  let ?st = "proto_start\<lparr>pr_IdealPeerIds := ideal_ids (SetBytes idBytes)\<rparr>"
  have "calculateIdealTable_proto idBytes proto_start = Ret ?st"
    by (simp add: calculateIdealTable_proto_eq calculateIdealTable_32 [OF assms])
  moreover have "initTable_proto idBytes ?st = Ret (proto_table idBytes [])"
    by (subst initTable_proto_eq) (simp_all add: proto_table_Nil proto_start_def)
  ultimately show ?thesis by simp
qed

section \<open>findClosest returns the front of a bucket\<close>

lemma closest_entry_front: "closest_entry x bucket = (case bucket of [] \<Rightarrow> None | entry # _ \<Rightarrow> Some entry)"
proof -
  have "fold (\<lambda>entry (d, el). if SetBytes (te_ID entry) XOR x < d then (SetBytes (te_ID entry) XOR x, Some entry) else (d, el))
      bs (0, el) = (0, el)" for bs and el :: "TableEntry option"
    by (induction bs) (simp_all add: Let_def)
  then show ?thesis by (simp add: closest_entry_def Let_def)
qed

lemma proto_bucket_not_Nil: "proto_bucket idBytes peers i \<noteq> []"
  unfolding proto_bucket_def by (rule take_snoc_not_Nil)

lemma findClosest_proto_front:
  "findClosest_proto x (proto_table idBytes peers) =
    Ret (Some (hd (proto_bucket idBytes peers (bucket_of (SetBytes idBytes XOR SetBytes x)))))"
proof -
  let ?i = "bucket_of (SetBytes idBytes XOR SetBytes x)" and ?ids = "ideal_ids (SetBytes idBytes)"
  define wb :: WhiteBox where "wb = undefined\<lparr>wb_IdealPeerIds := ?ids\<rparr>"
  have ids: "wb_IdealPeerIds wb = ?ids" by (simp add: wb_def)
  have "findClosest_proto x (proto_table idBytes peers) = do {
      idx \<leftarrow> closestIndex (SetBytes x) wb;
      bucket \<leftarrow> pr_PeerTable (proto_table idBytes peers) ! idx;
      Ret (closest_entry (SetBytes x) bucket) }"
    by (simp add: findClosest_proto_def closestIndex_def ids proto_table_def Let_def case_prod_beta')
  also have "\<dots> = Ret (closest_entry (SetBytes x) (proto_bucket idBytes peers ?i))"
    using bucket_of_less by (simp add: closestIndex_ideal [OF ids] proto_table_def)
  also have "\<dots> = Ret (Some (hd (proto_bucket idBytes peers ?i)))"
    by (cases "proto_bucket idBytes peers ?i") (simp_all add: closest_entry_front proto_bucket_not_Nil)
  finally show ?thesis .
qed

text \<open>
  Two peers in bucket 255 of the node with id 0: the search for the second one returns the first.
\<close>

definition proto_node :: bytes where
  "proto_node = replicate 32 (char_of (0 :: nat))"

definition proto_peer :: "nat \<Rightarrow> bytes" where
  "proto_peer n = char_of (128 :: nat) # replicate 30 (char_of (0 :: nat)) @ [char_of n]"

lemma SetBytes_Cons: "SetBytes (c # bs) = of_char c * 256 ^ length bs + SetBytes bs"
proof (induction bs rule: rev_induct)
  case (snoc b bs)
  then show ?case using SetBytes_snoc [of "c # bs" b] by simp
next
  case Nil
  show ?case by (simp add: SetBytes_def)
qed

lemma SetBytes_proto_peer: "n < 256 \<Longrightarrow> SetBytes (proto_peer n) = 2 ^ 255 + n"
  by (simp add: proto_peer_def SetBytes_Cons SetBytes_zeros of_char_of)

lemma two_peers_bucket:
  assumes "SetBytes idBytes = 0" "SetBytes p = 2 ^ i" "SetBytes q = 2 ^ i + 1" "0 < i"
  shows "proto_bucket idBytes [p, q] i =
    [\<lparr>te_ID = p, te_Distance = 0\<rparr>, \<lparr>te_ID = q, te_Distance = 1\<rparr>, proto_init idBytes i]"
proof -
  have "(1 :: nat) < 2 ^ i" using assms(4) by (rule one_less_power [OF _ , rotated]) simp
  then show ?thesis using assms by (simp add: proto_bucket_def offer_def absDist_def)
qed

lemma bucket_of_above:
  assumes "2 ^ k \<le> x" and "x < 2 ^ 256" and "x \<noteq> 0"
  shows "k \<le> bucket_of x"
proof -
  have "(2 :: nat) ^ k < 2 ^ Suc (bucket_of x)"
    using assms(1) bucket_of_max(2) [OF assms(2,3)] by (rule le_less_trans)
  then show ?thesis by (simp only: power_strict_increasing_iff one_less_numeral_iff semiring_norm less_Suc_eq_le)
qed

lemma proto_front:
  "findClosest_proto (proto_peer 1) (proto_table proto_node [proto_peer 0, proto_peer 1]) =
    Ret (Some \<lparr>te_ID = proto_peer 0, te_Distance = 0\<rparr>)"
proof -
  have node: "SetBytes proto_node = 0" by (simp only: proto_node_def SetBytes_zeros)
  have p: "SetBytes (proto_peer 0) = 2 ^ 255" "SetBytes (proto_peer 1) = 2 ^ 255 + 1"
    by (simp_all only: SetBytes_proto_peer [of 0] SetBytes_proto_peer [of 1])
  have "255 \<le> bucket_of (2 ^ 255 + 1)" by (rule bucket_of_above) simp_all
  with bucket_of_less [of "2 ^ 255 + 1"] have "bucket_of (2 ^ 255 + 1) = 255" by simp
  then show ?thesis
    by (simp only: findClosest_proto_front node xor.left_neutral two_peers_bucket [OF node p] zero_less_numeral list.sel p)
qed

text \<open>
  C38: The first routing table. After the ideal ids, the first table and any sequence of \<open>addPeer\<close> calls,
  which never panic, bucket \<open>i\<close> holds the first 20 entries of the stable sort of the offered peers that
  are closer to its ideal id than the node, followed by the node itself; and \<open>findClosest\<close> returns the
  front of one bucket, the one of the highest bit in which the id differs from the node's, whatever
  else the bucket holds. The witness is a search for a peer of the table that returns another one.
\<close>

theorem proto_table_spec:
  assumes "length idBytes = 32"
  shows "do { st \<leftarrow> calculateIdealTable_proto idBytes proto_start;
      st \<leftarrow> initTable_proto idBytes st; ofold addPeer_proto peers st } = Ret (proto_table idBytes peers) \<and>
    findClosest_proto x (proto_table idBytes peers) =
      Ret (Some (hd (proto_bucket idBytes peers (bucket_of (SetBytes idBytes XOR SetBytes x)))))"
  using proto_start_table [OF assms] addPeer_proto_all [of peers idBytes "[]"] findClosest_proto_front
  by (simp flip: Option.bind_assoc)

theorem proto_table_spec_witness:
  "\<exists>st. do { st \<leftarrow> calculateIdealTable_proto proto_node proto_start; st \<leftarrow> initTable_proto proto_node st;
      ofold addPeer_proto [proto_peer 0, proto_peer 1] st } = Ret st \<and>
    findClosest_proto (proto_peer 1) st = Ret (Some \<lparr>te_ID = proto_peer 0, te_Distance = 0\<rparr>)"
proof -
  have "length proto_node = 32" by (simp add: proto_node_def)
  from proto_table_spec [OF this, of "[proto_peer 0, proto_peer 1]"] proto_front show ?thesis by blast
qed

section \<open>The experiment with two distances\<close>

text \<open>\<open>bytes.Compare\<close> and \<open>Int.Cmp\<close>.\<close>

definition Compare :: "'a :: linorder \<Rightarrow> 'a \<Rightarrow> int" where
  "Compare a b = (if a < b then -1 else if a = b then 0 else 1)"

definition calculateIdealTable_xor :: "bytes \<Rightarrow> nat option list go" where
  "calculateIdealTable_xor idBytes = do {
     let idInt = SetBytes idBytes;
     (idealIds, mask) \<leftarrow> ofold (\<lambda>i (idealIds, mask).
         if i < length idealIds then Ret (idealIds[i := Some (idInt XOR mask)], 2 * mask) else Panic)
       [0..<length idBytes * 8] (replicate 256 None, 1);
     Ret idealIds }"

text \<open>
  \<open>main\<close> of \<open>scratch/xor.go\<close>: the distances of two ids to the ideal id 255 of the first, compared as
  bytes and as numbers. An id that is not hexadecimal panics.
\<close>

definition main_xor :: "string list \<Rightarrow> (int \<times> int) go" where
  "main_xor strIds = do {
     byteIds \<leftarrow> those (map hexDecode strIds);
     let intIds = map SetBytes byteIds;
     if length byteIds < 2 then Panic
     else do {
       idealTable \<leftarrow> calculateIdealTable_xor (byteIds ! 0);
       ideal \<leftarrow> idealTable ! 255;
       let selfDist = ideal XOR intIds ! 0;
       let peerDist = ideal XOR intIds ! 1;
       Ret (Compare (Bytes peerDist) (Bytes selfDist), Compare peerDist selfDist) } }"

definition strIds_xor :: "string list" where
  "strIds_xor =
    [''4921a16193bde7ecf24f79497a795960468152ba259f6322e923332f186e3d8d'',
     ''e9e29710a2e84579d0a0acbe7df4c05a04bff13268027aee8dac653f54716cba'',
     ''c0fe0c06435f812e1dff643d8b1640b3648d7e4834a9206e08a47253307cdbc3'']"

text \<open>On byte strings of the same length both comparisons agree; \<open>Bytes\<close> drops leading zero bytes.\<close>

lemma Compare_SetBytes:
  assumes "length a = length b"
  shows "Compare a b = Compare (SetBytes a) (SetBytes b)"
proof -
  have less: "a < b \<Longrightarrow> SetBytes a < SetBytes b" if "length a = length b" for a b
    using that
  proof (induction a arbitrary: b)
    case (Cons c a)
    then obtain d b' where b: "b = d # b'" "length a = length b'" by (cases b) auto
    have bnd: "SetBytes a < 256 ^ length a" "SetBytes b' < 256 ^ length a"
      using SetBytes_less [of a] SetBytes_less [of b'] b(2) by (simp_all add: power_mult)
    show ?case
    proof (cases "c = d")
      case True
      with Cons b show ?thesis by (simp add: SetBytes_Cons)
    next
      case False
      with Cons.prems(1) b have "of_char c + 1 \<le> (of_char d :: nat)" by (simp add: less_char_def)
      then have "(of_char c + 1) * 256 ^ length a \<le> (of_char d :: nat) * 256 ^ length a" by (rule mult_right_mono) simp
      with bnd b show ?thesis by (simp add: SetBytes_Cons algebra_simps)
    qed
  qed simp
  show ?thesis
    using assms less [of a b] less [of b a] SetBytes_inj [of a b] by (auto simp: Compare_def not_less_iff_gr_or_eq)
qed

text \<open>The comparison of numbers finds the peer closer to ideal id 255 exactly when the ids differ in bit 255.\<close>

lemma main_xor_eq:
  assumes "those (map hexDecode strIds) = Some (a # b # bs)" and "length a = 32" and "length b = 32"
    and "x = SetBytes a XOR SetBytes b"
  shows "main_xor strIds = Ret (Compare (Bytes (x XOR 2 ^ 255)) (Bytes (2 ^ 255)),
    if bit x 255 then -1 else if x = 0 then 0 else 1)"
proof -
  define k :: nat where "k = 255"
  have less: "SetBytes a < 2 ^ 256" "SetBytes b < 2 ^ 256"
    using SetBytes_less [of a] SetBytes_less [of b] assms(2,3) by simp_all
  then have "x < 2 ^ Suc k" using xor_less_exp [OF less] unfolding assms(4) k_def by simp
  then have cmp: "Compare (x XOR 2 ^ k) (2 ^ k) = (if bit x k then -1 else if x = 0 then 0 else 1)"
    by (auto simp: xor_exp_nat Compare_def)
  have self: "(SetBytes a XOR 2 ^ k) XOR SetBytes a = 2 ^ k" by (rule xor_self_exp)
  have peer: "(SetBytes a XOR 2 ^ k) XOR SetBytes b = x XOR 2 ^ k"
    unfolding assms(4) by (simp only: xor.assoc xor.commute [of "2 ^ k"])
  have "calculateIdealTable_xor a = calculateIdealTable a"
    by (simp only: calculateIdealTable_xor_def calculateIdealTable_def)
  then have table: "calculateIdealTable_xor a = Ret (ideal_ids (SetBytes a))"
    by (simp only: calculateIdealTable_32 [OF assms(2)])
  have ideal: "ideal_ids (SetBytes a) ! k = Some (SetBytes a XOR 2 ^ k)" by (rule ideal_ids_nth) (simp add: k_def)
  have "main_xor strIds = Ret (Compare (Bytes (x XOR 2 ^ k)) (Bytes (2 ^ k)), Compare (x XOR 2 ^ k) (2 ^ k))"
    by (simp add: main_xor_def ideal assms(1) table self peer Let_def k_def [symmetric])
  then show ?thesis unfolding cmp unfolding k_def .
qed

end
