(* ===== verification/ScratchSkip.thy ===== *)
theory ScratchSkip
  imports Coverage "HOL-Library.Signed_Division"
begin

text \<open>
  The experiment with skip links (\<open>scratch/skip.go\<close>), from which the tree of block hashes in
  \<open>white-box/files.go\<close> came. Go's \<open>int\<close> is a 64-bit word read signed (\<open>sint\<close>); division rounds towards
  zero; a coverage is a \<open>big.Int\<close>, here the natural number whose bits it is. Loops that may not end are
  \<^theory_text>\<open>partial_function\<close>s. The lemmas: \<open>findPath\<close> returns the path of heap parents from an index to the
  root and for exactly which indices it returns, \<open>getIndices\<close> prints the links of a complete binary tree,
  \<open>fullCoverage\<close> is the same set of blocks as the bitmap of \<open>white-box/files.go\<close>, and \<open>randomCoverage\<close>
  returns what it promises and cannot end when asked for as many blocks as there are.
\<close>

section \<open>Definitions\<close>

text \<open>Go's \<open>/\<close> on \<open>int\<close>.\<close>

definition go_quot :: "u64 \<Rightarrow> int \<Rightarrow> u64" where
  "go_quot a b = word_of_int (sint a sdiv b)"

definition left :: "u64 \<Rightarrow> u64" where
  "left i = 2 * i + 1"

definition right :: "u64 \<Rightarrow> u64" where
  "right i = 2 * i + 2"

definition parent :: "u64 \<Rightarrow> u64" where
  "parent i = go_quot (i - 1) 2"

text \<open>One printed line of \<open>getIndices\<close>: the index and its links, \<open>None\<close> for an underscore.\<close>

definition index_row :: "u64 \<Rightarrow> u64 \<Rightarrow> u64 \<times> u64 option \<times> u64 option \<times> u64 option" where
  "index_row n i =
     (let skip_left = 2 * i + 1; skip_right = 2 * i + 2 in
      if i = n - 1 then (i, None, None, None)
      else if sint skip_left < sint n \<and> sint skip_right < sint n then (i, Some (i + 1), Some skip_left, Some skip_right)
      else if sint skip_left < sint n \<and> sint n \<le> sint skip_right then (i, Some (i + 1), Some skip_left, None)
      else (i, Some (i + 1), None, None))"

definition getIndices :: "u64 \<Rightarrow> (u64 \<times> u64 option \<times> u64 option \<times> u64 option) list" where
  "getIndices n = map (\<lambda>i. index_row n (of_nat i)) [0..<nat (sint n)]"

text \<open>\<open>coverage.SetBit(coverage, i, 1)\<close> panics for a negative index.\<close>

definition SetBit :: "nat \<Rightarrow> u64 \<Rightarrow> nat go" where
  "SetBit coverage i = (if sint i < 0 then Panic else Ret (set_bit (nat (sint i)) coverage))"

definition hasBlock :: "nat \<Rightarrow> u64 \<Rightarrow> bool go" where
  "hasBlock coverage idx = (if sint idx < 0 then Panic else Ret (bit coverage (nat (sint idx))))"

partial_function (option) fullCoverage_skip_loop :: "u64 \<Rightarrow> u64 \<Rightarrow> nat \<Rightarrow> nat go" where
  "fullCoverage_skip_loop sz i coverage =
     (if sint (i * BUFFER_SIZE) < sint sz
      then do { coverage \<leftarrow> SetBit coverage i; fullCoverage_skip_loop sz (i + 1) coverage }
      else Ret coverage)"

definition fullCoverage_skip :: "u64 \<Rightarrow> nat go" where
  "fullCoverage_skip sz = fullCoverage_skip_loop sz 0 0"

text \<open>
  \<open>intn k n\<close> is what the \<open>k\<close>-th call of \<open>rand.Intn(n)\<close> returns; the argument has to be positive.
\<close>

definition Intn :: "(nat \<Rightarrow> int \<Rightarrow> nat) \<Rightarrow> nat \<Rightarrow> u64 \<Rightarrow> nat go" where
  "Intn intn k n = (if sint n \<le> 0 then Panic else Ret (intn k (sint n)))"

partial_function (option) draw_unset :: "(nat \<Rightarrow> int \<Rightarrow> nat) \<Rightarrow> u64 \<Rightarrow> nat \<Rightarrow> nat \<Rightarrow> (nat \<times> nat) go" where
  "draw_unset intn n coverage k = do {
     idx \<leftarrow> Intn intn k n;
     if bit coverage idx then draw_unset intn n coverage (Suc k) else Ret (idx, Suc k) }"

definition randomCoverage :: "(nat \<Rightarrow> int \<Rightarrow> nat) \<Rightarrow> u64 \<Rightarrow> nat \<Rightarrow> nat go" where
  "randomCoverage intn sz covered = do {
     (coverage, k) \<leftarrow> ofold (\<lambda>_ (coverage, k). do {
         (idx, k) \<leftarrow> draw_unset intn (go_quot sz 10240) coverage k;
         Ret (set_bit idx coverage, k) })
       [0..<covered] (set_bit 0 0, 0);
     Ret coverage }"

text \<open>\<open>findPath\<close> does not read its coverage.\<close>

partial_function (option) findPath_loop :: "u64 \<Rightarrow> u64 list \<Rightarrow> u64 list go" where
  "findPath_loop currIdx result =
     (if currIdx \<noteq> 0 then findPath_loop (parent currIdx) (result @ [currIdx]) else Ret (result @ [currIdx]))"

definition findPath :: "nat \<Rightarrow> u64 \<Rightarrow> u64 list go" where
  "findPath coverage idx = findPath_loop idx []"

section \<open>Children and parents\<close>

lemma sint_small: "n < 2 ^ 63 \<Longrightarrow> sint (of_nat n :: u64) = int n"
  using signed_take_bit_int_eq_self [of 63 "int n"] sint_sbintrunc' [of "int n", where 'a = 64] by simp

lemma sint_unat: "0 \<le> sint (i :: u64) \<Longrightarrow> sint i = int (unat i)"
  using sint_small [of "unat i"] by (simp add: nonneg_unat)

lemma parent_small:
  assumes "0 < n" and "n < 2 ^ 63"
  shows "parent (of_nat n) = of_nat ((n - 1) div 2)"
proof -
  have "(of_nat n :: u64) - 1 = of_nat (n - 1)" using assms(1) by (simp add: of_nat_diff)
  then have "parent (of_nat n) = word_of_int (int (n - 1) sdiv 2)"
    using assms by (simp only: parent_def go_quot_def sint_small)
  also have "int (n - 1) sdiv 2 = int ((n - 1) div 2)"
    by (simp add: signed_divide_int_def sgn_if zdiv_int)
  finally show ?thesis by simp
qed

lemma parent_of_children:
  assumes "n < 2 ^ 62 - 1"
  shows "parent (left (of_nat n)) = of_nat n" "parent (right (of_nat n)) = of_nat n"
proof -
  have "left (of_nat n) = of_nat (2 * n + 1)" "right (of_nat n) = of_nat (2 * n + 2)"
    by (simp_all add: left_def right_def)
  then show "parent (left (of_nat n)) = of_nat n" "parent (right (of_nat n)) = of_nat n"
    using assms parent_small [of "2 * n + 1"] parent_small [of "2 * n + 2"] by simp_all
qed

section \<open>Paths to the root\<close>

text \<open>The path in a heap-ordered binary tree from node \<open>n\<close> to the root 0.\<close>

fun heap_path :: "nat \<Rightarrow> nat list" where
  "heap_path n = n # (if n = 0 then [] else heap_path ((n - 1) div 2))"

declare heap_path.simps [simp del]

lemma length_heap_path: "2 ^ (length (heap_path n) - 1) \<le> n + 1"
proof (induction n rule: heap_path.induct)
  case (1 n)
  show ?case
  proof (cases "n = 0")
    case False
    have "length (heap_path m) > 0" for m by (subst heap_path.simps) simp
    then have "2 ^ (length (heap_path n) - 1) = 2 * 2 ^ (length (heap_path ((n - 1) div 2)) - 1)"
      using False by (subst heap_path.simps) (simp flip: power_Suc)
    also have "\<dots> \<le> 2 * ((n - 1) div 2 + 1)" using 1 [OF False] by simp
    finally show ?thesis using False by simp
  qed (simp add: heap_path.simps)
qed

lemma findPath_loop_returns:
  "n < 2 ^ 63 \<Longrightarrow> findPath_loop (of_nat n) result = Ret (result @ map of_nat (heap_path n))"
proof (induction n arbitrary: result rule: heap_path.induct)
  case (1 n)
  show ?case
  proof (cases "n = 0")
    case True
    then show ?thesis by (simp add: findPath_loop.simps heap_path.simps)
  next
    case False
    with 1 have "(of_nat n :: u64) \<noteq> 0" by (simp add: word_unat_eq_iff unat_of_nat)
    with False 1 show ?thesis
      by (subst findPath_loop.simps, subst heap_path.simps) (simp add: parent_small)
  qed
qed

text \<open>A negative index never returns, except the smallest, whose predecessor is the largest.\<close>

definition stuck :: "u64 \<Rightarrow> bool" where
  "stuck i \<longleftrightarrow> sint i < 0 \<and> - (2 ^ 63) < sint i"

lemma sint_word_of_int:
  "- (2 ^ 63) \<le> k \<Longrightarrow> k < 2 ^ 63 \<Longrightarrow> sint (word_of_int k :: u64) = k"
  using sint_sbintrunc' [of k, where 'a = 64] signed_take_bit_int_eq_self [of 63 k] by simp

lemma stuck_parent:
  assumes "stuck i"
  shows "stuck (parent i)"
proof -
  define m where "m = 1 - sint i"
  have m: "2 \<le> m" "m \<le> 2 ^ 63" using assms by (simp_all add: stuck_def m_def)
  have "i - 1 = word_of_int (- m)" by (simp add: m_def)
  then have "sint (i - 1) = sint (word_of_int (- m) :: u64)" by (simp only:)
  also have "\<dots> = - m" by (rule sint_word_of_int) (use m in simp_all)
  finally have "sint (i - 1) = - m" .
  then have "parent i = word_of_int (- (m div 2))"
    using m by (simp add: parent_def go_quot_def signed_divide_int_def sgn_if)
  moreover have "1 \<le> m div 2" "m div 2 < 2 ^ 63" using m by simp_all
  ultimately show ?thesis unfolding stuck_def by (subst (1 2) \<open>parent i = _\<close>, subst (1 2) sint_word_of_int) simp_all
qed

lemma findPath_loop_not_stuck:
  assumes ret: "findPath_loop i result = Ret r"
  shows "\<not> stuck i"
proof (rule findPath_loop.raw_induct [where P = "\<lambda>i result r. \<not> stuck i", OF _ ret])
  fix f i result r
  assume IH: "\<And>i result r. f i result = Ret r \<Longrightarrow> \<not> stuck i"
    and eq: "(if i \<noteq> 0 then f (parent i) (result @ [i]) else Ret (result @ [i])) = Ret r"
  show "\<not> stuck i"
  proof (cases "i = 0")
    case False
    with eq IH have "\<not> stuck (parent i)" by simp
    with stuck_parent show ?thesis by blast
  qed (simp add: stuck_def)
qed

lemma parent_min: "sint i = - (2 ^ 63) \<Longrightarrow> parent i = of_nat (2 ^ 62 - 1)"
proof -
  assume h: "sint i = - (2 ^ 63)"
  have "i = word_of_int (sint i)" by simp
  then have "i = word_of_int (- (2 ^ 63))" by (simp only: h)
  then have "i - 1 = word_of_int (- (2 ^ 63) - 1)" by simp
  also have "\<dots> = word_of_int (2 ^ 63 - 1)" by (subst word_of_int_eq_iff) (simp add: take_bit_eq_mod)
  finally have "sint (i - 1) = sint (word_of_int (2 ^ 63 - 1) :: u64)" by (simp only:)
  also have "\<dots> = 2 ^ 63 - 1" by (rule sint_word_of_int) simp_all
  finally show "parent i = of_nat (2 ^ 62 - 1)" by (simp add: parent_def go_quot_def)
qed

text \<open>
  C39: The path to the root. For an index that is not negative \<open>findPath\<close> returns the indices on the
  path to the root of the heap-ordered tree, at most 64 of them; for a negative one it loops at -1
  forever, except for the smallest \<open>int\<close>, for which it returns because the subtraction wraps around.
\<close>

theorem find_path_spec:
  "(if 0 \<le> sint idx then
      findPath coverage idx = Ret (map of_nat (heap_path (unat idx))) \<and> length (heap_path (unat idx)) \<le> 64
    else if sint idx = - (2 ^ 63) then \<exists>path. findPath coverage idx = Ret path
    else findPath coverage idx = Panic)"
proof (cases "0 \<le> sint idx")
  case True
  then have n: "unat idx < 2 ^ 63" by (simp add: nonneg_unat)
  have "(2 :: nat) ^ (length (heap_path (unat idx)) - 1) \<le> 2 ^ 63"
    using length_heap_path [of "unat idx"] n by linarith
  then have "length (heap_path (unat idx)) - 1 \<le> 63" by (rule power_le_imp_le_exp [rotated]) simp
  with findPath_loop_returns [OF n, of "[]"] True show ?thesis by (simp add: findPath_def)
next
  case False
  show ?thesis
  proof (cases "sint idx = - (2 ^ 63)")
    case True
    then have "idx \<noteq> 0" by auto
    then have "findPath coverage idx = findPath_loop (of_nat (2 ^ 62 - 1)) [idx]"
      unfolding findPath_def by (subst findPath_loop.simps) (simp add: parent_min [OF True])
    with findPath_loop_returns [of "2 ^ 62 - 1" "[idx]"] False True show ?thesis by auto
  next
    case neq: False
    have "- (2 ^ 63) \<le> sint idx" using sint_ge [of idx] by simp
    with False neq have "stuck idx" by (simp add: stuck_def)
    then have "findPath coverage idx = Panic"
      using findPath_loop_not_stuck [of idx "[]"] by (cases "findPath_loop idx []") (auto simp: findPath_def)
    with False neq show ?thesis by simp
  qed
qed

section \<open>The links that are printed\<close>

lemma of_nat_inj_u64: "a < 2 ^ 62 \<Longrightarrow> b < 2 ^ 62 \<Longrightarrow> (of_nat a :: u64) = of_nat b \<longleftrightarrow> a = b"
  by (simp add: word_unat_eq_iff unat_of_nat)

lemma getIndices_tree:
  assumes "n < 2 ^ 62"
  shows "getIndices (of_nat n) = map (\<lambda>i. let link = (\<lambda>j. if j < n then Some (of_nat j) else None)
    in (of_nat i, link (i + 1), link (2 * i + 1), link (2 * i + 2))) [0..<n]"
proof -
  have n: "sint (of_nat n :: u64) = int n" using assms by (simp add: sint_small)
  have "index_row (of_nat n) (of_nat i) =
      (let link = (\<lambda>j. if j < n then Some (of_nat j) else None)
       in (of_nat i, link (i + 1), link (2 * i + 1), link (2 * i + 2)))" if i: "i < n" for i
  proof -
    have "(of_nat i :: u64) = of_nat n - 1 \<longleftrightarrow> (of_nat i :: u64) = of_nat (n - 1)"
      using i by (simp add: of_nat_diff)
    also have "\<dots> \<longleftrightarrow> i = n - 1" using i assms by (intro of_nat_inj_u64) simp_all
    finally have last: "(of_nat i :: u64) = of_nat n - 1 \<longleftrightarrow> i = n - 1" .
    have kids: "2 * of_nat i + 1 = (of_nat (2 * i + 1) :: u64)" "2 * of_nat i + 2 = (of_nat (2 * i + 2) :: u64)"
      by simp_all
    have "sint (of_nat (2 * i + 1) :: u64) = int (2 * i + 1)" "sint (of_nat (2 * i + 2) :: u64) = int (2 * i + 2)"
      using i assms by (intro sint_small; simp)+
    then show ?thesis
      using i unfolding index_row_def kids last n Let_def by auto
  qed
  then show ?thesis by (simp add: getIndices_def n)
qed

section \<open>Coverages as numbers\<close>

lemma set_bit_mask: "set_bit k (mask k) = (mask (Suc k) :: nat)"
  by (rule bit_eqI) (auto simp: bit_simps less_Suc_eq)

lemma fullCoverage_skip_loop_returns:
  assumes "unat sz + 10240 < 2 ^ 63" and "k \<le> nblocks sz"
  shows "fullCoverage_skip_loop sz (of_nat k) (mask k) = Ret (mask (nblocks sz))"
  using assms(2)
proof (induction "nblocks sz - k" arbitrary: k)
  note small = assms(1)
  have prod: "sint (of_nat k * BUFFER_SIZE) = int (k * 10240)" if "k \<le> nblocks sz" for k
  proof -
    have "k * 10240 \<le> nblocks sz * 10240" using that by simp
    also have "\<dots> \<le> unat sz + 10239" unfolding nblocks_def by (rule div_times_less_eq_dividend)
    finally have "k * 10240 < 2 ^ 63" using small by simp
    then have "sint (of_nat (k * 10240) :: u64) = int (k * 10240)" by (rule sint_small)
    then show ?thesis by (simp add: BUFFER_SIZE_def)
  qed
  have sz: "sint sz = int (unat sz)" using small by (intro sint_unat) (simp add: nonneg_unat)
  {
    case (0 k)
    then have "\<not> sint (of_nat k * BUFFER_SIZE) < sint sz"
      using less_nblocks_iff [of k sz] by (simp only: prod sz of_nat_less_iff) simp
    with 0 show ?case by (subst fullCoverage_skip_loop.simps) simp
  next
    case (Suc d k)
    then have k: "k < nblocks sz" by simp
    then have "k * 10240 < unat sz" by (simp add: less_nblocks_iff)
    then have "sint (of_nat k :: u64) = int k" using small by (intro sint_small) simp
    then have "SetBit (mask k) (of_nat k) = Ret (mask (Suc k))" by (simp add: SetBit_def set_bit_mask)
    moreover have "fullCoverage_skip_loop sz (of_nat (Suc k)) (mask (Suc k)) = Ret (mask (nblocks sz))"
      using Suc k by (intro Suc.hyps(1)) simp_all
    moreover have "sint (of_nat k * BUFFER_SIZE) < sint sz"
      using k \<open>k * 10240 < unat sz\<close> by (simp only: prod sz of_nat_less_iff)
    ultimately show ?case by (subst fullCoverage_skip_loop.simps) (simp add: add.commute)
  }
qed

text \<open>The number whose bits are the blocks of the file, the same set as the bitmap of \<open>white-box/files.go\<close>.\<close>

lemma fullCoverage_skip_bits:
  assumes "0 \<le> sint sz" and "unat sz + 10240 < 2 ^ 63"
  obtains cov where "fullCoverage_skip sz = Ret (mask (nblocks sz))" "fullCoverage sz = Ret cov"
    "{k. bit (mask (nblocks sz) :: nat) k} = cov_bits cov"
proof -
  obtain cov where cov: "fullCoverage sz = Ret cov" "cov_bits cov = {..<nblocks sz}"
    using fullCoverage_returns [OF assms(1)] by blast
  moreover have "fullCoverage_skip sz = Ret (mask (nblocks sz))"
    using fullCoverage_skip_loop_returns [OF assms(2), of 0] by (simp add: fullCoverage_skip_def)
  moreover have "{k. bit (mask (nblocks sz) :: nat) k} = cov_bits cov"
    unfolding cov(2) by (auto simp: bit_mask_iff)
  ultimately show thesis using that by blast
qed

section \<open>Random coverages\<close>

definition blocks_of :: "nat \<Rightarrow> nat set" where
  "blocks_of coverage = {k. bit coverage k}"

lemma blocks_of_set_bit [simp]: "blocks_of (set_bit k c) = insert k (blocks_of c)"
  by (auto simp: blocks_of_def bit_simps)

lemma finite_blocks_of [simp]: "finite (blocks_of c)"
proof (rule finite_subset)
  show "blocks_of c \<subseteq> {..<c}"
  proof
    fix k assume "k \<in> blocks_of c"
    then have "odd (c div 2 ^ k)" by (simp add: blocks_of_def bit_iff_odd)
    then have "c div 2 ^ k \<noteq> 0" by (metis even_zero)
    then have "2 ^ k \<le> c" by (metis div_less not_le)
    moreover have "k < 2 ^ k" by (rule less_exp)
    ultimately show "k \<in> {..<c}" using less_le_trans by blast
  qed
qed simp

lemma draw_unset_new:
  assumes "draw_unset intn n coverage k = Ret r" and "\<And>k. 0 < sint n \<Longrightarrow> intn k (sint n) < nat (sint n)"
  shows "fst r \<notin> blocks_of coverage \<and> fst r < nat (sint n)"
proof (rule draw_unset.raw_induct
    [where P = "\<lambda>intn n coverage k r. (\<forall>k. 0 < sint n \<longrightarrow> intn k (sint n) < nat (sint n)) \<longrightarrow>
        fst r \<notin> blocks_of coverage \<and> fst r < nat (sint n)", OF _ assms(1), THEN mp])
  show "\<forall>k. 0 < sint n \<longrightarrow> intn k (sint n) < nat (sint n)" using assms(2) by blast
qed (auto simp: blocks_of_def Intn_def split: Option.bind_splits if_splits)

text \<open>
  When \<open>randomCoverage\<close> returns, the coverage has block 0 and as many more as were asked for, all of the
  file; so it cannot return when as many are asked for as the file has.
\<close>

lemma randomCoverage_blocks:
  assumes "randomCoverage intn sz covered = Ret coverage"
    and intn: "\<And>n k. 0 < n \<Longrightarrow> intn k n < nat n"
  shows "card (blocks_of coverage) = Suc covered \<and>
    blocks_of coverage \<subseteq> insert 0 {..<nat (sint (go_quot sz 10240))}"
proof -
  let ?n = "go_quot sz 10240"
  let ?body = "\<lambda>_ :: nat. \<lambda>(coverage, k). do { (idx, k) \<leftarrow> draw_unset intn ?n coverage k; Ret (set_bit idx coverage, k) }"
  have "card (blocks_of c) = Suc m \<and> blocks_of c \<subseteq> insert 0 {..<nat (sint ?n)}"
    if "ofold ?body [0..<m] (set_bit 0 0, 0) = Ret (c, k)" for m c k
    using that
  proof (induction m arbitrary: c k)
    case 0
    have "blocks_of (set_bit 0 0) = {0}" unfolding blocks_of_set_bit by (simp add: blocks_of_def)
    with 0 show ?case by simp
  next
    case (Suc m)
    then obtain c0 k0 idx where c0: "ofold ?body [0..<m] (set_bit 0 0, 0) = Ret (c0, k0)"
        "draw_unset intn ?n c0 k0 = Ret (idx, k)" "c = set_bit idx c0"
      by (auto simp: ofold_append split: Option.bind_splits)
    have "idx \<notin> blocks_of c0 \<and> idx < nat (sint ?n)" using draw_unset_new [OF c0(2)] intn by simp
    with Suc.IH [OF c0(1)] c0(3) show ?case by auto
  qed
  with assms(1) show ?thesis by (auto simp: randomCoverage_def split: Option.bind_splits)
qed

lemma randomCoverage_diverges:
  assumes "\<And>n k. 0 < n \<Longrightarrow> intn k n < nat n" and "0 < sint (go_quot sz 10240)"
    and "sint (go_quot sz 10240) \<le> int covered"
  shows "randomCoverage intn sz covered = Panic"
proof (cases "randomCoverage intn sz covered")
  case (Some coverage)
  let ?n = "nat (sint (go_quot sz 10240))"
  have "insert 0 {..<?n} = {..<?n}" using assms(2) by auto
  then have "Suc covered \<le> card {..<?n}"
    using randomCoverage_blocks [OF Some assms(1)] card_mono [of "{..<?n}" "blocks_of coverage"] by simp
  with assms(3) show ?thesis by simp
qed simp

end
