(* ===== verification/ScratchFiles.thy ===== *)
theory ScratchFiles
  imports RescanFacts
begin

text \<open>
  The first version of file sharing (\<open>scratch/files.go\<close>): a walk over the shared directory that reads
  \<open>.pack\<close> files and prints, for each file they list, its hash, the head of its chain of block hashes and
  its coverage. A block's hash covers its index, the hash of the next block, the hash of its data and the
  data; there are no tree links yet. \<open>log.Fatal\<close> ends the program: it is the value \<open>Inl\<close> of what is
  logged. The lemmas: the chain of a file, the coverage and a whole pack are what they should be when the
  files can be read.
\<close>

section \<open>Definitions\<close>

datatype fatal = FatalErr | Fatal string

record PackFile =
  pa_Name :: string
  pa_Files :: "string list"

record ProtoFileInfo =
  pi_Name :: string
  pi_Path :: string
  pi_Hash :: string
  pi_FirstBlockHash :: string
  pi_Size :: u64
  pi_Coverage :: "u64 list"

record ProtoPack =
  pp_Name :: string
  pp_Files :: "ProtoFileInfo list"

record ProtoBlock =
  pb_Index :: u64
  pb_NextBlockHash :: string
  pb_Data :: bytes
  pb_DataHash :: string

definition sha256File_proto :: "(bytes \<Rightarrow> bytes) \<Rightarrow> osfile \<Rightarrow> fatal + string \<times> osfile" where
  "sha256File_proto sha targetFile =
     (let (err, f) = Seek 0 0 targetFile in
      if err then Inl FatalErr
      else case readAll 32768 f of
        (None, f) \<Rightarrow> Inl FatalErr
      | (Some content, f) \<Rightarrow> Inr (hexEncode (sha content), f))"

definition sha256Bytes_proto :: "(bytes \<Rightarrow> bytes) \<Rightarrow> bytes \<Rightarrow> string" where
  "sha256Bytes_proto sha buffer = hexEncode (sha buffer)"

text \<open>The four writes into the hash are one write of their concatenation.\<close>

definition sha256Block_proto :: "(bytes \<Rightarrow> bytes) \<Rightarrow> ProtoBlock option \<Rightarrow> string" where
  "sha256Block_proto sha block = (case block of
     None \<Rightarrow> []
   | Some b \<Rightarrow> hexEncode (sha (FormatUint (pb_Index b) @ pb_NextBlockHash b @ pb_DataHash b @ pb_Data b)))"

text \<open>\<open>json.Unmarshal\<close> into a \<open>PackFile\<close> is the parameter \<open>unmarshal\<close>.\<close>

definition unpackFile_proto :: "(bytes \<Rightarrow> PackFile option) \<Rightarrow> osfile \<Rightarrow> fatal + PackFile" where
  "unpackFile_proto unmarshal targetFile =
     (let (err, f) = Seek 0 0 targetFile in
      if err then Inl FatalErr
      else case readAll 512 f of
        (None, f) \<Rightarrow> Inl FatalErr
      | (Some contents, f) \<Rightarrow> (case unmarshal contents of None \<Rightarrow> Inl FatalErr | Some packFile \<Rightarrow> Inr packFile))"

record proto_chain =
  pc_File :: osfile
  pc_Prev :: "ProtoBlock option"
  pc_Blocks :: "string \<rightharpoonup> ProtoBlock"

text \<open>The loop that reads backward; the first argument is \<open>index + 1\<close>, and the error of its last seek is ignored.\<close>

fun proto_back :: "(bytes \<Rightarrow> bytes) \<Rightarrow> nat \<Rightarrow> proto_chain \<Rightarrow> fatal + proto_chain" where
  "proto_back sha 0 st = Inr st"
| "proto_back sha (Suc index) st =
     (let (r, f) = Read BLK (pc_File st) in
      if r = ReadErr then Inl FatalErr
      else
        let buf = read_bytes r;
            cur = \<lparr>pb_Index = of_nat index, pb_NextBlockHash = sha256Block_proto sha (pc_Prev st),
                   pb_Data = buf, pb_DataHash = sha256Bytes_proto sha buf\<rparr>;
            blockHash = sha256Block_proto sha (Some cur);
            f' = snd (Seek (- (int (length buf) + int BLK)) 1 f)
        in proto_back sha index
             \<lparr>pc_File = f', pc_Prev = Some cur, pc_Blocks = (pc_Blocks st)(blockHash \<mapsto> cur)\<rparr>)"

text \<open>The test forward; a block that is not in the map is a nil dereference.\<close>

function proto_forward ::
    "(bytes \<Rightarrow> bytes) \<Rightarrow> (string \<rightharpoonup> ProtoBlock) \<Rightarrow> u64 \<Rightarrow> string \<Rightarrow> osfile \<Rightarrow> (fatal + unit) go" where
  "proto_forward sha blocks index currBlockHash f =
     (case Read BLK f of
        (ReadErr, _) \<Rightarrow> Ret (Inl FatalErr)
      | (ReadEOF, _) \<Rightarrow> Ret (Inr ())
      | (ReadOK buf, f') \<Rightarrow>
          (case blocks currBlockHash of
             None \<Rightarrow> Panic
           | Some b \<Rightarrow>
               let cur = \<lparr>pb_Index = index, pb_NextBlockHash = pb_NextBlockHash b, pb_Data = buf,
                     pb_DataHash = sha256Bytes_proto sha buf\<rparr>
               in if sha256Block_proto sha (Some cur) \<noteq> currBlockHash
                  then Ret (Inl (Fatal (''Bad hash at '' @ FormatInt index)))
                  else proto_forward sha blocks (index + 1) (pb_NextBlockHash cur) f'))"
  by pat_completeness auto
termination
  by (relation "measure (\<lambda>(sha, blocks, index, h, f). length (of_Data f) - of_Pos f)")
    (auto dest!: Read_progress [OF sym])

declare proto_forward.simps [simp del]

definition calculateChain_proto :: "(bytes \<Rightarrow> bytes) \<Rightarrow> osfile \<Rightarrow> u64 \<Rightarrow> (fatal + string) go" where
  "calculateChain_proto sha targetFile sz =
     (if sint sz < 0 then Ret (Inl (Fatal ''size lt 0''))
      else
        let lastBlockSize = unat sz mod BLK; index = unat sz div BLK;
            (err, f) = Seek (- int lastBlockSize) 2 targetFile
        in if err then Ret (Inl FatalErr)
           else case proto_back sha (Suc index) \<lparr>pc_File = f, pc_Prev = None, pc_Blocks = Map.empty\<rparr> of
             Inl e \<Rightarrow> Ret (Inl e)
           | Inr st \<Rightarrow>
               let (err, f) = Seek 0 0 (pc_File st) in
               if err then Ret (Inl FatalErr)
               else do {
                 r \<leftarrow> proto_forward sha (pc_Blocks st) 0 (sha256Block_proto sha (pc_Prev st)) f;
                 case r of
                   Inl e \<Rightarrow> Ret (Inl e)
                 | Inr _ \<Rightarrow> Ret (Inr (sha256Block_proto sha (pc_Prev st))) })"

text \<open>\<open>fullCoverage\<close> also prints the index at which it starts a new word; \<open>out\<close> is what it printed.\<close>

partial_function (option) fullCoverage_proto_loop ::
    "u64 \<Rightarrow> u64 \<Rightarrow> u64 \<Rightarrow> u64 list \<Rightarrow> u64 list \<Rightarrow> (u64 list \<times> u64 \<times> u64 list) go" where
  "fullCoverage_proto_loop sz i cur coverage out =
     (if i * 10240 < sz
      then let cur = cur OR push_bit (unat (i mod 64)) 1 in
           if (i + 1) mod 64 = 0
           then fullCoverage_proto_loop sz (i + 1) 0 (coverage @ [cur]) (out @ [i])
           else fullCoverage_proto_loop sz (i + 1) cur coverage out
      else Ret (out, cur, coverage))"

definition fullCoverage_proto :: "u64 \<Rightarrow> (u64 list \<times> u64 list) go" where
  "fullCoverage_proto sz = do {
     (out, cur, coverage) \<leftarrow> fullCoverage_proto_loop sz 0 0 [] [];
     Ret (out, if cur \<noteq> 0 then coverage @ [cur] else coverage) }"

text \<open>What the program prints: the lines of \<open>fullCoverage\<close> and the packs.\<close>

datatype printed = Adding u64 | PrintedPack ProtoPack

text \<open>
  One file of a pack. \<open>absp\<close> is \<open>filepath.Abs\<close>; \<open>env\<close> and \<open>dsk\<close> are what the file system answers, as in
  the theory \<open>Rescan\<close>.
\<close>

definition proto_file ::
    "(bytes \<Rightarrow> bytes) \<Rightarrow> (string \<Rightarrow> string option) \<Rightarrow> fs_env \<Rightarrow> disk \<Rightarrow> string \<Rightarrow> string \<Rightarrow> string \<Rightarrow> string \<Rightarrow>
      (fatal + printed list \<times> ProtoFileInfo) go" where
  "proto_file sha absp env dsk sharedDirAbs packName dirPath shortFilePath =
     (case absp (Join dirPath shortFilePath) of
        None \<Rightarrow> Ret (Inl FatalErr)
      | Some sharedFilePathAbs \<Rightarrow>
          if \<not> prefix sharedDirAbs sharedFilePathAbs
          then Ret (Inl (Fatal (''bad pack '' @ packName @ '' file outside of file dir '' @ sharedFilePathAbs)))
          else
            let relativePath = TrimLeft (drop (length sharedDirAbs) sharedFilePathAbs) in
            case os_Open env dsk sharedFilePathAbs of
              None \<Rightarrow> Ret (Inl FatalErr)
            | Some sharedFile \<Rightarrow>
                if \<not> fe_stat env sharedFilePathAbs then Ret (Inl FatalErr)
                else (case sha256File_proto sha sharedFile of
                  Inl e \<Rightarrow> Ret (Inl e)
                | Inr (fileHash, sharedFile) \<Rightarrow> do {
                    let sharedFileSize = (of_nat (length (of_Data sharedFile)) :: u64);
                    chain \<leftarrow> calculateChain_proto sha sharedFile sharedFileSize;
                    case chain of
                      Inl e \<Rightarrow> Ret (Inl e)
                    | Inr firstBlockHash \<Rightarrow> do {
                        (out, coverage) \<leftarrow> fullCoverage_proto sharedFileSize;
                        Ret (Inr (map Adding out,
                          \<lparr>pi_Name = relativePath, pi_Path = sharedFilePathAbs, pi_Hash = fileHash,
                           pi_FirstBlockHash = firstBlockHash, pi_Size = sharedFileSize,
                           pi_Coverage = coverage\<rparr>)) } }))"

fun proto_files ::
    "(string \<Rightarrow> (fatal + printed list \<times> ProtoFileInfo) go) \<Rightarrow> string list \<Rightarrow>
      (fatal + printed list \<times> ProtoFileInfo list) go" where
  "proto_files one [] = Ret (Inr ([], []))"
| "proto_files one (p # ps) = do {
     r \<leftarrow> one p;
     case r of
       Inl e \<Rightarrow> Ret (Inl e)
     | Inr (out, info) \<Rightarrow> do {
         rs \<leftarrow> proto_files one ps;
         case rs of
           Inl e \<Rightarrow> Ret (Inl e)
         | Inr (outs, infos) \<Rightarrow> Ret (Inr (out @ outs, info # infos)) } }"

definition buildPack_proto ::
    "(bytes \<Rightarrow> bytes) \<Rightarrow> (bytes \<Rightarrow> PackFile option) \<Rightarrow> (string \<Rightarrow> string option) \<Rightarrow> fs_env \<Rightarrow> disk \<Rightarrow> string \<Rightarrow>
      string \<Rightarrow> osfile \<Rightarrow> (fatal + printed list) go" where
  "buildPack_proto sha unmarshal absp env dsk sharedDirAbs path targetFile =
     (case unpackFile_proto unmarshal targetFile of
        Inl e \<Rightarrow> Ret (Inl e)
      | Inr packFile \<Rightarrow>
          if pa_Files packFile = [] then Ret (Inl (Fatal ''no files in pack''))
          else do {
            r \<leftarrow> proto_files (proto_file sha absp env dsk sharedDirAbs (pa_Name packFile) (Dir path)) (pa_Files packFile);
            case r of
              Inl e \<Rightarrow> Ret (Inl e)
            | Inr (out, infos) \<Rightarrow>
                Ret (Inr (out @ [PrintedPack \<lparr>pp_Name = pa_Name packFile, pp_Files = infos\<rparr>])) })"

text \<open>
  One visit of \<open>filepath.Walk\<close> (path, error, directory). \<open>Inr (False, _)\<close> is the error that ends the walk;
  a file is opened before its name is looked at.
\<close>

definition walker_proto ::
    "(string \<Rightarrow> osfile \<Rightarrow> (fatal + printed list) go) \<Rightarrow> fs_env \<Rightarrow> disk \<Rightarrow> string \<times> bool \<times> bool \<Rightarrow>
      (fatal + bool \<times> printed list) go" where
  "walker_proto build env dsk visit = (case visit of (path, err, isDir) \<Rightarrow>
     if err then Ret (Inr (False, []))
     else if isDir then Ret (Inr (True, []))
     else case os_Open env dsk path of
       None \<Rightarrow> Ret (Inl FatalErr)
     | Some targetFile \<Rightarrow>
         if \<not> suffix ''.pack'' path then Ret (Inr (True, []))
         else do {
           r \<leftarrow> build path targetFile;
           Ret (case r of Inl e \<Rightarrow> Inl e | Inr out \<Rightarrow> Inr (True, out)) })"

fun walk_proto ::
    "(string \<times> bool \<times> bool \<Rightarrow> (fatal + bool \<times> printed list) go) \<Rightarrow> (string \<times> bool \<times> bool) list \<Rightarrow>
      (fatal + printed list) go" where
  "walk_proto walk1 [] = Ret (Inr [])"
| "walk_proto walk1 (visit # visits) = do {
     r \<leftarrow> walk1 visit;
     case r of
       Inl e \<Rightarrow> Ret (Inl e)
     | Inr (go_on, out) \<Rightarrow>
         if go_on then do {
           rs \<leftarrow> walk_proto walk1 visits;
           Ret (case rs of Inl e \<Rightarrow> Inl e | Inr outs \<Rightarrow> Inr (out @ outs)) }
         else Ret (Inr out) }"

definition main_files ::
    "(bytes \<Rightarrow> bytes) \<Rightarrow> (bytes \<Rightarrow> PackFile option) \<Rightarrow> (string \<Rightarrow> string option) \<Rightarrow> fs_env \<Rightarrow> disk \<Rightarrow>
      (fatal + printed list) go" where
  "main_files sha unmarshal absp env dsk =
     (case absp ''shared'' of
        None \<Rightarrow> Ret (Inl FatalErr)
      | Some sharedDirAbs \<Rightarrow>
          walk_proto (walker_proto (buildPack_proto sha unmarshal absp env dsk sharedDirAbs) env dsk)
            (fe_walk env sharedDirAbs))"

section \<open>The chain of a file\<close>

function chash :: "(bytes \<Rightarrow> bytes) \<Rightarrow> bytes \<Rightarrow> nat \<Rightarrow> string" where
  "chash sha content i =
     (if last_index content < i then []
      else hexEncode (sha (FormatUint (of_nat i) @ chash sha content (Suc i) @
             sha256Bytes_proto sha (blk_data content i) @ blk_data content i)))"
  by pat_completeness auto
termination
  by (relation "measure (\<lambda>(sha, content, i). Suc (last_index content) - i)") auto

declare chash.simps [simp del]

definition cblock :: "(bytes \<Rightarrow> bytes) \<Rightarrow> bytes \<Rightarrow> nat \<Rightarrow> ProtoBlock" where
  "cblock sha content i =
     \<lparr>pb_Index = of_nat i, pb_NextBlockHash = chash sha content (Suc i), pb_Data = blk_data content i,
      pb_DataHash = sha256Bytes_proto sha (blk_data content i)\<rparr>"

lemma chash_beyond: "last_index content < i \<Longrightarrow> chash sha content i = []"
  by (simp add: chash.simps)

lemma sha256Block_cblock:
  "i \<le> last_index content \<Longrightarrow> sha256Block_proto sha (Some (cblock sha content i)) = chash sha content i"
  by (simp add: sha256Block_proto_def cblock_def chash.simps [of sha content i])

text \<open>Before the backward loop reads block \<open>k - 1\<close>.\<close>

definition proto_inv :: "(bytes \<Rightarrow> bytes) \<Rightarrow> bytes \<Rightarrow> nat \<Rightarrow> proto_chain \<Rightarrow> bool" where
  "proto_inv sha content k st \<longleftrightarrow>
     of_Data (pc_File st) = content \<and> of_Faults (pc_File st) = [] \<and>
     (0 < k \<longrightarrow> of_Pos (pc_File st) = (k - 1) * BLK) \<and>
     pc_Prev st = (if last_index content < k then None else Some (cblock sha content k)) \<and>
     (inj_on (chash sha content) {..last_index content} \<longrightarrow>
       (\<forall>j. k \<le> j \<and> j \<le> last_index content \<longrightarrow> pc_Blocks st (chash sha content j) = Some (cblock sha content j)))"

lemma proto_step:
  assumes inv: "proto_inv sha content (Suc i) st" and i: "i \<le> last_index content"
  shows "\<exists>st'. proto_back sha (Suc i) st = proto_back sha i st' \<and> proto_inv sha content i st'"
proof -
  let ?f = "pc_File st" and ?buf = "blk_data content i"
  have f: "of_Data ?f = content" "of_Faults ?f = []" "of_Pos ?f = i * BLK"
    using inv by (simp_all add: proto_inv_def)
  obtain r f1 where r: "Read BLK ?f = (r, f1)" by fastforce
  have r1: "r \<noteq> ReadErr" "read_bytes r = ?buf" "f1 = ?f\<lparr>of_Pos := i * BLK + length ?buf\<rparr>"
    using Read_no_fault [OF f(2), of BLK] r f by (simp_all add: blk_data_def)
  have nxt: "sha256Block_proto sha (pc_Prev st) = chash sha content (Suc i)"
    using inv by (simp add: proto_inv_def sha256Block_cblock chash_beyond sha256Block_proto_def [of sha None])
  have cur: "\<lparr>pb_Index = of_nat i, pb_NextBlockHash = sha256Block_proto sha (pc_Prev st), pb_Data = ?buf,
      pb_DataHash = sha256Bytes_proto sha ?buf\<rparr> = cblock sha content i"
    by (simp only: cblock_def nxt)
  let ?st = "\<lparr>pc_File = snd (Seek (- (int (length ?buf) + int BLK)) 1 f1), pc_Prev = Some (cblock sha content i),
     pc_Blocks = (pc_Blocks st)(chash sha content i \<mapsto> cblock sha content i)\<rparr>"
  have "proto_back sha (Suc i) st = proto_back sha i ?st"
    by (simp add: r r1 Let_def cur sha256Block_cblock [OF i])
  moreover have "of_Data (pc_File ?st) = content" "of_Faults (pc_File ?st) = []"
    using f r1 by (simp_all add: Seek_def next_fault_def Let_def)
  moreover have "0 < i \<longrightarrow> of_Pos (pc_File ?st) = (i - 1) * BLK"
    using f r1 by (auto simp: Seek_def next_fault_def Let_def nat_diff_distrib' left_diff_distrib')
  moreover have "pc_Blocks ?st (chash sha content j) = Some (cblock sha content j)"
    if "inj_on (chash sha content) {..last_index content}" "i \<le> j" "j \<le> last_index content" for j
    using inv that i by (cases "j = i") (auto simp: proto_inv_def inj_on_eq_iff)
  ultimately show ?thesis
    using i by (intro exI [of _ ?st] conjI) (simp_all add: proto_inv_def)
qed

lemma proto_back_chain:
  assumes "proto_inv sha content k st" and "k \<le> Suc (last_index content)"
  shows "\<exists>st'. proto_back sha k st = Inr st' \<and> proto_inv sha content 0 st'"
  using assms
proof (induction k arbitrary: st)
  case (Suc i)
  then obtain st' where "proto_back sha (Suc i) st = proto_back sha i st'" "proto_inv sha content i st'"
    using proto_step by (metis Suc_le_mono)
  with Suc show ?case by simp
qed simp

lemma proto_forward_chain:
  assumes blocks: "\<And>j. j \<le> last_index content \<Longrightarrow> blocks (chash sha content j) = Some (cblock sha content j)"
    and f: "of_Data f = content" "of_Faults f = []" "of_Pos f = min (i * BLK) (length content)"
    and i: "i \<le> Suc (last_index content)"
  shows "proto_forward sha blocks (of_nat i) (chash sha content i) f = Ret (Inr ())"
  using f i
proof (induction "Suc (last_index content) - i" arbitrary: i f)
  case 0
  then have "of_Pos f = length content"
    using dividend_less_times_div [of BLK "length content"] by (simp add: last_index_def)
  with 0 show ?case
    by (subst proto_forward.simps) (simp add: Read_def next_fault_def Let_def)
next
  case (Suc d i)
  show ?case
  proof (cases "i * BLK < length content")
    case False
    with Suc show ?thesis
      by (subst proto_forward.simps) (simp add: Read_def next_fault_def Let_def)
  next
    case True
    from Suc have i: "i \<le> last_index content" by simp
    let ?f = "f\<lparr>of_Pos := of_Pos f + length (blk_data content i)\<rparr>"
    have rd: "Read BLK f = (ReadOK (blk_data content i), ?f)"
      using Suc True by (simp add: Read_def next_fault_def Let_def blk_data_def)
    have "of_Pos ?f = min (Suc i * BLK) (length content)" using Suc True by (auto simp: blk_data_def)
    then have "proto_forward sha blocks (of_nat (Suc i)) (chash sha content (Suc i)) ?f = Ret (Inr ())"
      using Suc i by (intro Suc.hyps(1)) simp_all
    with rd blocks [OF i] sha256Block_cblock [OF i, of sha] show ?thesis
      by (subst proto_forward.simps) (simp add: Let_def cblock_def add.commute)
  qed
qed

lemma calculateChain_proto_head:
  assumes "of_Data f = content" and "of_Faults f = []"
    and "length content = unat sz" and "0 \<le> sint sz"
    and inj: "inj_on (chash sha content) {..last_index content}"
  shows "calculateChain_proto sha f sz = Ret (Inr (chash sha content 0))"
proof -
  let ?n = "last_index content"
  have n: "unat sz div BLK = ?n" by (simp add: last_index_def assms)
  let ?f1 = "f\<lparr>of_Pos := ?n * BLK\<rparr>"
  have "unat sz - unat sz mod BLK = ?n * BLK" by (simp only: minus_mod_eq_div_mult n)
  then have seek: "Seek (- int (unat sz mod BLK)) 2 f = (False, ?f1)"
    using assms(1-3) Seek_end [of f "unat sz mod BLK"] by (simp only: mod_less_eq_dividend)
  let ?st0 = "\<lparr>pc_File = ?f1, pc_Prev = None, pc_Blocks = Map.empty\<rparr>"
  have "proto_inv sha content (Suc ?n) ?st0" using assms by (simp add: proto_inv_def)
  then obtain st where st: "proto_back sha (Suc ?n) ?st0 = Inr st" "proto_inv sha content 0 st"
    using proto_back_chain by blast
  have prev: "sha256Block_proto sha (pc_Prev st) = chash sha content 0"
    using st(2) by (simp add: proto_inv_def sha256Block_cblock)
  have "proto_forward sha (pc_Blocks st) (of_nat 0) (chash sha content 0) ((pc_File st)\<lparr>of_Pos := 0\<rparr>) = Ret (Inr ())"
    using st(2) inj by (intro proto_forward_chain) (simp_all add: proto_inv_def)
  then show ?thesis
    using assms(4) st seek n prev
    by (simp add: calculateChain_proto_def Let_def proto_inv_def Seek_start del: proto_back.simps)
qed

section \<open>The coverage\<close>

lemma fullCoverage_proto_loop_eq:
  assumes "fullCoverage_loop sz i cur cov = Ret r"
  shows "\<exists>out'. fullCoverage_proto_loop sz i cur cov out = Ret (out', r)"
proof -
  have "\<forall>out. \<exists>out'. fullCoverage_proto_loop sz i cur cov out = Ret (out', r)"
  proof (rule fullCoverage_loop.raw_induct
      [where P = "\<lambda>sz i cur cov r. \<forall>out. \<exists>out'. fullCoverage_proto_loop sz i cur cov out = Ret (out', r)", OF _ assms])
    fix f sz i cur cov r
    assume IH: "\<And>sz i cur cov r. f sz i cur cov = Ret r \<Longrightarrow>
        \<forall>out. \<exists>out'. fullCoverage_proto_loop sz i cur cov out = Ret (out', r)"
      and eq: "(if i * BUFFER_SIZE < sz
        then if (i + 1) mod 64 = 0 then f sz (i + 1) 0 (cov @ [cur OR push_bit (unat (i mod 64)) 1])
             else f sz (i + 1) (cur OR push_bit (unat (i mod 64)) 1) cov
        else Ret (cur, cov)) = Ret (r :: u64 \<times> u64 list)"
    show "\<forall>out. \<exists>out'. fullCoverage_proto_loop sz i cur cov out = Ret (out', r)"
      using eq IH by (subst fullCoverage_proto_loop.simps) (auto simp: BUFFER_SIZE_def Let_def split: if_splits)
  qed
  then show ?thesis by blast
qed

text \<open>Both versions of \<open>fullCoverage\<close> return the same bitmap.\<close>

lemma fullCoverage_proto_eq:
  assumes "fullCoverage sz = Ret cov"
  shows "\<exists>out. fullCoverage_proto sz = Ret (out, cov)"
proof -
  from assms obtain cur v where "fullCoverage_loop sz 0 0 [] = Ret (cur, v)"
      "cov = (if cur \<noteq> 0 then v @ [cur] else v)"
    by (auto simp: fullCoverage_def split: Option.bind_splits)
  with fullCoverage_proto_loop_eq [of sz 0 0 "[]" "(cur, v)" "[]"] show ?thesis
    by (auto simp: fullCoverage_proto_def)
qed

section \<open>A file of a pack\<close>

text \<open>
  A file that can be named, opened, read without faults and lies below the shared directory is listed
  with its hash, the head of its chain and the coverage of all its blocks.
\<close>

lemma proto_file_ok:
  assumes path: "absp (Join dirPath p) = Some q" "prefix sharedDirAbs q"
    and opened: "os_Open env dsk q = Some \<lparr>of_Data = C, of_Pos = 0, of_Faults = []\<rparr>" "fe_stat env q"
    and small: "length C < 2 ^ 63" and inj: "inj_on (chash sha C) {..last_index C}"
  shows "\<exists>out cov. proto_file sha absp env dsk sharedDirAbs packName dirPath p = Ret (Inr (map Adding out,
      \<lparr>pi_Name = TrimLeft (drop (length sharedDirAbs) q), pi_Path = q, pi_Hash = sha256Bytes sha C,
       pi_FirstBlockHash = chash sha C 0, pi_Size = of_nat (length C), pi_Coverage = cov\<rparr>)) \<and>
    fullCoverage (of_nat (length C)) = Ret cov \<and> cov_bits cov = {..<nblocks (of_nat (length C))}"
proof -
  let ?f = "\<lparr>of_Data = C, of_Pos = 0, of_Faults = []\<rparr>" and ?sz = "of_nat (length C) :: u64"
  have sz: "unat ?sz = length C" using small by (simp add: unat_of_nat)
  then have nonneg: "0 \<le> sint ?sz" using small by (simp only: nonneg_unat)
  obtain f' where hash: "sha256File_proto sha ?f = Inr (sha256Bytes sha C, f')"
      "of_Data f' = C" "of_Faults f' = []"
    using readAll_spec [of ?f 32768] by (auto simp: sha256File_proto_def sha256Bytes_def Seek_start)
  have chain: "calculateChain_proto sha f' ?sz = Ret (Inr (chash sha C 0))"
    using calculateChain_proto_head [OF hash(2,3) _ nonneg inj] sz by simp
  obtain cov where cov: "fullCoverage ?sz = Ret cov" "cov_bits cov = {..<nblocks ?sz}"
    using fullCoverage_returns [OF nonneg] by blast
  then obtain out where "fullCoverage_proto ?sz = Ret (out, cov)" using fullCoverage_proto_eq by blast
  with path opened hash chain cov show ?thesis
    by (intro exI [of _ out] exI [of _ cov]) (simp add: proto_file_def Let_def)
qed

text \<open>
  The later version of the program lists such a file with the same name, path, hash, size and coverage
  when the party's directory is the shared one; only the first block hash differs.
\<close>

lemma build_file_fields:
  assumes "build_file L env partyDir dirPath p wb = Ret (Inr (info, wb'))"
    and "l_abs L (Join dirPath p) = Some q"
    and "os_Open env (wb_Disk wb) q = Some \<lparr>of_Data = C, of_Pos = 0, of_Faults = []\<rparr>"
  shows "pf_Name info = TrimLeft (drop (length partyDir) q) \<and> pf_Path info = q \<and> pf_Hash info = sha256Bytes (l_sha L) C \<and>
    pf_Size info = of_nat (length C) \<and> pf_Coverage info = fullCoverage (of_nat (length C))"
proof -
  let ?f = "\<lparr>of_Data = C, of_Pos = 0, of_Faults = []\<rparr>"
  from sha256File_spec [of ?f L wb] obtain f' where
    "sha256File L ?f wb = ((Some (sha256Bytes (l_sha L) C), f'), wb)" "of_Data f' = C" by auto
  with assms show ?thesis
    by (auto simp: build_file_def Let_def elim!: bindE split: if_splits sum.splits)
qed

lemma build_file_agrees:
  assumes path: "l_abs L (Join dirPath p) = Some q" "prefix sharedDirAbs q"
    and opened: "os_Open env (wb_Disk wb) q = Some \<lparr>of_Data = C, of_Pos = 0, of_Faults = []\<rparr>" "fe_stat env q"
    and inj: "inj_on (chash (l_sha L) C) {..last_index C}" and sound: "sound_files L env (wb_Disk wb)"
  shows "\<exists>info out new. build_file L env sharedDirAbs dirPath p wb = Ret (Inr (info, wb)) \<and>
    proto_file (l_sha L) (l_abs L) env (wb_Disk wb) sharedDirAbs packName dirPath p = Ret (Inr (out, new)) \<and>
    pi_Name new = pf_Name info \<and> pi_Path new = pf_Path info \<and> pi_Hash new = pf_Hash info \<and>
    pi_Size new = pf_Size info \<and> Some (pi_Coverage new) = pf_Coverage info"
proof -
  have "can_share L env (wb_Disk wb) sharedDirAbs (Join dirPath p)"
    using path opened by (auto simp: can_share_def)
  from build_file_ok [OF sound this] obtain info where
    info: "build_file L env sharedDirAbs dirPath p wb = Ret (Inr (info, wb))" by blast
  have "length C < 2 ^ 63" by (rule os_Open_sound [OF sound opened(1)]) simp
  from proto_file_ok [where absp = "l_abs L" and sha = "l_sha L" and packName = packName, OF path opened this inj] build_file_fields [OF info path(1) opened(1)] info
  show ?thesis by fastforce
qed

text \<open>
  The check against leaving the shared directory is on strings: a sibling directory whose name starts
  with the shared directory's passes it.
\<close>

lemma sibling_listed:
  assumes "absp (Join dirPath p) = Some ''/home/shared-private/key''"
    and "os_Open env dsk ''/home/shared-private/key'' = Some \<lparr>of_Data = C, of_Pos = 0, of_Faults = []\<rparr>"
    and "fe_stat env ''/home/shared-private/key''"
    and "length C < 2 ^ 63" and "inj_on (chash sha C) {..last_index C}"
  shows "\<exists>out info. proto_file sha absp env dsk ''/home/shared'' packName dirPath p = Ret (Inr (out, info)) \<and>
    pi_Name info = ''-private/key'' \<and> pi_Hash info = sha256Bytes sha C"
proof -
  have "prefix ''/home/shared'' ''/home/shared-private/key''" by simp
  from proto_file_ok [where absp = absp and sha = sha and packName = packName, OF assms(1) this assms(2-5)]
  show ?thesis by (auto simp: TrimLeft_def)
qed

end
