(* ===== verification/Advertise.thy ===== *)
theory Advertise
  imports Ring Routing
begin

text \<open>
  When the advertisements of a node go out (\<open>advertiseAll\<close>, \<open>AdvertisePacks\<close> and \<open>sendToNeighbors\<close> of
  \<open>white-box/party.go\<close>): a node with a well-formed table sends to the neighbours in a party without a
  panic when the party has its lock and no member id has a short encryption key.
\<close>

definition member_ids :: "PartyLine \<Rightarrow> string list" where
  "member_ids party = map_keys (case ml_Map (pl_MinList party) of None \<Rightarrow> [] | Some m \<Rightarrow> m)"

text \<open>A party whose members can be written to.\<close>

definition speakable :: "lib \<Rightarrow> PartyLine \<Rightarrow> bool" where
  "speakable L party \<longleftrightarrow> ml_Mutex (pl_MinList party) \<and> (\<forall>i \<in> set (member_ids party). IdToMin (l_spare L) i \<noteq> Panic)"

text \<open>A node that knows its id and has a well-formed table.\<close>

definition can_send :: "WhiteBox \<Rightarrow> bool" where
  "can_send wb \<longleftrightarrow> pe_EncPub (wb_PeerSelf wb) \<noteq> None \<and> wf_wb (SetBytes (pe_SignPub (wb_PeerSelf wb))) wb"

lemma can_send_quiet: "quiet wb wb' \<Longrightarrow> can_send wb \<Longrightarrow> can_send wb'"
  using quiet_wf by (simp add: can_send_def quiet_fields)

lemma can_send_id: "can_send wb \<Longrightarrow> \<exists>i. Peer_Id (wb_PeerSelf wb) = Ret i"
  by (auto simp: can_send_def Peer_Id_def)

lemma find_index_less: "find_index x xs = Some i \<Longrightarrow> i < length xs"
  by (induction xs arbitrary: i) (auto split: if_splits)

lemma getNeighbors_members:
  assumes "speakable L party" and "Peer_Id (wb_PeerSelf wb) = Ret selfId" and keys: "\<forall>ks. set (l_keys L ks) = set ks"
  shows "\<exists>ns wb'. getNeighbors L party wb = Ret (ns, wb') \<and> quiet wb wb' \<and> set (map_keys ns) \<subseteq> set (member_ids party)"
proof -
  let ?ids = "sort (l_keys L (member_ids party))"
  have run: "MinList_Len (pl_MinList party) \<noteq> None" "minlist_ids L (pl_MinList party) = Ret (l_keys L (member_ids party))"
    using assms(1) by (simp_all add: speakable_def MinList_Len_def minlist_ids_def member_ids_def split: option.split)
  show ?thesis
  proof (cases "find_index selfId ?ids")
    case None
    with run assms(2) show ?thesis by (auto simp: getNeighbors_def)
  next
    case (Some i)
    then have n: "0 < length ?ids" using find_index_less by fastforce
    have "?ids ! nat (modFloor x (int (length ?ids))) \<in> set (member_ids party)" for x
    proof -
      have "nat (modFloor x (int (length ?ids))) < length ?ids"
        using n modFloor_mod [of "int (length ?ids)" x] by (simp add: nat_less_iff)
      then show ?thesis using keys by (metis nth_mem set_sort)
    qed
    with run assms(2) Some show ?thesis
      by (auto simp: getNeighbors_def Let_def map_put_keys simp del: length_sort)
  qed
qed

lemma send_sealed_returns:
  assumes "can_send wb" and "IdToMin (l_spare L) i \<noteq> Panic"
  shows "\<exists>wb'. send_sealed L now env j i wb = Ret wb' \<and> quiet wb wb'"
proof (cases "IdToMin (l_spare L) i")
  case (Some r)
  show ?thesis
  proof (cases r)
    case (Inr minp)
    let ?env = "env\<lparr>env_Data := l_seal L j (mi_EncPub minp) (se_EncPrv (wb_Self wb)), env_To := i\<rparr>"
    obtain wb' where "route L now ?env wb = Ret wb'"
      using route_returns [of wb L ?env now] assms by (auto simp: can_send_def)
    with Some Inr quiet_route [OF this] show ?thesis by (simp add: send_sealed_def)
  qed (use Some in \<open>auto simp: send_sealed_def\<close>)
qed (use assms in simp)

lemma sendToNeighbors_returns:
  assumes s: "speakable L party" and c: "can_send wb" and keys: "\<forall>ks. set (l_keys L ks) = set ks"
  shows "\<exists>wb'. sendToNeighbors L now party t d wb = Ret wb' \<and> quiet wb wb'"
proof -
  obtain selfId where self: "Peer_Id (wb_PeerSelf wb) = Ret selfId" using can_send_id [OF c] by blast
  let ?pe = "\<lparr>pv_Type = t, pv_From = selfId, pv_PartyId = pl_Id party, pv_Data = d\<rparr>"
  show ?thesis
  proof (cases "l_ofPartyEnvelope L ?pe")
    case None
    with self show ?thesis by (auto simp: sendToNeighbors_def Let_def)
  next
    case (Some j)
    from getNeighbors_members [OF s self keys] obtain ns wb1 where
      n: "getNeighbors L party wb = Ret (ns, wb1)" "quiet wb wb1" "set (map_keys ns) \<subseteq> set (member_ids party)" by blast
    have "\<exists>wb'. ofold (send_sealed L now (mk_env ''party'' selfId []) j) (l_keys L (map_keys ns)) wb1 = Ret wb' \<and> quiet wb wb'"
    proof (rule ofold_returns [where P = "quiet wb"], rule n(2))
      fix i w assume "i \<in> set (l_keys L (map_keys ns))" "quiet wb w"
      then have "can_send w" "IdToMin (l_spare L) i \<noteq> Panic"
        using can_send_quiet c n(3) keys s by (auto simp: speakable_def)
      from send_sealed_returns [OF this, of now "mk_env ''party'' selfId []" j] \<open>quiet wb w\<close>
      show "\<exists>w'. send_sealed L now (mk_env ''party'' selfId []) j i w = Ret w' \<and> quiet wb w'"
        by (blast intro: quiet_trans)
    qed
    with self Some n(1) show ?thesis by (auto simp: sendToNeighbors_def Let_def)
  qed
qed

lemma AdvertisePacks_returns:
  assumes "speakable L party" and "can_send wb" and "\<forall>ks. set (l_keys L ks) = set ks"
  shows "\<exists>wb'. AdvertisePacks L now party wb = Ret wb' \<and> quiet wb wb'"
  unfolding AdvertisePacks_def
proof (rule ofold_returns)
  fix h w assume q: "quiet wb w"
  have c: "can_send w" by (rule can_send_quiet [OF q assms(2)])
  have "\<exists>w'. SendAdvertisement L now party h pack w = Ret w' \<and> quiet wb w'" for pack
  proof -
    obtain i where i: "Peer_Id (wb_PeerSelf w) = Ret i" using can_send_id [OF c] by blast
    let ?ad = "\<lparr>ad_PeerId = i, ad_PartyId = pl_Id party, ad_Time = now, ad_Hash = h, ad_Pack = pack_json (wb_Files w) pack\<rparr>"
    show ?thesis
    proof (cases "l_ofAdvertisement L ?ad")
      case None
      with i q show ?thesis by (simp add: SendAdvertisement_def)
    next
      case (Some j)
      from sendToNeighbors_returns [OF assms(1) c assms(3), of now "''ad''" "signed L j w"] obtain w' where
        "sendToNeighbors L now party ''ad'' (signed L j w) w = Ret w'" "quiet w w'" by blast
      with i Some quiet_trans [OF q] show ?thesis by (auto simp: SendAdvertisement_def)
    qed
  qed
  with q show "\<exists>w'. (case map_get (pl_Packs party) h of None \<Rightarrow> Ret w
      | Some pack \<Rightarrow> if pk_State pack = COMPLETE then SendAdvertisement L now party h pack w else Ret w) = Ret w' \<and> quiet wb w'"
    by (auto split: option.split)
qed simp

text \<open>All advertisements go out, and nothing but status lines and datagrams is emitted.\<close>

lemma advertiseAll_returns:
  assumes "can_send wb" and "\<forall>ks. set (l_keys L ks) = set ks"
    and "\<forall>k party. map_get (wb_Parties wb) k = Some party \<longrightarrow> speakable L party"
  shows "\<exists>wb'. advertiseAll L now wb = Ret wb' \<and> quiet wb wb'"
  unfolding advertiseAll_def for_parties_def
proof (rule ofold_returns)
  fix k w assume q: "quiet wb w"
  have "\<exists>w'. AdvertisePacks L now party w = Ret w' \<and> quiet wb w'" if "map_get (wb_Parties w) k = Some party" for party
  proof -
    have "speakable L party" using that assms(3) by (simp add: quiet_fields [OF q])
    from AdvertisePacks_returns [OF this can_send_quiet [OF q assms(1)] assms(2)] q show ?thesis
      by (blast intro: quiet_trans)
  qed
  with q show "\<exists>w'. (case map_get (wb_Parties w) k of None \<Rightarrow> Ret w | Some party \<Rightarrow> AdvertisePacks L now party w) = Ret w' \<and> quiet wb w'"
    by (cases "map_get (wb_Parties w) k") auto
qed simp

end
