(* ===== verification/RescanServes.thy ===== *)
theory RescanServes
  imports RescanFacts Advertise
begin

text \<open>
  What a rescan finds: a \<open>.pack\<close> file in the directory of a party, whose files can be read, is listed by the
  party afterwards. With \<open>RescanFacts\<close> (what is listed can be served) and \<open>Advertise\<close> (the
  advertisements go out) this is the whole of \<open>RescanPacks\<close>.
\<close>

section \<open>A pack file and the party that lists it\<close>








section \<open>The pack file is listed\<close>












section \<open>Property\<close>











end
