(* ===== verification/Spec2Isabelle.thy ===== *)
theory Spec2Isabelle
  imports Delivery DownloadSteps PartyProps TableSpec Suggestions TuiProps TuiLayout StartupFacts ScratchTable ScratchSkip
    ScratchFiles RescanServes
begin

text \<open>
  A verification development for party-line, a peer-to-peer chat and file sharing program in Go.

  \<^bold>\<open>The program.\<close> A node (\<open>WhiteBox\<close> in \<open>white-box/\<close>) keeps a Kademlia-like routing table of peers, a set of
  parties it is a member of, and the files it shares or downloads in them. It receives JSON envelopes over
  UDP (\<open>Recv\<close>), dispatches them (\<open>processMessage\<close>) to one handler per message type, and emits envelopes
  through \<open>route\<close> and \<open>flood\<close>. Goroutines ping peers, request missing blocks, serve requests and write
  verified blocks to disk. The terminal user interface (\<open>tui.go\<close>) calls the node's exported operations and
  shows its chats and status lines; \<open>party-line.go\<close> and \<open>nat.go\<close> start the process.

  \<^bold>\<open>Theories, from the bottom up.\<close>

  \<^item> \<open>PL_Prelude\<close>: the outcome type of Go code (\<open>'a go\<close>: \<open>None\<close> is a panic, a fatal exit, or a call that does not
    return), loops that may panic (\<open>ofold\<close>), Go maps (locale \<open>go_map\<close>, interpreted on association lists),
    strings, hex and words. \<open>Paths\<close>: \<open>filepath.Clean\<close>, \<open>Join\<close> and \<open>Dir\<close>.
  \<^item> \<open>Coverage\<close>, \<open>Blocks\<close> (\<open>white-box/files.go\<close>): tree indices, coverage bitmaps on 64-bit words, block hashes and
    \<open>calculateChain\<close> over an open file with a schedule of I/O faults.
  \<^item> \<open>FileTransfer\<close>, \<open>Download\<close>, \<open>DownloadSteps\<close> (\<open>white-box/party.go\<close>): choosing, verifying and writing blocks; a
    transfer between one holder and one requester; downloads as a step relation in which anyone sends blocks.
  \<^item> \<open>Peers\<close>, \<open>WB_State\<close>, \<open>Node\<close> (\<open>white-box/white-box.go\<close>): identities and ids, all messages, the state record
    \<open>WhiteBox\<close> (one field per field of the struct), the record \<open>lib\<close> of code outside the repository, and \<open>New\<close>.
  \<^item> \<open>Kad\<close>, \<open>KadInv\<close>, \<open>TableSpec\<close> (\<open>white-box/kad.go\<close>): the routing table, its well-formedness \<open>wf_wb\<close>, and the
    locale \<open>peer_bag\<close> of what its operations promise, interpreted on the table.
  \<^item> \<open>Senders\<close>, \<open>SendFacts\<close>, \<open>Routing\<close>, \<open>Suggestions\<close> (\<open>white-box/senders.go\<close>): everything a node sends; \<open>quiet\<close> steps only
    emit; the locale \<open>routing\<close> bounds routes in a network of well-formed nodes.
  \<^item> \<open>Processors\<close> (\<open>white-box/processors.go\<close>), \<open>Packs\<close>, \<open>Party\<close>, \<open>PartyFiles\<close>, \<open>Messages\<close> (\<open>white-box/party.go\<close>,
    \<open>white-box/files.go\<close>): the handlers of peer and party messages, packs, and the dispatch. \<open>PartyFacts\<close>, \<open>Ring\<close>,
    \<open>PartyProps\<close>: what the party operations leave alone, neighbours on the ring of members, and inputs that crash.
  \<^item> \<open>Rescan\<close>, \<open>RescanFacts\<close>, \<open>RescanServes\<close> (\<open>white-box/files.go\<close>): making packs from the shared directory;
    \<open>Advertise\<close>: when the advertisements that follow go out.
  \<^item> \<open>NodeInv\<close>, \<open>Reach\<close>: the invariant of a node, the step relation \<open>node_step\<close> of messages, goroutine rounds and
    user operations in any order, the environment answering anew at every step, reachable states, and the locale
    \<open>gossip\<close> (every chat once, under its own key), interpreted on nodes and on parties.
  \<^item> \<open>Joining\<close>, \<open>JoinParty\<close>: two nodes together, from the operation of one user to the states of both: bootstrapping,
    invitations, and chats in a party; each datagram one writes to the other's address is handed to it.
    \<open>Delivery\<close>: a file from the request of one member to its disk, the rounds of both nodes' goroutines as an
    implementation of the exchange of \<open>Download\<close>.
  \<^item> \<open>Tui\<close>, \<open>TuiCommands\<close>, \<open>TuiLayout\<close>, \<open>TuiProps\<close> (\<open>tui.go\<close> and the receivers of \<open>party-line.go\<close>): the chat log and
    its layout, the commands, the input line, and the interface and the node together (\<open>ui_step\<close>).
  \<^item> \<open>Startup\<close>, \<open>StartupFacts\<close> (\<open>party-line.go\<close>, \<open>nat.go\<close>, \<open>Recv\<close>): the permanent identity, private addresses and
    the choice of a port mapping, and how datagrams are cut into messages.
  \<^item> \<open>ScratchTable\<close>, \<open>ScratchSkip\<close>, \<open>ScratchFiles\<close> (\<open>scratch/\<close>): the author's first versions of the routing table, of
    the tree of skip links and of packs, and how they relate to the later ones.

  \<^bold>\<open>State and code.\<close> A handler of the code is a function from the state before to the state after
  (\<open>WhiteBox \<Rightarrow> WhiteBox go\<close>); \<open>return\<close>s are branches, nil dereferences and slice bounds are \<open>None\<close>. What a
  step emits (chats, status lines, datagrams) is appended to \<open>wb_out\<close>. File infos are shared by pointer and
  live in the heap \<open>wb_Files\<close>. Times are nanoseconds. Map iteration order, randomness, signatures, JSON,
  dialling and the file system are parameters (\<open>lib\<close>, \<open>fs_env\<close>, \<open>ui_env\<close>, \<open>perm_env\<close>, \<open>nat_env\<close>); what a theorem
  needs of them is among its hypotheses.

  \<^bold>\<open>What is shown.\<close> Downloads are never corrupted by wrong blocks short of a second preimage, whatever was on the
  path and whatever faults occur, except for the tail of an older, longer file. Files of at most 31 blocks arrive; files of
  more than 32 never do when requests are answered one at a time, and forged link fields stop a download
  (\<open>Download\<close>, \<open>DownloadSteps\<close>). A rescan lists the packs that can be served, and only those (\<open>RescanServes\<close>). Routing tables stay well-formed in every reachable state,
  refine a bag of peers, and bound the length of routes (\<open>KadInv\<close>, \<open>TableSpec\<close>, \<open>Routing\<close>, \<open>Reach\<close>). Chats are
  shown exactly once, and party messages reach all members that agree on the member list (\<open>Reach\<close>, \<open>Ring\<close>). Bootstrapping
  connects both nodes, an accepted invitation makes both members, a chat arrives at a neighbour, and a file that
  one member has started to fetch arrives on its disk, provided that JSON, signatures and sealed boxes carry the
  messages of the exchange (\<open>Joining\<close>, \<open>JoinParty\<close>, \<open>Delivery\<close>). The user interface
  acts on a node only by the node's steps (\<open>TuiProps\<close>). Other theorems pin down faults of the code: inputs that crash or block a node, hashes without separators, paths that escape, an identity file that goes stale,
  and in the first versions a search that never compares and a path that never ends (\<open>ScratchTable\<close>, \<open>ScratchSkip\<close>).

  \<^bold>\<open>Bounds.\<close> Channels hold 100 elements, and a send on a full one does not return in the step that makes it. Bitmaps have
  64 blocks per word; the limits of 31 and 32 blocks come from the right child \<open>2i+2\<close> that \<open>chooseBlock\<close> marks.
  Routes have at most 256 hops because every hop shortens the distance of 256-bit keys in its highest bit. The loops
  that need not end (\<open>fullCoverage\<close>, \<open>buildBlockLookup\<close>, \<open>findPath\<close>, \<open>randomCoverage\<close>) are partial
  functions without fuel; all other loops are structural or have a measure.

  \<^bold>\<open>Not modelled.\<close> Interleavings inside a handler: handlers are atomic, and of the locks only those that the code
  can leave nil (\<open>ml_Mutex\<close>) or locked (\<open>tu_InvitesHeld\<close>) appear. Drawing on the terminal, logging and flag parsing
  are I/O. UPnP, NAT-PMP, termui, cryptography and JSON are third-party or standard code; signature verification
  is a total function of data and key, so a library that panics on keys of another length is not covered. JSON is
  taken to carry what it is assumed to carry in each theorem, which \<open>encoding/json\<close> does for valid UTF-8. \<open>Recv\<close> has
  no bound on datagrams and lines: the truncation of a datagram that does not fit the receive buffer, and the limit
  of \<open>bufio\<close> on empty reads, are left out. A node serves blocks from a disk it can read: I/O errors of
  \<open>chooseBlock\<close>, which make it return nil, appear only as missing files. Of the lock of the pending invites only the
  commands that wait for it are modelled; the receiver of an invitation (\<open>processInvite\<close>), which waits as well, is not. Of \<open>scratch/\<close>, the files that only try
  out a library (\<open>icmp.go\<close>, \<open>json.go\<close>, \<open>send.go\<close>, \<open>time.go\<close>, \<open>unicode.go\<close>) and the floating-point \<open>maxSteps\<close>
  are left out; \<open>beige-box/\<close> and \<open>files_test.go\<close> are tests.
\<close>

end
